(* ===== verification/Prelude.thy ===== *)
theory Prelude
  imports Main
begin

text \<open>
  Shared vocabulary of the development: the result types that stand for Go's ways of
  leaving a function, the collections of rewrite rules the component theories fill, and
  generic lemmas on lists and options.

  A Go function leaves in one of three ways.  It returns values, it returns a non-nil
  \<open>error\<close>, or it panics (a nil dereference, a slice bound out of range).  Returned errors
  are values of a sum type, \<open>Inl\<close> the error.  Where the source can panic, the whole result
  is wrapped in \<open>go\<close>, so that a panic is a branch of the model like any other.
\<close>

named_theorems gostr_simps \<open>equations of the string operations\<close>
named_theorems strset_simps \<open>membership in the string sets built by the set operations\<close>
named_theorems run_simps \<open>unfolding of the straight-line handlers\<close>

subsection \<open>Panics\<close>

datatype 'a go = Ret 'a | Panic string

fun go_bind :: "'a go \<Rightarrow> ('a \<Rightarrow> 'b go) \<Rightarrow> 'b go" where
  "go_bind (Ret x) f = f x"
| "go_bind (Panic m) f = Panic m"

definition panics :: "'a go \<Rightarrow> bool" where
  "panics r = (case r of Ret _ \<Rightarrow> False | Panic _ \<Rightarrow> True)"

lemma panics_simps [simp]: "panics (Panic m)" "\<not> panics (Ret x)"
  by (simp_all add: panics_def)

lemma go_bind_Ret_iff: "go_bind r f = Ret y \<longleftrightarrow> (\<exists>x. r = Ret x \<and> f x = Ret y)"
  by (cases r) simp_all

lemma not_panics: "\<not> panics r \<longleftrightarrow> (\<exists>x. r = Ret x)"
  by (cases r) simp_all

lemma panics_bind: "panics (go_bind r f) \<longleftrightarrow> panics r \<or> (\<exists>x. r = Ret x \<and> panics (f x))"
  by (cases r) simp_all

lemma panics_concat:
  "panics (go_bind r (\<lambda>t. go_bind q (\<lambda>ts. Ret (f t ts)))) \<longleftrightarrow> panics r \<or> panics q"
  by (cases r; cases q) simp_all

lemma go_bind_assoc: "go_bind (go_bind r f) g = go_bind r (\<lambda>x. go_bind (f x) g)"
  by (cases r) simp_all

lemma panics_bind_Ret: "panics (go_bind r (\<lambda>(x, y). Ret (x, y, z))) \<longleftrightarrow> panics r"
  by (cases r) auto

text \<open>A nil dereference, the commonest panic: reading \<open>*p\<close> of an optional field.\<close>

definition deref :: "'a option \<Rightarrow> 'a go" where
  "deref p = (case p of None \<Rightarrow> Panic ''nil dereference'' | Some x \<Rightarrow> Ret x)"

lemma deref_simps [simp]: "deref (Some x) = Ret x" "deref None = Panic ''nil dereference''"
  by (simp_all add: deref_def)

subsection \<open>Iteration order of Go maps\<close>

text \<open>
  The Go specification leaves the order of a \<open>range\<close> over a map open, but every key is
  visited exactly once.  A definition whose result depends on the order takes it as an
  argument \<open>ord\<close>, a rearrangement of the stored keys, and the theorems hold for all of them.
\<close>

definition range_order :: "('a list \<Rightarrow> 'a list) \<Rightarrow> bool" where
  "range_order ord \<longleftrightarrow> (\<forall>xs. distinct xs \<longrightarrow> distinct (ord xs) \<and> set (ord xs) = set xs)"

lemma range_order_set [simp]: "range_order ord \<Longrightarrow> distinct xs \<Longrightarrow> set (ord xs) = set xs"
  by (simp add: range_order_def)

lemma range_order_distinct [simp]: "range_order ord \<Longrightarrow> distinct xs \<Longrightarrow> distinct (ord xs)"
  by (simp add: range_order_def)

lemma range_order_length: "range_order ord \<Longrightarrow> distinct xs \<Longrightarrow> length (ord xs) = length xs"
  by (metis distinct_card range_order_def)

lemma range_order_id [simp]: "range_order (\<lambda>xs. xs)"
  by (simp add: range_order_def)

lemma range_order_rev [simp]: "range_order rev"
  by (simp add: range_order_def)

lemma range_order_Nil [simp]: "range_order ord \<Longrightarrow> ord [] = []"
  by (metis distinct.simps(1) list.set(1) range_order_def set_empty)

subsection \<open>Lists\<close>

text \<open>The first element that satisfies a test, the shape of Go's search loops.\<close>

fun first_such :: "('a \<Rightarrow> bool) \<Rightarrow> 'a list \<Rightarrow> 'a option" where
  "first_such p [] = None"
| "first_such p (x # xs) = (if p x then Some x else first_such p xs)"

lemma first_such_None_iff: "first_such p xs = None \<longleftrightarrow> (\<forall>x \<in> set xs. \<not> p x)"
  by (induction xs) auto

lemma first_such_SomeD: "first_such p xs = Some x \<Longrightarrow> x \<in> set xs \<and> p x"
  by (induction xs) (auto split: if_splits)

lemma first_such_append:
  "first_such p (xs @ ys) = (case first_such p xs of None \<Rightarrow> first_such p ys | Some x \<Rightarrow> Some x)"
  by (induction xs) auto

lemma first_such_cong:
  "(\<And>x. x \<in> set xs \<Longrightarrow> p x = q x) \<Longrightarrow> first_such p xs = first_such q xs"
  by (induction xs) auto

lemma first_such_unique:
  assumes "x \<in> set xs" "p x" "\<And>y. y \<in> set xs \<Longrightarrow> p y \<Longrightarrow> y = x"
  shows "first_such p xs = Some x"
proof (cases "first_such p xs")
  case None
  with assms(1,2) show ?thesis by (simp add: first_such_None_iff)
next
  case (Some y)
  then have "y \<in> set xs" "p y" by (simp_all add: first_such_SomeD)
  with assms(3) Some show ?thesis by blast
qed

lemma filter_all_in: "(\<And>x. x \<in> set xs \<Longrightarrow> P x) \<Longrightarrow> filter P xs = xs"
  by (simp add: filter_id_conv)

end
