(* ===== verification/GoStrings.thy ===== *)
theory GoStrings
  imports Prelude
begin

text \<open>
  The part of Go's \<open>strings\<close>, \<open>strconv\<close> and \<open>path/filepath\<close> packages the
  program uses, on byte strings (\<open>char list\<close>, one \<open>char\<close> per byte).  White space is the
  ASCII white space of \<open>unicode.IsSpace\<close>.
\<close>

subsection \<open>Prefixes and suffixes\<close>

definition HasPrefix :: "string \<Rightarrow> string \<Rightarrow> bool" where
  "HasPrefix s p \<longleftrightarrow> length p \<le> length s \<and> take (length p) s = p"

definition HasSuffix :: "string \<Rightarrow> string \<Rightarrow> bool" where
  "HasSuffix s p \<longleftrightarrow> length p \<le> length s \<and> drop (length s - length p) s = p"

definition TrimPrefix :: "string \<Rightarrow> string \<Rightarrow> string" where
  "TrimPrefix s p = (if HasPrefix s p then drop (length p) s else s)"

lemma HasPrefix_iff: "HasPrefix s p \<longleftrightarrow> (\<exists>t. s = p @ t)"
  by (auto simp: HasPrefix_def) (metis append_take_drop_id)

lemma HasSuffix_iff: "HasSuffix s p \<longleftrightarrow> (\<exists>t. s = t @ p)"
  by (auto simp: HasSuffix_def) (metis append_take_drop_id)

lemma HasPrefix_Nil [gostr_simps, simp]: "HasPrefix s []"
  by (simp add: HasPrefix_def)

lemma HasPrefix_append [gostr_simps, simp]: "HasPrefix (p @ t) p"
  by (simp add: HasPrefix_def)

lemma HasPrefix_Cons [gostr_simps]:
  "HasPrefix (c # s) (d # p) \<longleftrightarrow> c = d \<and> HasPrefix s p" "\<not> HasPrefix [] (d # p)"
  by (auto simp: HasPrefix_def)

lemma HasSuffix_append [gostr_simps, simp]: "HasSuffix (t @ p) p"
  by (simp add: HasSuffix_def)

lemma TrimPrefix_append [gostr_simps, simp]: "TrimPrefix (p @ t) p = t"
  by (simp add: TrimPrefix_def)

lemma TrimPrefix_other [gostr_simps]: "\<not> HasPrefix s p \<Longrightarrow> TrimPrefix s p = s"
  by (simp add: TrimPrefix_def)

subsection \<open>Substrings\<close>

fun ContainsSub :: "string \<Rightarrow> string \<Rightarrow> bool" where
  "ContainsSub [] p = (p = [])"
| "ContainsSub (c # s) p = (HasPrefix (c # s) p \<or> ContainsSub s p)"

lemma ContainsSub_iff: "ContainsSub s p \<longleftrightarrow> (\<exists>a b. s = a @ p @ b)"
proof (induction s)
  case Nil
  then show ?case by auto
next
  case (Cons c s)
  show ?case
  proof
    assume "ContainsSub (c # s) p"
    then consider "HasPrefix (c # s) p" | "ContainsSub s p" by auto
    then show "\<exists>a b. c # s = a @ p @ b"
    proof cases
      case 1
      then show ?thesis unfolding HasPrefix_iff by (metis append_Nil)
    next
      case 2
      then show ?thesis using Cons.IH by (metis append_Cons)
    qed
  next
    assume "\<exists>a b. c # s = a @ p @ b"
    then obtain a b where ab: "c # s = a @ p @ b" by blast
    show "ContainsSub (c # s) p"
    proof (cases a)
      case Nil
      with ab have "HasPrefix (c # s) p" by (auto simp: HasPrefix_iff)
      then show ?thesis by simp
    next
      case (Cons x a')
      with ab have "s = a' @ p @ b" by simp
      then show ?thesis using Cons.IH by auto
    qed
  qed
qed

subsection \<open>Splitting and joining\<close>

text \<open>
  \<open>strings.Split\<close> for a non-empty separator, as a scan that collects the current part.
  The scan keeps the part reversed.
\<close>

function split_scan :: "string \<Rightarrow> string \<Rightarrow> string \<Rightarrow> string list" where
  "split_scan sep acc [] = [rev acc]"
| "split_scan sep acc (c # s) =
     (if sep \<noteq> [] \<and> HasPrefix (c # s) sep
      then rev acc # split_scan sep [] (drop (length sep) (c # s))
      else split_scan sep (c # acc) s)"
  by pat_completeness auto
termination
  by (relation "measure (\<lambda>(sep, acc, s). length s)") (auto simp: neq_Nil_conv)

definition Split :: "string \<Rightarrow> string \<Rightarrow> string list" where
  "Split s sep = split_scan sep [] s"

fun Join :: "string list \<Rightarrow> string \<Rightarrow> string" where
  "Join [] sep = []"
| "Join [x] sep = x"
| "Join (x # y # xs) sep = x @ sep @ Join (y # xs) sep"

lemma split_scan_not_Nil [simp]: "split_scan sep acc s \<noteq> []"
  by (induction sep acc s rule: split_scan.induct) auto

lemma Split_not_Nil [simp]: "Split s sep \<noteq> []"
  by (simp add: Split_def)

lemma Join_Cons: "xs \<noteq> [] \<Longrightarrow> Join (x # xs) sep = x @ sep @ Join xs sep"
  by (cases xs) auto

lemma Join_split_scan: "Join (split_scan sep acc s) sep = rev acc @ s"
proof (induction sep acc s rule: split_scan.induct)
  case (2 sep acc c s)
  show ?case
  proof (cases "sep \<noteq> [] \<and> HasPrefix (c # s) sep")
    case True
    then have "sep @ drop (length sep) (c # s) = c # s"
      by (metis HasPrefix_def append_take_drop_id)
    with True 2 show ?thesis by (simp add: Join_Cons)
  next
    case False
    with 2 show ?thesis by auto
  qed
qed simp

theorem Join_Split: "Join (Split s sep) sep = s"
  by (simp add: Split_def Join_split_scan)

text \<open>On a one-byte separator, parts are the maximal runs without it.\<close>

lemma split_scan_char_step:
  "split_scan [d] acc (c # s) = (if c = d then rev acc # split_scan [d] [] s
                                 else split_scan [d] (c # acc) s)"
  by (simp add: HasPrefix_Cons)

lemma split_scan_char_run:
  "d \<notin> set p \<Longrightarrow> split_scan [d] acc (p @ s) = split_scan [d] (rev p @ acc) s"
  by (induction p arbitrary: acc) (auto simp: split_scan_char_step simp del: split_scan.simps(2))

lemma Split_char_no [gostr_simps]: "d \<notin> set p \<Longrightarrow> Split p [d] = [p]"
  using split_scan_char_run [of d p "[]" "[]"] by (simp add: Split_def)

lemma Split_char_Cons [gostr_simps]: "d \<notin> set p \<Longrightarrow> Split (p @ d # s) [d] = p # Split s [d]"
  using split_scan_char_run [of d p "[]" "d # s"]
  by (simp add: Split_def split_scan_char_step del: split_scan.simps(2))

lemma Split_Join_char:
  assumes "xs \<noteq> []" "\<And>x. x \<in> set xs \<Longrightarrow> d \<notin> set x"
  shows "Split (Join xs [d]) [d] = xs"
  using assms
proof (induction xs)
  case Nil
  then show ?case by simp
next
  case (Cons x xs)
  show ?case
  proof (cases "xs = []")
    case True
    with Cons.prems show ?thesis by (simp add: Split_char_no)
  next
    case False
    with Cons show ?thesis by (simp add: Join_Cons Split_char_Cons)
  qed
qed

lemma split_scan_char_free:
  "d \<notin> set acc \<Longrightarrow> x \<in> set (split_scan [d] acc s) \<Longrightarrow> d \<notin> set x"
proof (induction s arbitrary: acc)
  case (Cons c s)
  show ?case
  proof (cases "c = d")
    case True
    with Cons.prems have "x = rev acc \<or> x \<in> set (split_scan [d] [] s)"
      by (auto simp: split_scan_char_step simp del: split_scan.simps(2))
    with Cons.prems(1) Cons.IH [of "[]"] show ?thesis by auto
  next
    case False
    with Cons.prems have "x \<in> set (split_scan [d] (c # acc) s)"
      by (simp add: split_scan_char_step del: split_scan.simps(2))
    with Cons.prems(1) False Cons.IH [of "c # acc"] show ?thesis by simp
  qed
qed simp

lemma Split_char_free: "x \<in> set (Split s [d]) \<Longrightarrow> d \<notin> set x"
  by (rule split_scan_char_free [of d "[]"]) (simp_all add: Split_def)

text \<open>\<open>strings.SplitN(s, sep, 2)\<close> for a one-byte separator: at most one cut.\<close>

definition SplitN2 :: "string \<Rightarrow> char \<Rightarrow> string list" where
  "SplitN2 s d = (case dropWhile (\<lambda>c. c \<noteq> d) s of
                    [] \<Rightarrow> [s]
                  | _ # r \<Rightarrow> [takeWhile (\<lambda>c. c \<noteq> d) s, r])"

lemma SplitN2_cut [gostr_simps]: "d \<notin> set p \<Longrightarrow> SplitN2 (p @ d # s) d = [p, s]"
proof -
  assume "d \<notin> set p"
  then have "\<And>x. x \<in> set p \<Longrightarrow> x \<noteq> d" by auto
  then have "dropWhile (\<lambda>c. c \<noteq> d) (p @ d # s) = d # s"
    and "takeWhile (\<lambda>c. c \<noteq> d) (p @ d # s) = p"
    by (simp_all add: dropWhile_append2 takeWhile_append2)
  then show ?thesis by (simp add: SplitN2_def)
qed

lemma SplitN2_no [gostr_simps]: "d \<notin> set p \<Longrightarrow> SplitN2 p d = [p]"
  by (metis (mono_tags, lifting) SplitN2_def dropWhile_eq_Nil_conv list.simps(4))

lemma SplitN2_cases:
  "SplitN2 s d = [s] \<and> d \<notin> set s \<or> (\<exists>p r. s = p @ d # r \<and> d \<notin> set p \<and> SplitN2 s d = [p, r])"
  by (metis SplitN2_cut SplitN2_no split_list_first)

subsection \<open>Trimming\<close>

definition trim_by :: "(char \<Rightarrow> bool) \<Rightarrow> string \<Rightarrow> string" where
  "trim_by p s = rev (dropWhile p (rev (dropWhile p s)))"

definition Trim :: "string \<Rightarrow> string \<Rightarrow> string" where
  "Trim s cutset = trim_by (\<lambda>c. c \<in> set cutset) s"

definition is_space :: "char \<Rightarrow> bool" where
  "is_space c \<longleftrightarrow> c \<in> set [CHR 0x09, CHR 0x0A, CHR 0x0B, CHR 0x0C, CHR 0x0D, CHR '' '']"

definition TrimSpace :: "string \<Rightarrow> string" where
  "TrimSpace s = trim_by is_space s"

lemma trim_by_id:
  assumes "s = [] \<or> (\<not> p (hd s) \<and> \<not> p (last s))"
  shows "trim_by p s = s"
proof (cases "s = []")
  case False
  with assms have "dropWhile p s = s" "dropWhile p (rev s) = rev s"
    by (metis list.collapse dropWhile.simps(2), metis False hd_rev list.collapse dropWhile.simps(2) rev_is_Nil_conv)
  then show ?thesis by (simp add: trim_by_def)
qed (simp add: trim_by_def)

lemma trim_by_ends:
  "trim_by p s = [] \<or> (\<not> p (hd (trim_by p s)) \<and> \<not> p (last (trim_by p s)))"
proof -
  define t where "t = dropWhile p s"
  define u where "u = dropWhile p (rev t)"
  have u: "u = [] \<or> \<not> p (hd u)" unfolding u_def using hd_dropWhile by blast
  obtain q where q: "rev t = q @ u" unfolding u_def by (metis takeWhile_dropWhile_id)
  then have tq: "t = rev u @ rev q" by (metis rev_append rev_rev_ident)
  have "u \<noteq> [] \<Longrightarrow> hd t = hd (rev u)" using tq by (simp add: hd_append)
  moreover have "t = [] \<or> \<not> p (hd t)" unfolding t_def using hd_dropWhile by blast
  ultimately show ?thesis
    using u tq unfolding trim_by_def t_def [symmetric] u_def [symmetric] by (auto simp: last_rev)
qed

text \<open>\<open>strings.Fields\<close>: the maximal runs of non-space bytes.\<close>

fun fields_scan :: "string \<Rightarrow> string \<Rightarrow> string list" where
  "fields_scan acc [] = (if acc = [] then [] else [rev acc])"
| "fields_scan acc (c # s) =
     (if is_space c then (if acc = [] then fields_scan [] s else rev acc # fields_scan [] s)
      else fields_scan (c # acc) s)"

definition Fields :: "string \<Rightarrow> string list" where
  "Fields s = fields_scan [] s"

subsection \<open>Indices\<close>

text \<open>\<open>strings.LastIndex\<close> of a one-byte needle: \<open>-1\<close> when it does not occur.\<close>

fun last_index_from :: "int \<Rightarrow> int \<Rightarrow> string \<Rightarrow> char \<Rightarrow> int" where
  "last_index_from i best [] d = best"
| "last_index_from i best (c # s) d = last_index_from (i + 1) (if c = d then i else best) s d"

definition LastIndex :: "string \<Rightarrow> char \<Rightarrow> int" where
  "LastIndex s d = last_index_from 0 (-1) s d"

lemma last_index_from_no: "d \<notin> set s \<Longrightarrow> last_index_from i best s d = best"
  by (induction s arbitrary: i best) auto

lemma last_index_from_cut:
  "d \<notin> set r \<Longrightarrow> last_index_from i best (p @ d # r) d = i + int (length p)"
  by (induction p arbitrary: i best) (auto simp: last_index_from_no)

lemma LastIndex_no [gostr_simps]: "d \<notin> set s \<Longrightarrow> LastIndex s d = -1"
  by (simp add: LastIndex_def last_index_from_no)

lemma LastIndex_cut [gostr_simps]: "d \<notin> set r \<Longrightarrow> LastIndex (p @ d # r) d = int (length p)"
  by (simp add: LastIndex_def last_index_from_cut)

subsection \<open>Numbers\<close>

text \<open>\<open>strconv.Itoa\<close> and the verb \<open>%d\<close> on natural numbers and integers.\<close>

definition digit :: "nat \<Rightarrow> char" where
  "digit d = char_of (48 + d)"

fun itoa_nat :: "nat \<Rightarrow> string" where
  "itoa_nat n = (if n < 10 then [digit n] else itoa_nat (n div 10) @ [digit (n mod 10)])"

declare itoa_nat.simps [simp del]

definition Itoa :: "int \<Rightarrow> string" where
  "Itoa i = (if i < 0 then CHR ''-'' # itoa_nat (nat (- i)) else itoa_nat (nat i))"

definition is_digit :: "char \<Rightarrow> bool" where
  "is_digit c \<longleftrightarrow> 48 \<le> (of_char c :: nat) \<and> (of_char c :: nat) \<le> 57"

definition digits_value :: "string \<Rightarrow> nat" where
  "digits_value s = foldl (\<lambda>n c. 10 * n + (of_char c - 48)) 0 s"

lemma of_char_digit: "d < 10 \<Longrightarrow> of_char (digit d) = 48 + d"
  by (simp add: digit_def)

lemma digit_chars:
  "digit 0 = CHR ''0''" "digit (Suc 0) = CHR ''1''" "digit 2 = CHR ''2''" "digit 3 = CHR ''3''"
  "digit 4 = CHR ''4''" "digit 5 = CHR ''5''" "digit 6 = CHR ''6''" "digit 7 = CHR ''7''"
  "digit 8 = CHR ''8''" "digit 9 = CHR ''9''"
  by code_simp+

lemma is_digit_digit [simp]: "d < 10 \<Longrightarrow> is_digit (digit d)"
  by (simp add: is_digit_def of_char_digit)

lemma itoa_nat_digits: "\<forall>c \<in> set (itoa_nat n). is_digit c"
proof (induction n rule: itoa_nat.induct)
  case (1 n)
  then show ?case by (subst itoa_nat.simps) auto
qed

lemma itoa_nat_not_Nil [simp]: "itoa_nat n \<noteq> []"
  by (subst itoa_nat.simps) simp

lemma digits_value_itoa_nat: "digits_value (itoa_nat n) = n"
proof (induction n rule: itoa_nat.induct)
  case (1 n)
  show ?case
  proof (cases "n < 10")
    case True
    then show ?thesis by (subst itoa_nat.simps) (simp add: digits_value_def of_char_digit)
  next
    case False
    with 1 show ?thesis
      by (subst itoa_nat.simps) (simp add: digits_value_def of_char_digit)
  qed
qed

lemma itoa_nat_inj: "itoa_nat m = itoa_nat n \<Longrightarrow> m = n"
  by (metis digits_value_itoa_nat)

text \<open>
  \<open>strconv.ParseInt(s, 10, k + 1)\<close>: an optional sign, at least one digit, and a value in the
  range of a signed integer of \<open>k + 1\<close> bits; \<open>strconv.Atoi\<close> reads an \<open>int\<close> of 64 bits.
\<close>

datatype parse_int_error = ErrSyntax string | ErrRange string

definition parse_digits :: "nat \<Rightarrow> string \<Rightarrow> bool \<Rightarrow> string \<Rightarrow> parse_int_error + int" where
  "parse_digits k orig neg ds =
     (if ds = [] \<or> \<not> list_all is_digit ds then Inl (ErrSyntax orig)
      else let n = int (digits_value ds)
           in if \<not> neg \<and> 2 ^ k \<le> n then Inl (ErrRange orig)
              else if neg \<and> 2 ^ k < n then Inl (ErrRange orig)
              else Inr (if neg then - n else n))"

definition ParseInt :: "nat \<Rightarrow> string \<Rightarrow> parse_int_error + int" where
  "ParseInt k s = (case s of
       [] \<Rightarrow> Inl (ErrSyntax s)
     | c # ds \<Rightarrow> if c = CHR ''+'' then parse_digits k s False ds
                 else if c = CHR ''-'' then parse_digits k s True ds
                 else parse_digits k s False s)"

definition ParseInt32 :: "string \<Rightarrow> parse_int_error + int" where
  "ParseInt32 s = ParseInt 31 s"

definition Atoi :: "string \<Rightarrow> parse_int_error + int" where
  "Atoi s = ParseInt 63 s"

lemma parse_digits_range: "parse_digits k orig neg ds = Inr i \<Longrightarrow> - (2 ^ k) \<le> i \<and> i < 2 ^ k"
  by (auto simp: parse_digits_def Let_def split: if_splits)
    (smt (verit) of_nat_0_le_iff zero_less_power)+

lemma ParseInt_range: "ParseInt k s = Inr i \<Longrightarrow> - (2 ^ k) \<le> i \<and> i < 2 ^ k"
  by (auto simp: ParseInt_def dest: parse_digits_range split: list.splits if_splits)

lemma ParseInt_itoa:
  assumes "n < 2 ^ k"
  shows "ParseInt k (itoa_nat n) = Inr (int n)"
proof -
  obtain c ds where cds: "itoa_nat n = c # ds" by (cases "itoa_nat n") auto
  then have "is_digit c" using itoa_nat_digits [of n] by simp
  then have "c \<noteq> CHR ''+''" "c \<noteq> CHR ''-''" by (auto simp: is_digit_def)
  moreover have "\<not> 2 ^ k \<le> int n" using assms by (metis of_nat_less_iff of_nat_numeral of_nat_power not_le)
  ultimately show ?thesis
    using cds itoa_nat_digits [of n] digits_value_itoa_nat [of n]
    by (simp add: ParseInt_def parse_digits_def Let_def list_all_iff)
qed

lemma ParseInt32_itoa: "n < 2 ^ 31 \<Longrightarrow> ParseInt32 (itoa_nat n) = Inr (int n)"
  by (simp add: ParseInt32_def ParseInt_itoa)

subsection \<open>File names\<close>

text \<open>\<open>filepath.Ext\<close>: from the last dot of the last path element.\<close>

fun ext_scan :: "string \<Rightarrow> string \<Rightarrow> string" where
  "ext_scan acc [] = []"
| "ext_scan acc (c # s) = (if c = CHR ''/'' then []
                           else if c = CHR ''.'' then CHR ''.'' # acc
                           else ext_scan (c # acc) s)"

definition Ext :: "string \<Rightarrow> string" where
  "Ext path = ext_scan [] (rev path)"

lemma ext_scan_run:
  "CHR ''/'' \<notin> set r \<Longrightarrow> CHR ''.'' \<notin> set r \<Longrightarrow> ext_scan acc (r @ s) = ext_scan (rev r @ acc) s"
  by (induction r arbitrary: acc) auto

lemma Ext_suffix:
  assumes "CHR ''/'' \<notin> set e" "CHR ''.'' \<notin> set e"
  shows "Ext (p @ CHR ''.'' # e) = CHR ''.'' # e"
  using assms ext_scan_run [of "rev e" "[]" "CHR ''.'' # rev p"] by (simp add: Ext_def)

text \<open>\<open>strings.ToUpper\<close> on ASCII letters.\<close>

definition upper_char :: "char \<Rightarrow> char" where
  "upper_char c = (let n = (of_char c :: nat)
                   in if 97 \<le> n \<and> n \<le> 122 then char_of (n - 32) else c)"

definition ToUpper :: "string \<Rightarrow> string" where
  "ToUpper s = map upper_char s"

subsection \<open>Quoting and printing\<close>

text \<open>
  \<open>strconv.Quote\<close>, the verb \<open>%q\<close>, on printable text: the control bytes of ASCII, the
  quote and the backslash are escaped.  The verb \<open>%v\<close> prints a slice of strings between
  brackets.
\<close>

definition hex_digit :: "nat \<Rightarrow> char" where
  "hex_digit n = (if n < 10 then char_of (48 + n) else char_of (87 + n))"

definition quote_char :: "char \<Rightarrow> string" where
  "quote_char c =
     (if c = CHR 0x22 \<or> c = CHR 0x5C then [CHR 0x5C, c]
      else if c = CHR 0x07 then [CHR 0x5C, CHR ''a'']
      else if c = CHR 0x08 then [CHR 0x5C, CHR ''b'']
      else if c = CHR 0x0C then [CHR 0x5C, CHR ''f'']
      else if c = CHR 0x0A then [CHR 0x5C, CHR ''n'']
      else if c = CHR 0x0D then [CHR 0x5C, CHR ''r'']
      else if c = CHR 0x09 then [CHR 0x5C, CHR ''t'']
      else if c = CHR 0x0B then [CHR 0x5C, CHR ''v'']
      else let n = (of_char c :: nat)
           in if n < 32 \<or> n = 127
              then [CHR 0x5C, CHR ''x'', hex_digit (n div 16), hex_digit (n mod 16)]
              else [c])"

definition Quote :: "string \<Rightarrow> string" where
  "Quote s = CHR 0x22 # concat (map quote_char s) @ [CHR 0x22]"

definition print_slice :: "string list \<Rightarrow> string" where
  "print_slice xs = ''['' @ Join xs '' '' @ '']''"

subsection \<open>Lines\<close>

definition CHR_nl :: char where "CHR_nl = CHR 0x0A"

definition lines_of :: "string \<Rightarrow> string list" where
  "lines_of s = Split s [CHR_nl]"

lemma lines_of_Join:
  assumes "xs \<noteq> []" "\<And>x. x \<in> set xs \<Longrightarrow> CHR_nl \<notin> set x"
  shows "lines_of (Join xs [CHR_nl]) = xs"
  using assms by (simp add: lines_of_def Split_Join_char)

end
