(* ===== verification/Osys.thy ===== *)
theory Osys
  imports GoStrings
begin

text \<open>
  The operating system as the program meets it through Go's \<open>os\<close>, \<open>io/ioutil\<close> and
  \<open>os/exec\<close> packages.  What the calls do to the world is outside the program, so they are a
  record of functions over an unspecified world \<open>'w\<close>, threaded through every call that can
  change it.  Each call returns the Go error as an option or a sum.
\<close>

text \<open>How a file read ends: \<open>os.IsNotExist\<close> tells the first case from other errors.\<close>

datatype read_result = NotExist string | ReadError string | FileContent string

fun read_all :: "read_result \<Rightarrow> string + string" where
  "read_all (NotExist e) = Inl e"
| "read_all (ReadError e) = Inl e"
| "read_all (FileContent c) = Inr c"

text \<open>
  The error of a command: the process ran and exited with a failure (\<open>*exec.ExitError\<close>,
  carrying its text), it could not be started (\<open>*exec.Error\<close>), or something else failed.
\<close>

datatype exec_error = ExitError string | ExecError string | OtherError string

fun exec_error_text :: "exec_error \<Rightarrow> string" where
  "exec_error_text (ExitError e) = e"
| "exec_error_text (ExecError e) = e"
| "exec_error_text (OtherError e) = e"

record exec_result =
  xr_stdout :: string
  xr_stderr :: string
  xr_err :: "exec_error option"

record 'w os =
  Getwd :: "'w \<Rightarrow> string + string"
  Chdir :: "string \<Rightarrow> 'w \<Rightarrow> string option \<times> 'w"
  TempDir :: "string \<Rightarrow> string \<Rightarrow> 'w \<Rightarrow> (string + string) \<times> 'w"
  Exec :: "string list \<Rightarrow> 'w \<Rightarrow> exec_result \<times> 'w"
  CombinedOutput :: "string list \<Rightarrow> 'w \<Rightarrow> (string \<times> exec_error option) \<times> 'w"
  RemoveFile :: "string \<Rightarrow> 'w \<Rightarrow> string option \<times> 'w"
  ReadDir :: "string \<Rightarrow> 'w \<Rightarrow> string + string list"
  ReadFile :: "string \<Rightarrow> 'w \<Rightarrow> read_result"

text \<open>
  What the code relies on when it returns to the directory it came from: a directory reported
  by \<open>Getwd\<close> can be entered again from anywhere, and is then the working directory; a
  \<open>Chdir\<close> that fails leaves the working directory as it was.
\<close>

definition returns_home :: "'w os \<Rightarrow> bool" where
  "returns_home os \<longleftrightarrow>
     (\<forall>w d w'. Getwd os w = Inr d \<longrightarrow>
        fst (Chdir os d w') = None \<and> Getwd os (snd (Chdir os d w')) = Inr d)
     \<and> (\<forall>w d. fst (Chdir os d w) \<noteq> None \<longrightarrow> Getwd os (snd (Chdir os d w)) = Getwd os w)"

text \<open>A concrete system for the witnesses: the world is the working directory, every directory
  exists, no command or file does.\<close>

definition plain_os :: "string os" where
  "plain_os = \<lparr>Getwd = (\<lambda>w. Inr w), Chdir = (\<lambda>d w. (None, d)),
               TempDir = (\<lambda>d p w. (Inr (d @ ''/'' @ p), w)),
               Exec = (\<lambda>argv w. (\<lparr>xr_stdout = [], xr_stderr = [], xr_err = Some (ExecError ''not found'')\<rparr>, w)),
               CombinedOutput = (\<lambda>argv w. (([], Some (ExecError ''not found'')), w)),
               RemoveFile = (\<lambda>f w. (None, w)), ReadDir = (\<lambda>d w. Inr []),
               ReadFile = (\<lambda>f w. NotExist f)\<rparr>"

lemma returns_home_plain_os: "returns_home plain_os"
  by (simp add: returns_home_def plain_os_def)

end
