(* ===== verification/Paths.thy ===== *)
theory Paths
  imports GoStrings
begin

text \<open>
  The part of \<open>path/filepath\<close> the program uses, for the separator \<open>/\<close>.  \<open>Clean\<close> is
  written over the list of path elements: Go's byte loop drops empty and \<open>.\<close> elements, lets
  \<open>..\<close> cancel the element before it, drops \<open>..\<close> at the root and keeps leading ones of a
  relative path.
\<close>

fun clean_elems :: "bool \<Rightarrow> string list \<Rightarrow> string list \<Rightarrow> string list" where
  "clean_elems rooted acc [] = rev acc"
| "clean_elems rooted acc (e # es) =
     (if e = [] \<or> e = ''.'' then clean_elems rooted acc es
      else if e = ''..'' then
        (case acc of
           x # xs \<Rightarrow> if x \<noteq> ''..'' then clean_elems rooted xs es
                     else clean_elems rooted (e # acc) es
         | [] \<Rightarrow> if rooted then clean_elems rooted acc es else clean_elems rooted (e # acc) es)
      else clean_elems rooted (e # acc) es)"

definition IsAbs :: "string \<Rightarrow> bool" where
  "IsAbs path \<longleftrightarrow> HasPrefix path ''/''"

definition render :: "bool \<Rightarrow> string list \<Rightarrow> string" where
  "render rooted es = (if rooted then CHR ''/'' # Join es ''/''
                       else if es = [] then ''.'' else Join es ''/'')"

definition Clean :: "string \<Rightarrow> string" where
  "Clean path = (if path = [] then ''.''
                 else render (IsAbs path) (clean_elems (IsAbs path) [] (Split path ''/'')))"

fun path_Join :: "string list \<Rightarrow> string" where
  "path_Join [] = []"
| "path_Join (e # es) = (if e \<noteq> [] then Clean (Join (e # es) ''/'') else path_Join es)"

text \<open>\<open>Dir\<close> cleans everything up to and with the last slash; \<open>Base\<close> is what follows it.\<close>

definition Dir :: "string \<Rightarrow> string" where
  "Dir path = Clean (rev (dropWhile (\<lambda>c. c \<noteq> CHR ''/'') (rev path)))"

definition Base :: "string \<Rightarrow> string" where
  "Base path =
     (if path = [] then ''.''
      else let p = rev (dropWhile (\<lambda>c. c = CHR ''/'') (rev path));
               b = rev (takeWhile (\<lambda>c. c \<noteq> CHR ''/'') (rev p))
           in if b = [] then ''/'' else b)"

definition Abs :: "string \<Rightarrow> string \<Rightarrow> string" where
  "Abs wd path = (if IsAbs path then Clean path else path_Join [wd, path])"

subsection \<open>Clean paths\<close>

text \<open>A list of elements in normal form: no empty or dot element, \<open>..\<close> only in front.\<close>

definition plain :: "string \<Rightarrow> bool" where
  "plain e \<longleftrightarrow> e \<noteq> [] \<and> e \<noteq> ''.'' \<and> CHR ''/'' \<notin> set e"

fun normal :: "bool \<Rightarrow> string list \<Rightarrow> bool" where
  "normal rooted [] = True"
| "normal rooted (e # es) =
     (plain e \<and> (if e = ''..'' then \<not> rooted \<and> normal rooted es
                  else list_all (\<lambda>x. plain x \<and> x \<noteq> ''..'') es))"

lemma normal_plain: "normal rooted es \<Longrightarrow> e \<in> set es \<Longrightarrow> plain e"
  by (induction es) (auto simp: list_all_iff split: if_splits)

lemma normal_no_dots: "list_all (\<lambda>x. plain x \<and> x \<noteq> ''..'') es \<Longrightarrow> normal rooted es"
  by (cases es) auto

lemma normal_rooted_no_dots: "normal True es \<Longrightarrow> ''..'' \<notin> set es"
  by (induction es) (auto simp: list_all_iff split: if_splits)

lemma normal_butlast: "normal rooted (es @ [e]) \<Longrightarrow> normal rooted es"
  by (induction es) (auto split: if_splits)

lemma normal_snoc_plain:
  "normal rooted es \<Longrightarrow> plain e \<Longrightarrow> e \<noteq> ''..'' \<Longrightarrow> normal rooted (es @ [e])"
  by (induction es) (auto split: if_splits)

lemma normal_snoc_dots:
  "normal False es \<Longrightarrow> es = [] \<or> last es = ''..'' \<Longrightarrow> normal False (es @ [''..''])"
proof (induction es)
  case Nil
  then show ?case by (simp add: plain_def)
next
  case (Cons e es)
  then show ?case
    by (cases "es = []") (auto simp: list_all_iff plain_def split: if_splits)
qed

lemma normal_clean_elems:
  assumes "normal rooted (rev acc)" "\<And>e. e \<in> set es \<Longrightarrow> CHR ''/'' \<notin> set e"
  shows "normal rooted (clean_elems rooted acc es)"
  using assms
proof (induction rooted acc es rule: clean_elems.induct)
  case (2 rooted acc e es)
  note IH = 2(1-6) and norm = 2(7) and nosl = 2(8)
  consider "e = [] \<or> e = ''.''" | "e = ''..''" | "e \<noteq> []" "e \<noteq> ''.''" "e \<noteq> ''..''" by blast
  then show ?case
  proof cases
    case 1
    with IH(1) norm nosl show ?thesis by auto
  next
    case 2
    show ?thesis
    proof (cases acc)
      case Nil
      with 2 IH norm nosl show ?thesis
        by (cases rooted) (auto simp: plain_def)
    next
      case (Cons x xs)
      show ?thesis
      proof (cases "x = ''..''")
        case True
        have nr: "\<not> rooted"
          using normal_rooted_no_dots [of "rev xs @ [''..'']"] norm Cons True by auto
        with norm Cons True have "normal False (rev (''..'' # acc))"
          using normal_snoc_dots [of "rev acc"] by simp
        moreover have "CHR ''/'' \<notin> set f" if "f \<in> set es" for f using nosl that by simp
        ultimately have "normal False (clean_elems False (''..'' # acc) es)"
          using IH 2 Cons True nr by simp
        with nr 2 Cons True show ?thesis by simp
      next
        case False
        with norm Cons have "normal rooted (rev xs)" using normal_butlast by simp
        with 2 Cons False IH nosl show ?thesis by auto
      qed
    qed
  next
    case 3
    with norm nosl have "normal rooted (rev (e # acc))"
      by (simp add: normal_snoc_plain plain_def)
    with 3 IH(6) nosl show ?thesis by auto
  qed
qed simp

lemma clean_elems_dots_prefix:
  assumes "normal rooted es" "rooted \<longrightarrow> acc = []" "acc = [] \<or> hd acc = ''..''"
  shows "clean_elems rooted acc es = rev acc @ es"
  using assms
proof (induction es arbitrary: acc)
  case (Cons e es)
  have rest: "clean_elems rooted a fs = rev a @ fs"
    if "list_all (\<lambda>x. plain x \<and> x \<noteq> ''..'') fs" for a fs
    using that by (induction fs arbitrary: a) (auto simp: plain_def)
  show ?case
  proof (cases "e = ''..''")
    case True
    with Cons show ?thesis by (cases acc) auto
  next
    case False
    with Cons.prems(1) have "list_all (\<lambda>x. plain x \<and> x \<noteq> ''..'') (e # es)" by simp
    then show ?thesis by (rule rest)
  qed
qed simp

lemma clean_elems_normal: "normal rooted es \<Longrightarrow> clean_elems rooted [] es = es"
  by (simp add: clean_elems_dots_prefix)

text \<open>The elements of a path, and the rendering of normal elements.\<close>

definition elems :: "string \<Rightarrow> string list" where
  "elems path = (if path = [] then [] else clean_elems (IsAbs path) [] (Split path ''/''))"

lemma normal_elems: "normal (IsAbs path) (elems path)"
  by (auto simp: elems_def intro!: normal_clean_elems dest: Split_char_free)

lemma Clean_render: "Clean path = render (IsAbs path) (elems path)"
proof (cases "path = []")
  case True
  then show ?thesis by (simp add: Clean_def elems_def render_def IsAbs_def HasPrefix_Cons)
qed (simp add: Clean_def elems_def)

lemma IsAbs_render: "normal rooted es \<Longrightarrow> IsAbs (render rooted es) = rooted"
proof -
  assume norm: "normal rooted es"
  have "\<not> HasPrefix (Join (e # es') ''/'') ''/''" if "plain e" for e es'
    using that by (cases e; cases es') (auto simp: plain_def HasPrefix_Cons)
  with norm show ?thesis
    by (cases es) (auto simp: IsAbs_def render_def HasPrefix_Cons split: if_splits)
qed

lemma Split_slash: "Split (CHR ''/'' # s) ''/'' = [] # Split s ''/''"
  using Split_char_Cons [of "CHR ''/''" "[]" s] by simp

lemma elems_render:
  assumes "normal rooted es"
  shows "elems (render rooted es) = es"
proof -
  have split: "Split (Join es ''/'') ''/'' = es" if "es \<noteq> []"
    using assms that by (intro Split_Join_char) (auto dest: normal_plain simp: plain_def)
  have ne: "render rooted es \<noteq> []"
  proof (cases es)
    case (Cons e es')
    with assms have "e \<noteq> []" by (simp add: plain_def)
    with Cons show ?thesis by (cases es') (auto simp: render_def)
  qed (simp add: render_def)
  have "clean_elems rooted [] (Split (render rooted es) ''/'') = es"
  proof (cases "es = []")
    case True
    then show ?thesis by (simp add: render_def Split_slash Split_char_no)
  next
    case False
    then show ?thesis
      using clean_elems_normal [OF assms] split by (cases rooted) (simp_all add: render_def Split_slash)
  qed
  with ne show ?thesis by (simp add: elems_def IsAbs_render [OF assms])
qed

theorem Clean_idem: "Clean (Clean path) = Clean path"
  by (simp add: Clean_render IsAbs_render elems_render normal_elems)

subsection \<open>Joining clean paths\<close>

lemma clean_elems_filter: "clean_elems rooted acc (filter (\<lambda>e. e \<noteq> []) es) = clean_elems rooted acc es"
  by (induction rooted acc es rule: clean_elems.induct) (auto split: list.splits)

lemma Clean_Join_rooted:
  assumes "xs \<noteq> []" "\<And>x. x \<in> set xs \<Longrightarrow> CHR ''/'' \<notin> set x" "normal True (filter (\<lambda>e. e \<noteq> []) xs)"
  shows "Clean (Join ([] # xs) ''/'') = render True (filter (\<lambda>e. e \<noteq> []) xs)"
proof -
  have "Split (Join ([] # xs) ''/'') ''/'' = [] # xs"
    using assms(2) by (intro Split_Join_char) auto
  moreover have "Join ([] # xs) ''/'' = CHR ''/'' # Join xs ''/''" using assms(1) by (simp add: Join_Cons)
  moreover have "clean_elems True [] ([] # xs) = filter (\<lambda>e. e \<noteq> []) xs"
    using clean_elems_filter [of True "[]" "[] # xs"] clean_elems_normal [OF assms(3)] by simp
  ultimately show ?thesis by (simp add: Clean_def IsAbs_def HasPrefix_Cons)
qed

lemma Join_append:
  "xs \<noteq> [] \<Longrightarrow> ys \<noteq> [] \<Longrightarrow> Join (xs @ ys) sep = Join xs sep @ sep @ Join ys sep"
proof (induction xs)
  case (Cons x xs)
  then show ?case by (cases "xs = []") (simp_all add: Join_Cons)
qed simp

subsection \<open>Going up\<close>

text \<open>\<open>Dir\<close> of a clean path drops its last element.\<close>

lemma Dir_split:
  assumes "CHR ''/'' \<notin> set e" "pre = [] \<or> last pre = CHR ''/''"
  shows "Dir (pre @ e) = Clean pre"
proof -
  have "dropWhile (\<lambda>c. c \<noteq> CHR ''/'') (rev e @ rev pre) = rev pre"
  proof -
    have "dropWhile (\<lambda>c. c \<noteq> CHR ''/'') (rev e @ rev pre) = dropWhile (\<lambda>c. c \<noteq> CHR ''/'') (rev pre)"
      using assms(1) by (intro dropWhile_append2) auto
    then show ?thesis using assms(2) by (cases pre rule: rev_cases) auto
  qed
  then show ?thesis by (simp add: Dir_def)
qed

lemma Dir_render:
  assumes "normal rooted (es @ [e])"
  shows "Dir (render rooted (es @ [e])) = render rooted es"
proof -
  have n: "normal rooted es" "CHR ''/'' \<notin> set e" "\<And>x. x \<in> set es \<Longrightarrow> CHR ''/'' \<notin> set x"
    using normal_butlast [OF assms] normal_plain [OF assms] by (auto simp: plain_def)
  define pre where "pre = (if rooted then ''/'' else []) @ (if es = [] then [] else Join es ''/'' @ ''/'')"
  have "render rooted (es @ [e]) = pre @ e"
    by (cases "es = []") (simp_all add: pre_def render_def Join_append)
  moreover have "pre = [] \<or> last pre = CHR ''/''" by (simp add: pre_def)
  moreover have "Clean pre = render rooted es"
  proof (cases "es = []")
    case True
    then show ?thesis by (auto simp: pre_def Clean_def render_def IsAbs_def HasPrefix_Cons Split_slash Split_char_no)
  next
    case es: False
    show ?thesis
    proof (cases rooted)
      case True
      have "pre = Join ([] # es @ [[]]) ''/''" using es True by (simp add: pre_def Join_Cons Join_append)
      moreover have "filter (\<lambda>e. e \<noteq> []) (es @ [[]]) = es"
        using normal_plain [OF n(1)] by (auto simp: plain_def filter_id_conv)
      moreover have "CHR ''/'' \<notin> set x" if "x \<in> set (es @ [[]])" for x using that n(3) by auto
      ultimately show ?thesis
        using Clean_Join_rooted [of "es @ [[]]"] n(1) True by (metis snoc_eq_iff_butlast)
    next
      case False
      have p: "pre = Join (es @ [[]]) ''/''" using es False by (simp add: pre_def Join_append)
      have "Split pre ''/'' = es @ [[]]" unfolding p using n(3) by (intro Split_Join_char) auto
      moreover have "\<not> IsAbs pre"
      proof -
        have "hd es \<noteq> []" using es normal_plain [OF n(1)] by (simp add: plain_def)
        then have "Join es ''/'' \<noteq> []" using es by (cases es; cases "tl es") auto
        moreover have "\<not> IsAbs (Join es ''/'')" using IsAbs_render [OF n(1)] False es by (simp add: render_def)
        ultimately show ?thesis using es False by (cases "Join es ''/''") (auto simp: IsAbs_def pre_def HasPrefix_Cons)
      qed
      moreover have "clean_elems False [] (es @ [[]]) = es"
        using clean_elems_filter [of False "[]" "es @ [[]]"] clean_elems_normal n(1) False normal_plain [OF n(1)]
        by (auto simp: plain_def filter_id_conv)
      ultimately show ?thesis using es False by (simp add: Clean_def render_def pre_def)
    qed
  qed
  ultimately show ?thesis using Dir_split [OF n(2)] by simp
qed

end
