(* ===== verification/StrSet.thy ===== *)
theory StrSet
  imports GoStrings "HOL-Library.AList" "HOL-Library.Multiset" "HOL-Library.List_Lexorder"
    "HOL-Library.Char_ord"
begin

text \<open>
  \<open>shipshape/util/strings/strings.go\<close>: sets of strings as Go maps to \<open>bool\<close>.

  A Go map is an association list with distinct keys.  The stored order carries no meaning:
  a \<open>range\<close> whose result depends on the order takes the order as the argument \<open>ord\<close>.
  \<open>Set\<close> is the Go type \<open>map[string]bool\<close>; membership reads the stored value, as
  \<open>s[val]\<close> does, while \<open>len\<close> and \<open>range\<close> see every key.  A set is well-formed
  when its keys are distinct and every stored value is \<open>true\<close>, which all operations keep.
\<close>

type_synonym 'v go_map = "(string \<times> 'v) list"

abbreviation keys :: "'v go_map \<Rightarrow> string list" where
  "keys m \<equiv> map fst m"

type_synonym Set = "bool go_map"

definition wf_set :: "Set \<Rightarrow> bool" where
  "wf_set s \<longleftrightarrow> distinct (keys s) \<and> (\<forall>(k, v) \<in> set s. v)"

subsection \<open>The operations\<close>

definition Equal :: "string list \<Rightarrow> string list \<Rightarrow> bool" where
  "Equal expect actual =
     (if length expect = 0 \<and> length actual = 0 then True
      else if length expect = 0 \<or> length actual = 0 then False
      else let e = sort expect; a = sort actual in e = a)"

fun Contains :: "string list \<Rightarrow> string \<Rightarrow> bool" where
  "Contains [] item = False"
| "Contains (v # list) item = (if item = v then True else Contains list item)"

definition New :: "string list \<Rightarrow> Set" where
  "New ss = fold (\<lambda>s st. AList.update s True st) ss []"

definition Set_Contains :: "Set \<Rightarrow> string \<Rightarrow> bool" where
  "Set_Contains s val = (case map_of s val of None \<Rightarrow> False | Some b \<Rightarrow> b)"

definition Intersect :: "Set \<Rightarrow> Set \<Rightarrow> Set" where
  "Intersect s s2 =
     fold (\<lambda>str newS. if Set_Contains s2 str then AList.update str True newS else newS) (keys s) []"

definition AddSet :: "Set \<Rightarrow> Set \<Rightarrow> Set" where
  "AddSet s addSet = fold (\<lambda>val st. AList.update val True st) (keys addSet) s"

definition AddSlice :: "Set \<Rightarrow> string list \<Rightarrow> Set" where
  "AddSlice s slice = fold (\<lambda>val st. AList.update val True st) slice s"

definition Add :: "Set \<Rightarrow> string \<Rightarrow> Set" where
  "Add s str = AList.update str True s"

definition RemoveSlice :: "Set \<Rightarrow> string list \<Rightarrow> Set" where
  "RemoveSlice s slice = fold (\<lambda>val st. AList.delete val st) slice s"

definition RemoveSet :: "Set \<Rightarrow> Set \<Rightarrow> Set" where
  "RemoveSet s removeSet = fold (\<lambda>val st. AList.delete val st) (keys removeSet) s"

definition Remove :: "Set \<Rightarrow> string \<Rightarrow> Set" where
  "Remove s str = AList.delete str s"

definition IsEmpty :: "Set \<Rightarrow> bool" where
  "IsEmpty s \<longleftrightarrow> length s = 0"

definition ToSlice :: "(string list \<Rightarrow> string list) \<Rightarrow> Set \<Rightarrow> string list" where
  "ToSlice ord s = ord (keys s)"

definition Set_String :: "(string list \<Rightarrow> string list) \<Rightarrow> Set \<Rightarrow> string" where
  "Set_String ord s = Join (ToSlice ord s) '',''"

subsection \<open>Well-formedness and membership\<close>

lemma wf_set_Nil [simp]: "wf_set []"
  by (simp add: wf_set_def)

lemma wf_set_iff: "wf_set s \<longleftrightarrow> distinct (keys s) \<and> (\<forall>k. map_of s k \<noteq> Some False)"
proof -
  have "v" if "\<forall>k. (k, False) \<notin> set s" "(k, v) \<in> set s" for k v
    using that by (cases v) simp_all
  then have "(\<forall>(k, v) \<in> set s. v) \<longleftrightarrow> (\<forall>k. (k, False) \<notin> set s)" by blast
  then show ?thesis unfolding wf_set_def by (cases "distinct (keys s)") simp_all
qed

lemma wf_set_update: "wf_set s \<Longrightarrow> wf_set (AList.update k True s)"
  by (simp add: wf_set_iff distinct_update update_conv' del: map_of_eq_Some_iff Some_eq_map_of_iff)

lemma wf_set_delete: "wf_set s \<Longrightarrow> wf_set (AList.delete k s)"
  by (simp add: wf_set_iff distinct_delete delete_conv' del: map_of_eq_Some_iff Some_eq_map_of_iff)

lemma wf_set_fold_update: "wf_set s \<Longrightarrow> wf_set (fold (\<lambda>v st. AList.update v True st) xs s)"
  by (induction xs arbitrary: s) (auto simp: wf_set_update)

lemma wf_set_fold_delete: "wf_set s \<Longrightarrow> wf_set (fold (\<lambda>v st. AList.delete v st) xs s)"
  by (induction xs arbitrary: s) (auto simp: wf_set_delete)

lemma wf_set_ops [simp, intro]:
  "wf_set (New xs)"
  "wf_set s \<Longrightarrow> wf_set (AddSet s t)"
  "wf_set s \<Longrightarrow> wf_set (AddSlice s xs)"
  "wf_set s \<Longrightarrow> wf_set (Add s x)"
  "wf_set s \<Longrightarrow> wf_set (RemoveSlice s xs)"
  "wf_set s \<Longrightarrow> wf_set (RemoveSet s t)"
  "wf_set s \<Longrightarrow> wf_set (Remove s x)"
  by (simp_all add: New_def AddSet_def AddSlice_def Add_def RemoveSlice_def RemoveSet_def
      Remove_def wf_set_fold_update wf_set_fold_delete wf_set_update wf_set_delete)

lemma Set_Contains_update: "Set_Contains (AList.update k True s) x \<longleftrightarrow> x = k \<or> Set_Contains s x"
  by (simp add: Set_Contains_def update_conv')

lemma Set_Contains_delete: "Set_Contains (AList.delete k s) x \<longleftrightarrow> x \<noteq> k \<and> Set_Contains s x"
  by (simp add: Set_Contains_def delete_conv')

lemma Set_Contains_fold_update:
  "Set_Contains (fold (\<lambda>v st. AList.update v True st) xs s) x \<longleftrightarrow> x \<in> set xs \<or> Set_Contains s x"
  by (induction xs arbitrary: s) (auto simp: Set_Contains_update)

lemma Set_Contains_fold_delete:
  "Set_Contains (fold (\<lambda>v st. AList.delete v st) xs s) x \<longleftrightarrow> x \<notin> set xs \<and> Set_Contains s x"
  by (induction xs arbitrary: s) (auto simp: Set_Contains_delete)

lemma Set_Contains_keys: "wf_set s \<Longrightarrow> Set_Contains s x \<longleftrightarrow> x \<in> set (keys s)"
proof -
  assume wf: "wf_set s"
  show ?thesis
  proof (cases "map_of s x")
    case None
    then have "x \<notin> set (keys s)" by (simp add: map_of_eq_None_iff)
    with None show ?thesis by (simp add: Set_Contains_def)
  next
    case (Some b)
    moreover from wf have "map_of s x \<noteq> Some False" unfolding wf_set_iff by blast
    ultimately have "b" by (cases b) simp_all
    moreover from Some have "x \<in> set (keys s)" by (force dest: map_of_SomeD)
    ultimately show ?thesis using Some by (simp add: Set_Contains_def)
  qed
qed

lemma Set_Contains_Nil [strset_simps, simp]: "\<not> Set_Contains [] x"
  by (simp add: Set_Contains_def)

lemma Set_Contains_New [strset_simps]: "Set_Contains (New xs) x \<longleftrightarrow> x \<in> set xs"
  by (simp add: New_def Set_Contains_fold_update)

lemma Set_Contains_AddSlice [strset_simps]:
  "Set_Contains (AddSlice s xs) x \<longleftrightarrow> x \<in> set xs \<or> Set_Contains s x"
  by (simp add: AddSlice_def Set_Contains_fold_update)

lemma Set_Contains_Add [strset_simps]: "Set_Contains (Add s y) x \<longleftrightarrow> x = y \<or> Set_Contains s x"
  by (simp add: Add_def Set_Contains_update)

lemma Set_Contains_RemoveSlice [strset_simps]:
  "Set_Contains (RemoveSlice s xs) x \<longleftrightarrow> x \<notin> set xs \<and> Set_Contains s x"
  by (simp add: RemoveSlice_def Set_Contains_fold_delete)

lemma Set_Contains_Remove [strset_simps]:
  "Set_Contains (Remove s y) x \<longleftrightarrow> x \<noteq> y \<and> Set_Contains s x"
  by (simp add: Remove_def Set_Contains_delete)

lemma Set_Contains_AddSet [strset_simps]:
  "wf_set t \<Longrightarrow> Set_Contains (AddSet s t) x \<longleftrightarrow> Set_Contains s x \<or> Set_Contains t x"
  by (auto simp: AddSet_def Set_Contains_fold_update Set_Contains_keys)

lemma Set_Contains_RemoveSet [strset_simps]:
  "wf_set t \<Longrightarrow> Set_Contains (RemoveSet s t) x \<longleftrightarrow> Set_Contains s x \<and> \<not> Set_Contains t x"
  by (auto simp: RemoveSet_def Set_Contains_fold_delete Set_Contains_keys)

lemma Intersect_fold:
  "fold (\<lambda>str newS. if p str then AList.update str True newS else newS) xs st
     = fold (\<lambda>v st. AList.update v True st) (filter p xs) st"
  by (induction xs arbitrary: st) auto

lemma wf_set_Intersect [simp, intro]: "wf_set (Intersect s t)"
  by (simp add: Intersect_def Intersect_fold wf_set_fold_update)

lemma Set_Contains_Intersect [strset_simps]:
  "wf_set s \<Longrightarrow> Set_Contains (Intersect s t) x \<longleftrightarrow> Set_Contains s x \<and> Set_Contains t x"
  by (auto simp: Intersect_def Intersect_fold Set_Contains_fold_update Set_Contains_keys)

lemma IsEmpty_iff: "wf_set s \<Longrightarrow> IsEmpty s \<longleftrightarrow> (\<forall>x. \<not> Set_Contains s x)"
  by (cases s) (auto simp: IsEmpty_def Set_Contains_keys)

lemma set_ToSlice:
  assumes "range_order ord" "wf_set s"
  shows "set (ToSlice ord s) = {x. Set_Contains s x}" and "distinct (ToSlice ord s)"
proof -
  from assms have "distinct (keys s)" by (simp add: wf_set_def)
  with assms show "set (ToSlice ord s) = {x. Set_Contains s x}" "distinct (ToSlice ord s)"
    by (auto simp: ToSlice_def Set_Contains_keys)
qed

lemma Contains_iff [simp]: "Contains list item \<longleftrightarrow> item \<in> set list"
  by (induction list) auto

lemma length_go_set: "wf_set s \<Longrightarrow> length s = card {x. Set_Contains s x}"
proof -
  assume wf: "wf_set s"
  then have "{x. Set_Contains s x} = set (keys s)" by (simp add: Set_Contains_keys)
  moreover from wf have "card (set (keys s)) = length (keys s)"
    unfolding wf_set_def by (simp only: distinct_card)
  ultimately show ?thesis by simp
qed

subsection \<open>The interface its clients rely on\<close>

text \<open>
  The driver and the dispatcher use a set through \<open>New\<close>, \<open>Contains\<close>, \<open>len\<close>, union,
  intersection, difference and \<open>ToSlice\<close>.  The locale states what they rely on and derives
  the two facts the driver needs: how it separates the requested categories that no analyzer
  offers from those it can run.
\<close>

locale string_set =
  fixes make :: "string list \<Rightarrow> 's"
    and mem :: "'s \<Rightarrow> string \<Rightarrow> bool"
    and union_into :: "'s \<Rightarrow> 's \<Rightarrow> 's"
    and remove_all :: "'s \<Rightarrow> 's \<Rightarrow> 's"
    and meet :: "'s \<Rightarrow> 's \<Rightarrow> 's"
    and size_of :: "'s \<Rightarrow> nat"
    and slice :: "(string list \<Rightarrow> string list) \<Rightarrow> 's \<Rightarrow> string list"
    and inv :: "'s \<Rightarrow> bool"
  assumes inv_make: "inv (make xs)"
    and inv_union: "inv s \<Longrightarrow> inv (union_into s t)"
    and inv_remove: "inv s \<Longrightarrow> inv (remove_all s t)"
    and inv_meet: "inv (meet s t)"
    and mem_make: "mem (make xs) x \<longleftrightarrow> x \<in> set xs"
    and mem_union: "inv t \<Longrightarrow> mem (union_into s t) x \<longleftrightarrow> mem s x \<or> mem t x"
    and mem_remove: "inv t \<Longrightarrow> mem (remove_all s t) x \<longleftrightarrow> mem s x \<and> \<not> mem t x"
    and mem_meet: "inv s \<Longrightarrow> mem (meet s t) x \<longleftrightarrow> mem s x \<and> mem t x"
    and size_of_empty: "inv s \<Longrightarrow> size_of s = 0 \<longleftrightarrow> (\<forall>x. \<not> mem s x)"
    and set_slice: "range_order ord \<Longrightarrow> inv s \<Longrightarrow> set (slice ord s) = {x. mem s x}"
    and distinct_slice: "range_order ord \<Longrightarrow> inv s \<Longrightarrow> distinct (slice ord s)"
begin

lemma mem_missing:
  assumes "inv d" "inv a"
  shows "mem (remove_all (union_into (make []) d) a) x \<longleftrightarrow> mem d x \<and> \<not> mem a x"
  using assms by (simp add: mem_remove mem_union inv_make mem_make)

lemma inv_missing: "inv (remove_all (union_into (make []) d) a)"
  by (simp add: inv_make inv_remove inv_union)

lemma mem_runnable:
  assumes "inv d" "inv a"
  shows "mem (remove_all d (remove_all (union_into (make []) d) a)) x \<longleftrightarrow> mem d x \<and> mem a x"
  using assms mem_missing [of d a x] by (simp add: mem_remove [OF inv_missing]) blast

lemma set_slice_missing:
  assumes "range_order ord" "inv d" "inv a"
  shows "set (slice ord (remove_all (union_into (make []) d) a)) = {x. mem d x \<and> \<not> mem a x}"
  using assms by (simp add: set_slice inv_missing mem_missing)

lemma nothing_runnable:
  assumes "inv d" "inv a"
  shows "size_of (remove_all d (remove_all (union_into (make []) d) a)) = 0
         \<longleftrightarrow> (\<forall>x. mem d x \<longrightarrow> \<not> mem a x)"
  using assms by (simp add: size_of_empty inv_remove mem_runnable)

lemma slice_meet:
  assumes "range_order ord" "inv s"
  shows "set (slice ord (meet s t)) = {x. mem s x \<and> mem t x}"
  using assms by (simp add: set_slice inv_meet mem_meet)

end

interpretation strset: string_set New Set_Contains AddSet RemoveSet Intersect length ToSlice wf_set
proof unfold_locales
  fix s :: Set assume "wf_set s"
  then show "length s = 0 \<longleftrightarrow> (\<forall>x. \<not> Set_Contains s x)"
    using IsEmpty_iff [of s] by (simp add: IsEmpty_def)
qed (simp_all add: strset_simps set_ToSlice wf_set_ops)

subsection \<open>Properties\<close>

lemma sort_eq_iff_mset: "sort xs = sort ys \<longleftrightarrow> mset xs = mset (ys :: string list)"
  by (metis mset_sort properties_for_sort sorted_sort)

end
