(* ===== verification/Docker.thy ===== *)
theory Docker
  imports Osys Paths StrSet
begin

text \<open>
  \<open>shipshape/util/docker/docker.go\<close>: the commands the client gives to Docker, and what it reads
  from their output.

  A command runs in the operating system of \<open>Osys\<close>, on the world \<open>'w\<close>.  Where the text of a
  command depends on the order of a Go map, the order is one of \<open>docker_orders\<close>.
\<close>

subsection \<open>Running commands\<close>

record CommandResult =
  cr_Stdout :: string
  cr_Stderr :: string
  cr_Err :: "string option"

definition trimResult :: "string \<Rightarrow> string \<Rightarrow> string option \<Rightarrow> CommandResult" where
  "trimResult stdout stderr err =
     \<lparr>cr_Stdout = TrimSpace stdout, cr_Stderr = TrimSpace stderr, cr_Err = err\<rparr>"

definition run_command :: "'w os \<Rightarrow> string list \<Rightarrow> 'w \<Rightarrow> CommandResult \<times> 'w" where
  "run_command os argv w =
     (case Exec os argv w of (r, w1) \<Rightarrow>
        (\<lparr>cr_Stdout = xr_stdout r, cr_Stderr = xr_stderr r,
          cr_Err = map_option exec_error_text (xr_err r)\<rparr>, w1))"

definition no_name :: CommandResult where
  "no_name = \<lparr>cr_Stdout = [], cr_Stderr = [], cr_Err = Some ''need to provide a name for the container''\<rparr>"

subsection \<open>Looking for a container\<close>

definition row_of :: "string \<Rightarrow> string \<Rightarrow> bool" where
  "row_of container line \<longleftrightarrow> HasSuffix (Trim line '' '') ('' '' @ container)"

definition ContainerExists :: "'w os \<Rightarrow> string \<Rightarrow> 'w \<Rightarrow> (bool \<times> string option) \<times> 'w" where
  "ContainerExists os container w =
     (case Exec os [''docker'', ''ps'', ''-a''] w of (r, w1) \<Rightarrow>
        ((case xr_err r of
            Some err \<Rightarrow> (False, Some (exec_error_text err))
          | None \<Rightarrow> (list_ex (row_of container) (tl (lines_of (xr_stdout r))), None)), w1))"

definition HasDocker :: "'w os \<Rightarrow> 'w \<Rightarrow> bool \<times> 'w" where
  "HasDocker os w = (case Exec os [''which'', ''docker''] w of (r, w1) \<Rightarrow> (xr_err r = None, w1))"

definition FullImageName :: "string \<Rightarrow> string \<Rightarrow> string \<Rightarrow> string" where
  "FullImageName repo img tag =
     (let fullImage = (if repo \<noteq> [] \<and> \<not> HasSuffix repo ''/'' then repo @ ''/'' else repo) @ img
      in if tag \<noteq> [] then fullImage @ '':'' @ tag else fullImage)"

definition Pull :: "'w os \<Rightarrow> string \<Rightarrow> 'w \<Rightarrow> CommandResult \<times> 'w" where
  "Pull os img w = run_command os [''docker'', ''pull'', img] w"

subsection \<open>Starting containers\<close>

record docker_orders =
  do_env :: "string list \<Rightarrow> string list"
  do_volumes :: "string list \<Rightarrow> string list"
  do_ports :: "int list \<Rightarrow> int list"

definition value_at :: "(string \<times> string) list \<Rightarrow> string \<Rightarrow> string" where
  "value_at m k = (case map_of m k of None \<Rightarrow> [] | Some v \<Rightarrow> v)"

definition link_arg :: "string \<Rightarrow> string" where
  "link_arg c = ''--link='' @ c @ '':'' @ c"

definition env_arg :: "string go_map \<Rightarrow> string \<Rightarrow> string" where
  "env_arg environment ev = ''-e='' @ Quote (ev @ ''='' @ value_at environment ev)"

definition volume_arg :: "string go_map \<Rightarrow> string \<Rightarrow> string" where
  "volume_arg volumeMap hostVolume = ''-v='' @ hostVolume @ '':'' @ value_at volumeMap hostVolume"

definition port_arg :: "(int \<times> int) list \<Rightarrow> int \<Rightarrow> string" where
  "port_arg portMap hostPort = ''-p=127.0.0.1:'' @ Itoa hostPort @ '':''
     @ Itoa (case map_of portMap hostPort of None \<Rightarrow> 0 | Some p \<Rightarrow> p)"

definition setupArgs ::
  "docker_orders \<Rightarrow> string \<Rightarrow> (int \<times> int) list \<Rightarrow> string go_map \<Rightarrow> string list \<Rightarrow> string go_map
     \<Rightarrow> string list" where
  "setupArgs ords container portMap volumeMap linkContainers environment =
     map (port_arg portMap) (do_ports ords (map fst portMap))
     @ map link_arg linkContainers
     @ map (volume_arg volumeMap) (do_volumes ords (keys volumeMap))
     @ map (env_arg environment) (do_env ords (keys environment))
     @ [''--name='' @ container]"

text \<open>A map literal with two equal keys keeps the later value.\<close>

definition shipshapeWork :: string where "shipshapeWork = ''/shipshape-workspace''"
definition shipshapeLogs :: string where "shipshapeLogs = ''/shipshape-output''"

definition volumes :: "string \<Rightarrow> string \<Rightarrow> string go_map" where
  "volumes workspacePath logsPath =
     AList.update logsPath shipshapeLogs (AList.update workspacePath shipshapeWork [])"

definition privileged :: "bool \<Rightarrow> string list" where
  "privileged dind = (if dind then [''--privileged''] else [])"

definition RunAnalyzer ::
  "'w os \<Rightarrow> docker_orders \<Rightarrow> string \<Rightarrow> string \<Rightarrow> string \<Rightarrow> string \<Rightarrow> int \<Rightarrow> bool \<Rightarrow> 'w \<Rightarrow> CommandResult \<times> 'w"
where
  "RunAnalyzer os ords img analyzerContainer workspacePath logsPath port dind w =
     (if length analyzerContainer = 0 then (no_name, w)
      else run_command os ([''docker'', ''run''] @ privileged dind
        @ setupArgs ords analyzerContainer [(port, 10005)] (volumes workspacePath logsPath) [] []
        @ [''-d'', img]) w)"

definition link_location :: "string \<Rightarrow> string" where
  "link_location container = ''$'' @ ToUpper container @ ''_PORT_10005_TCP_ADDR:$''
     @ ToUpper container @ ''_PORT_10005_TCP_PORT''"

definition locations :: "string list \<Rightarrow> string list" where
  "locations analyzerContainers = map link_location analyzerContainers
     @ [''localhost:10005'', ''localhost:10006'', ''localhost:10008'']"

definition RunService ::
  "'w os \<Rightarrow> docker_orders \<Rightarrow> string \<Rightarrow> string \<Rightarrow> string \<Rightarrow> string \<Rightarrow> string list \<Rightarrow> bool \<Rightarrow> 'w
     \<Rightarrow> CommandResult \<times> 'w" where
  "RunService os ords img container workspacePath logsPath analyzerContainers dind w =
     (if length container = 0 then (no_name, w)
      else run_command os ([''docker'', ''run''] @ privileged dind
        @ setupArgs ords container [(10007, 10007)] (volumes workspacePath logsPath) analyzerContainers
            [(''START_SERVICE'', ''true''), (''ANALYZERS'', Join (locations analyzerContainers) '','')]
        @ [''-d'', img]) w)"

definition RunKythe ::
  "'w os \<Rightarrow> docker_orders \<Rightarrow> string \<Rightarrow> string \<Rightarrow> string \<Rightarrow> string \<Rightarrow> string \<Rightarrow> bool \<Rightarrow> 'w \<Rightarrow> CommandResult \<times> 'w"
where
  "RunKythe os ords home img container sourcePath extractor dind w =
     (if length container = 0 then (no_name, w)
      else let vs = AList.update sourcePath ''/repo''
                      (AList.update (path_Join [sourcePath, ''compilations'']) ''/compilations'' []);
               vs = (if length home > 0 then AList.update (path_Join [home, ''.m2'']) ''/root/.m2'' vs else vs)
           in run_command os ([''docker'', ''run''] @ privileged dind
                @ setupArgs ords container [] vs [] []
                @ [''-i'', ''-a'', ''stdin'', ''-a'', ''stderr'', ''-a'', ''stdout'', img]
                @ [''--extract'', extractor]) w)"

subsection \<open>Stopping containers\<close>

text \<open>The wait time is in nanoseconds; whole seconds go on the command line.  Both commands write
  to the same two buffers.\<close>

definition Stop :: "'w os \<Rightarrow> string \<Rightarrow> int \<Rightarrow> bool \<Rightarrow> 'w \<Rightarrow> CommandResult \<times> 'w" where
  "Stop os container waitTime remove w =
     (if container = [] then (no_name, w)
      else case run_command os [''docker'', ''stop'', ''-t='' @ Itoa (waitTime div 10 ^ 9), container] w of (r, w1) \<Rightarrow>
        if cr_Err r = None \<and> remove then
          (case run_command os [''docker'', ''rm'', container] w1 of (r2, w2) \<Rightarrow>
             (\<lparr>cr_Stdout = cr_Stdout r @ cr_Stdout r2, cr_Stderr = cr_Stderr r @ cr_Stderr r2,
               cr_Err = cr_Err r2\<rparr>, w2))
        else (r, w1))"

definition OutOfDate :: "string \<Rightarrow> bool" where
  "OutOfDate img = True"

subsection \<open>Inspecting containers\<close>

definition CHR_quote :: char where "CHR_quote = CHR 0x27"

definition inspect :: "'w os \<Rightarrow> string \<Rightarrow> string \<Rightarrow> 'w \<Rightarrow> (string \<times> string option) \<times> 'w" where
  "inspect os name format w =
     (let formatter = (if length format \<noteq> 0 then ''--format='' @ [CHR_quote] @ format @ [CHR_quote] else [])
      in case CombinedOutput os [''docker'', ''inspect'', formatter, name] w of ((out, err), w1) \<Rightarrow>
           ((out, map_option exec_error_text err), w1))"

definition ImageMatches :: "'w os \<Rightarrow> string \<Rightarrow> string \<Rightarrow> 'w \<Rightarrow> bool \<times> 'w" where
  "ImageMatches os img container w =
     (case inspect os img ''{{.Id}}'' w of ((imageHash, err), w1) \<Rightarrow>
        if err \<noteq> None then (False, w1)
        else case inspect os container ''{{.Image}}'' w1 of ((containerHash, err), w2) \<Rightarrow>
          if err \<noteq> None then (False, w2) else (imageHash = containerHash, w2))"

definition ContainerId :: "'w os \<Rightarrow> string \<Rightarrow> 'w \<Rightarrow> (string \<times> string option) \<times> 'w" where
  "ContainerId os container w = inspect os container ''{{.Id}}'' w"

fun version_parts :: "string list \<Rightarrow> string + int list" where
  "version_parts [] = Inr []"
| "version_parts (p # ps) =
     (case Atoi p of
        Inl _ \<Rightarrow> Inl (''strconv.ParseInt: parsing '' @ Quote p)
      | Inr n \<Rightarrow> (case version_parts ps of Inl err \<Rightarrow> Inl err | Inr ns \<Rightarrow> Inr (n # ns)))"

definition version :: "'w os \<Rightarrow> 'w \<Rightarrow> (string + int list) \<times> 'w" where
  "version os w =
     (case CombinedOutput os [''docker'', ''version'',
             ''--format='' @ [CHR_quote] @ ''{{.Server.Version}}'' @ [CHR_quote]] w of ((raw, err), w1) \<Rightarrow>
        ((case err of
            Some e \<Rightarrow> Inl (exec_error_text e)
          | None \<Rightarrow> version_parts (Split (TrimSpace raw) ''.'')), w1))"

text \<open>
  Whether the format of Docker before 1.8 is needed; a version of one number 1 is read beyond its
  end.
\<close>

definition old_docker :: "string + int list \<Rightarrow> bool go" where
  "old_docker v = (case v of
     Inl err \<Rightarrow> Ret True
   | Inr [] \<Rightarrow> Panic ''index out of range''
   | Inr [major] \<Rightarrow> if major = 1 then Panic ''index out of range'' else Ret False
   | Inr (major # minor # _) \<Rightarrow> Ret (major = 1 \<and> minor < 8))"

definition mounts_format :: string where
  "mounts_format = ''{{range $k, $v := .Mounts}} {{if eq $v.Destination '' @ [CHR 0x22]
     @ ''/shipshape-workspace'' @ [CHR 0x22] @ ''}} {{$v.Source}} {{end}} {{end}}''"

definition volumes_format :: string where
  "volumes_format = ''{{range $k, $v := .Volumes}} {{if eq $k '' @ [CHR 0x22]
     @ ''/shipshape-workspace'' @ [CHR 0x22] @ ''}} {{$v}} {{end}} {{end}}''"

definition mapped_path :: "string \<Rightarrow> string \<Rightarrow> bool \<times> string" where
  "mapped_path path volume =
     (if path = volume then (True, [])
      else let path = path @ ''/'' in (HasPrefix path volume, TrimPrefix path volume))"

definition MappedVolume :: "'w os \<Rightarrow> string \<Rightarrow> string \<Rightarrow> 'w \<Rightarrow> ((bool \<times> string) \<times> 'w) go" where
  "MappedVolume os path container w =
     (case version os w of (v, w1) \<Rightarrow>
        go_bind (old_docker v) (\<lambda>old.
        case inspect os container (if old then volumes_format else mounts_format) w1 of ((out, err), w2) \<Rightarrow>
          Ret (if err \<noteq> None then (False, []) else mapped_path path (TrimSpace out), w2)))"

definition has_links :: "string \<Rightarrow> string list \<Rightarrow> bool" where
  "has_links links linkedContainers = list_all (ContainsSub links) linkedContainers"

definition ContainsLinks :: "'w os \<Rightarrow> string \<Rightarrow> string list \<Rightarrow> 'w \<Rightarrow> bool \<times> 'w" where
  "ContainsLinks os container linkedContainers w =
     (case inspect os container ''{{.HostConfig.Links}}'' w of ((l, err), w1) \<Rightarrow>
        (err = None \<and> has_links (TrimSpace l) linkedContainers, w1))"

subsection \<open>The listing of the containers\<close>

text \<open>A row of \<open>docker ps\<close>: its first columns, the name in the last one, and padding.\<close>

record ps_row =
  ps_columns :: string
  ps_name :: string
  ps_padding :: nat

definition ps_line :: "ps_row \<Rightarrow> string" where
  "ps_line row = ps_columns row @ '' '' @ ps_name row @ replicate (ps_padding row) CHR '' ''"

definition ps_ok :: "ps_row \<Rightarrow> bool" where
  "ps_ok row \<longleftrightarrow> ps_columns row \<noteq> [] \<and> hd (ps_columns row) \<noteq> CHR '' ''
     \<and> ps_name row \<noteq> [] \<and> CHR '' '' \<notin> set (ps_name row) \<and> CHR_nl \<notin> set (ps_columns row @ ps_name row)"

lemma Trim_padding:
  assumes "s \<noteq> []" "hd s \<noteq> CHR '' ''" "last s \<noteq> CHR '' ''"
  shows "Trim (s @ replicate n CHR '' '') '' '' = s"
proof -
  have "dropWhile (\<lambda>c. c = CHR '' '') (s @ replicate n CHR '' '') = s @ replicate n CHR '' ''"
    using assms(1,2) by (cases s) simp_all
  moreover have "dropWhile (\<lambda>c. c = CHR '' '') (replicate n CHR '' '' @ rev s) = dropWhile (\<lambda>c. c = CHR '' '') (rev s)"
    by (induction n) simp_all
  moreover have "dropWhile (\<lambda>c. c = CHR '' '') (rev s) = rev s"
    using assms(1,3) by (cases s rule: rev_cases) simp_all
  ultimately show ?thesis by (simp add: Trim_def trim_by_def)
qed

lemma takeWhile_no_space:
  "CHR '' '' \<notin> set x \<Longrightarrow> takeWhile (\<lambda>c. c \<noteq> CHR '' '') (x @ CHR '' '' # r) = x"
  by (induction x) auto

lemma append_last_space:
  assumes "a @ CHR '' '' # x = b @ CHR '' '' # y" "CHR '' '' \<notin> set x" "CHR '' '' \<notin> set y"
  shows "x = y"
proof -
  have "rev x @ CHR '' '' # rev a = rev y @ CHR '' '' # rev b"
    using arg_cong [OF assms(1), of rev] by simp
  then show ?thesis
    using takeWhile_no_space [of "rev x" "rev a"] takeWhile_no_space [of "rev y" "rev b"] assms(2,3) by simp
qed

lemma row_of_ps_line:
  assumes "ps_ok row" "CHR '' '' \<notin> set container"
  shows "row_of container (ps_line row) \<longleftrightarrow> container = ps_name row"
proof -
  let ?s = "ps_columns row @ '' '' @ ps_name row"
  have "last (ps_name row) \<in> set (ps_name row)" using assms(1) by (simp add: ps_ok_def)
  then have "last (ps_name row) \<noteq> CHR '' ''" using assms(1) by (metis ps_ok_def)
  then have "Trim (ps_line row) '' '' = ?s"
    using Trim_padding [of ?s "ps_padding row"] assms(1) by (simp add: ps_line_def ps_ok_def)
  then show ?thesis
    using append_last_space [of "ps_columns row" "ps_name row" _ container] assms
    by (auto simp: row_of_def HasSuffix_iff ps_ok_def)
qed

lemma ps_line_no_nl: "ps_ok row \<Longrightarrow> CHR_nl \<notin> set (ps_line row)"
  by (auto simp: ps_ok_def ps_line_def CHR_nl_def)

text \<open>C34: on the listing \<open>docker ps -a\<close> prints, \<open>ContainerExists\<close> tells exactly whether a
  container of that very name is in it, whatever the other columns hold.\<close>

theorem ContainerExists_iff:
  assumes "Exec os [''docker'', ''ps'', ''-a''] w = (r, w1)" "xr_err r = None"
    and "xr_stdout r = Join (title # map ps_line rows @ [[]]) [CHR_nl]"
    and "CHR_nl \<notin> set title" "\<forall>row \<in> set rows. ps_ok row"
    and "container \<noteq> []" "CHR '' '' \<notin> set container"
  shows "ContainerExists os container w = ((\<exists>row \<in> set rows. container = ps_name row, None), w1)"
proof -
  have "lines_of (xr_stdout r) = title # map ps_line rows @ [[]]"
    unfolding assms(3) using assms(4,5) ps_line_no_nl by (intro lines_of_Join) auto
  moreover have "\<not> row_of container []"
    by (simp add: row_of_def Trim_def trim_by_def HasSuffix_iff)
  moreover have "list_ex (row_of container) (map ps_line rows) \<longleftrightarrow> (\<exists>row \<in> set rows. container = ps_name row)"
    using row_of_ps_line [OF _ assms(7)] assms(5) by (auto simp: list_ex_iff)
  ultimately show ?thesis using assms(1,2) by (simp add: ContainerExists_def)
qed

definition ps_os :: "string os" where
  "ps_os = plain_os\<lparr>Exec := (\<lambda>argv w. (\<lparr>xr_stdout = ''CONTAINER ID  NAMES'' @ [CHR_nl] @ ''1f  kythe   '' @ [CHR_nl],
                                      xr_stderr = [], xr_err = None\<rparr>, w))\<rparr>"

theorem ContainerExists_iff_witness:
  "ContainerExists ps_os ''kythe'' ''/'' = ((True, None), ''/'')"
proof -
  let ?row = "\<lparr>ps_columns = ''1f '', ps_name = ''kythe'', ps_padding = 3\<rparr>"
  have "ContainerExists ps_os ''kythe'' ''/'' = ((\<exists>row \<in> set [?row]. ''kythe'' = ps_name row, None), ''/'')"
    by (rule ContainerExists_iff [where title = "''CONTAINER ID  NAMES''" and rows = "[?row]"])
      (auto simp: ps_os_def ps_line_def ps_ok_def CHR_nl_def numeral_eq_Suc)
  then show ?thesis by simp
qed

subsection \<open>What is started\<close>

definition docker_orders_ok :: "docker_orders \<Rightarrow> bool" where
  "docker_orders_ok ords \<longleftrightarrow> range_order (do_env ords) \<and> range_order (do_volumes ords)
     \<and> (\<forall>ps. distinct ps \<longrightarrow> distinct (do_ports ords ps) \<and> set (do_ports ords ps) = set ps)"

lemma one_port:
  assumes "docker_orders_ok ords"
  shows "do_ports ords [p] = [p]"
proof -
  have d: "distinct (do_ports ords [p])" "set (do_ports ords [p]) = {p}"
    using assms by (auto simp: docker_orders_ok_def)
  then have "length (do_ports ords [p]) = 1" by (metis card_1_singleton_iff distinct_card One_nat_def)
  with d(2) show ?thesis by (cases "do_ports ords [p]") auto
qed

text \<open>The directories a container of the program sees: the logs hide the workspace when both are
  the same directory.\<close>

lemma volumes_args:
  "set (map (volume_arg (volumes ws logs)) (keys (volumes ws logs)))
     = {''-v='' @ logs @ '':/shipshape-output''} \<union> (if ws = logs then {} else {''-v='' @ ws @ '':/shipshape-workspace''})"
  "distinct (keys (volumes ws logs))"
  by (auto simp: volumes_def volume_arg_def value_at_def shipshapeWork_def shipshapeLogs_def)

lemma ordered_args:
  assumes "range_order ord" "distinct ks"
  shows "set (map f (ord ks)) = set (map f ks)"
  using assms by simp

text \<open>The service is started detached from the requested image under the requested name, on
  port 10007, linked to exactly the given analyzer containers in their order, with the service
  switched on and the addresses of all analyzers, and with the directory of the logs; the
  workspace is mounted at \<open>/shipshape-workspace\<close> exactly when it is not itself the directory of
  the logs.\<close>

theorem RunService_command:
  assumes "docker_orders_ok ords" "container \<noteq> []"
  shows "\<exists>vs es. RunService os ords img container ws logs cs dind w = run_command os
      ([''docker'', ''run''] @ (if dind then [''--privileged''] else []) @ [''-p=127.0.0.1:10007:10007'']
       @ map link_arg cs @ vs @ es @ [''--name='' @ container, ''-d'', img]) w
    \<and> set vs = {''-v='' @ logs @ '':/shipshape-output''}
        \<union> (if ws = logs then {} else {''-v='' @ ws @ '':/shipshape-workspace''})
    \<and> set es = {''-e='' @ Quote ''START_SERVICE=true'',
                ''-e='' @ Quote (''ANALYZERS='' @ Join (locations cs) '','')}"
proof -
  let ?env = "[(''START_SERVICE'', ''true''), (''ANALYZERS'', Join (locations cs) '','')]"
  let ?vs = "map (volume_arg (volumes ws logs)) (do_volumes ords (keys (volumes ws logs)))"
  let ?es = "map (env_arg ?env) (do_env ords (keys ?env))"
  have o: "range_order (do_env ords)" "range_order (do_volumes ords)"
    using assms(1) by (simp_all add: docker_orders_ok_def)
  have vs: "set ?vs = {''-v='' @ logs @ '':/shipshape-output''}
        \<union> (if ws = logs then {} else {''-v='' @ ws @ '':/shipshape-workspace''})"
    unfolding ordered_args [OF o(2) volumes_args(2)] by (rule volumes_args(1))
  have "distinct (keys ?env)" by simp
  from ordered_args [OF o(1) this, of "env_arg ?env"]
  have es: "set ?es = {''-e='' @ Quote ''START_SERVICE=true'',
                ''-e='' @ Quote (''ANALYZERS='' @ Join (locations cs) '','')}"
    by (simp add: env_arg_def value_at_def)
  have "port_arg [(10007, 10007)] 10007 = ''-p=127.0.0.1:10007:10007''"
    by (simp add: port_arg_def Itoa_def itoa_nat.simps digit_chars)
  then have "RunService os ords img container ws logs cs dind w = run_command os
      ([''docker'', ''run''] @ (if dind then [''--privileged''] else []) @ [''-p=127.0.0.1:10007:10007'']
       @ map link_arg cs @ ?vs @ ?es @ [''--name='' @ container, ''-d'', img]) w"
    using assms by (simp add: RunService_def setupArgs_def one_port privileged_def)
  with vs es show ?thesis by blast
qed

definition docker_plain :: docker_orders where
  "docker_plain = \<lparr>do_env = (\<lambda>xs. xs), do_volumes = (\<lambda>xs. xs), do_ports = (\<lambda>xs. xs)\<rparr>"

lemma docker_plain_ok: "docker_orders_ok docker_plain"
  by (simp add: docker_orders_ok_def docker_plain_def)

theorem RunService_command_witness:
  "\<exists>vs es. RunService plain_os docker_plain ''img'' ''shipping_container'' ''/tmp'' ''/tmp'' [] False ''/''
     = run_command plain_os ([''docker'', ''run'', ''-p=127.0.0.1:10007:10007''] @ vs @ es
         @ [''--name=shipping_container'', ''-d'', ''img'']) ''/''
     \<and> set vs = {''-v=/tmp:/shipshape-output''}"
  using RunService_command [OF docker_plain_ok, of "''shipping_container''" plain_os "''img''" "''/tmp''"
      "''/tmp''" "[]" False "''/''"] by auto

subsection \<open>Where a path is in the container\<close>

text \<open>A path that starts with the name of the mapped directory counts as mapped, whether it is below
  that directory (\<open>c\<close> is the slash) or beside it.\<close>

lemma mapped_path_longer: "mapped_path (volume @ c # r) volume = (True, c # r @ ''/'')"
proof -
  have "HasPrefix (volume @ c # r @ ''/'') volume" by (simp add: HasPrefix_iff)
  then show ?thesis by (simp add: mapped_path_def Let_def TrimPrefix_def)
qed

lemma mapped_path_iff:
  "fst (mapped_path path volume) \<longleftrightarrow> (\<exists>r. path @ ''/'' = volume @ r)"
  "fst (mapped_path path volume) \<Longrightarrow> snd (mapped_path path volume) \<noteq> [] \<Longrightarrow>
     path @ ''/'' = volume @ snd (mapped_path path volume)"
proof -
  show "fst (mapped_path path volume) \<longleftrightarrow> (\<exists>r. path @ ''/'' = volume @ r)"
    by (auto simp: mapped_path_def Let_def HasPrefix_iff)
  show "fst (mapped_path path volume) \<Longrightarrow> snd (mapped_path path volume) \<noteq> [] \<Longrightarrow>
     path @ ''/'' = volume @ snd (mapped_path path volume)"
    by (auto simp: mapped_path_def Let_def HasPrefix_iff TrimPrefix_append split: if_splits)
qed

text \<open>Being linked to a container whose name only contains the name asked for counts as well.\<close>

lemma has_links_substring: "has_links ''[/lint_10:/shipping_container/lint_10]'' [''lint_1'']"
  by code_simp

end
