(* ===== verification/Messages.thy ===== *)
theory Messages
  imports GoStrings "HOL-Library.Word"
begin

text \<open>
  The protocol buffer messages of \<open>shipshape/proto\<close>, as the Go structs the generated
  \<open>*.pb.go\<close> files declare: an optional field is a pointer in Go and an \<open>option\<close> here, a
  repeated field is a slice in Go and a list here.  Go does not tell a nil slice from an empty
  one in anything the program does.  The byte string of unknown fields is left out.
\<close>

subsection \<open>Source contexts\<close>

record ProjectRepoId =
  pr_project_id :: "string option"
  pr_repo_name :: "string option"

record RepoId =
  ri_project_repo_id :: "ProjectRepoId option"
  ri_uid :: "string option"

record CloudRepoSourceContext =
  cr_repo_id :: "RepoId option"
  cr_revision_id :: "string option"
  cr_alias_name :: "string option"

record CloudWorkspaceId =
  cw_repo_id :: "RepoId option"
  cw_name :: "string option"

record CloudWorkspaceSourceContext =
  cws_workspace_id :: "CloudWorkspaceId option"
  cws_snapshot_id :: "string option"

record GerritSourceContext =
  g_host_uri :: "string option"
  g_gerrit_project :: "string option"
  g_revision_id :: "string option"
  g_alias_name :: "string option"

record SourceContext =
  sc_cloud_repo :: "CloudRepoSourceContext option"
  sc_cloud_workspace :: "CloudWorkspaceSourceContext option"
  sc_gerrit :: "GerritSourceContext option"

subsection \<open>Notes\<close>

record TextRange =
  tr_start_line :: "32 word option"
  tr_start_column :: "32 word option"
  tr_end_line :: "32 word option"
  tr_end_column :: "32 word option"

record Location =
  loc_source_context :: "SourceContext option"
  loc_path :: "string option"
  loc_range :: "TextRange option"

record FixRange_Position =
  fp_line :: "32 word option"
  fp_byte :: "32 word option"

record FixRange =
  fr_start :: "FixRange_Position option"
  fr_end :: "FixRange_Position option"

record Replacement =
  rp_path :: "string option"
  rp_range :: "FixRange option"
  rp_new_content :: "string option"

record Fix =
  fix_description :: "string option"
  fix_source_context :: "SourceContext option"
  fix_replacement :: "Replacement list"

text \<open>Enumerations are \<open>int32\<close> in Go, with named values.\<close>

type_synonym Note_Severity = "32 word"

definition BUILD_ERROR :: Note_Severity where "BUILD_ERROR = 1"
definition WARNING :: Note_Severity where "WARNING = 2"
definition OTHER :: Note_Severity where "OTHER = 3"

record AdditionalData =
  ad_generation_timestamp_millis :: "64 word option"

record Note =
  n_category :: "string option"
  n_subcategory :: "string option"
  n_location :: "Location option"
  n_description :: "string option"
  n_more_info :: "string option"
  n_additional_data :: "AdditionalData option"
  n_fix :: "Fix list"
  n_severity :: "Note_Severity option"

definition empty_range :: TextRange where
  "empty_range = \<lparr>tr_start_line = None, tr_start_column = None,
                  tr_end_line = None, tr_end_column = None\<rparr>"

definition empty_location :: Location where
  "empty_location = \<lparr>loc_source_context = None, loc_path = None, loc_range = None\<rparr>"

definition empty_note :: Note where
  "empty_note = \<lparr>n_category = None, n_subcategory = None, n_location = None,
                 n_description = None, n_more_info = None, n_additional_data = None,
                 n_fix = [], n_severity = None\<rparr>"

subsection \<open>Contexts\<close>

text \<open>
  \<open>Stage\<close> has two named values.  A Go variable of the type starts as \<open>0\<close>, which is neither of
  them.
\<close>

type_synonym Stage = "32 word"

definition Stage_PRE_BUILD :: Stage where "Stage_PRE_BUILD = 1"
definition Stage_POST_BUILD :: Stage where "Stage_POST_BUILD = 2"
definition Stage_zero :: Stage where "Stage_zero = 0"

lemma Stage_distinct [simp]:
  "Stage_PRE_BUILD \<noteq> Stage_POST_BUILD" "Stage_POST_BUILD \<noteq> Stage_PRE_BUILD"
  "Stage_zero \<noteq> Stage_PRE_BUILD" "Stage_PRE_BUILD \<noteq> Stage_zero"
  "Stage_zero \<noteq> Stage_POST_BUILD" "Stage_POST_BUILD \<noteq> Stage_zero"
  by (simp_all add: Stage_PRE_BUILD_def Stage_POST_BUILD_def Stage_zero_def)

type_synonym Environment = "32 word"

definition CODE_REVIEW :: Environment where "CODE_REVIEW = 1"
definition LOCAL_CLIENT :: Environment where "LOCAL_CLIENT = 2"
definition BATCH :: Environment where "BATCH = 3"
definition IDE :: Environment where "IDE = 4"
definition POST_SUBMIT :: Environment where "POST_SUBMIT = 5"

record CompilationDetails =
  cd_compilation_description_path :: "string option"

record ChangelistDetails =
  cl_changelist :: "string option"
  cl_changelist_author :: "string option"
  cl_changelist_reviewer :: "string list"
  cl_changelist_cc :: "string list"
  cl_changelist_description :: "string option"
  cl_deleted_file_path :: "string list"
  cl_client_name :: "string option"

record ShipshapeContext =
  ctx_environment :: "Environment option"
  ctx_source_context :: "SourceContext option"
  ctx_file_path :: "string list"
  ctx_repo_root :: "string option"
  ctx_changelist_details :: "ChangelistDetails option"
  ctx_compilation_details :: "CompilationDetails option"

definition empty_context :: ShipshapeContext where
  "empty_context = \<lparr>ctx_environment = None, ctx_source_context = None, ctx_file_path = [],
                    ctx_repo_root = None, ctx_changelist_details = None,
                    ctx_compilation_details = None\<rparr>"

subsection \<open>Requests and responses\<close>

record GetCategoryResponse =
  gcr_category :: "string list"

record GetStageResponse =
  gsr_stage :: "Stage option"

record AnalyzeRequest =
  areq_context :: "ShipshapeContext option"
  areq_category :: "string list"

record AnalysisFailure =
  f_category :: "string option"
  f_message :: "string option"

record AnalyzeResponse =
  ar_note :: "Note list"
  ar_failure :: "AnalysisFailure list"

record ShipshapeRequest =
  sreq_context :: "ShipshapeContext option"
  sreq_triggered_category :: "string list"
  sreq_event :: "string option"
  sreq_stage :: "Stage option"

record ShipshapeResponse =
  sresp_analyze_response :: "AnalyzeResponse list"

subsection \<open>Configuration messages\<close>

record GlobalConfigPb =
  gc_images :: "string list"
  gc_ignore :: "string list"

record EventConfig =
  ec_event :: "string option"
  ec_categories :: "string list"

record ShipshapeConfig =
  sc_global :: "GlobalConfigPb option"
  sc_events :: "EventConfig list"

definition GetEvent :: "EventConfig \<Rightarrow> string" where
  "GetEvent ec = (case ec_event ec of None \<Rightarrow> [] | Some e \<Rightarrow> e)"

end
