(* ===== verification/Config.thy ===== *)
theory Config
  imports Messages StrSet Osys Paths
begin

text \<open>
  \<open>shipshape/service/config.go\<close>: the \<open>.shipshape\<close> configuration file.  The YAML parser is
  a third-party package and the file system is outside the program: reading a file and
  unmarshalling its bytes are the parameters \<open>read\<close> and \<open>yaml\<close>.

  The stanzas of a configuration are pointers, and a YAML list with an empty item may leave a nil
  one among them.  The configurations here hold stanzas, not pointers; \<open>validate_pointers\<close> is the same
  loop over pointers, and shows what the other leaves out.
\<close>

definition configFilename :: string where "configFilename = ''.shipshape''"
definition defaultName :: string where "defaultName = ''default''"
definition DefaultEvent :: string where "DefaultEvent = ''manual''"
definition DefaultRepo :: string where "DefaultRepo = ''beta.gcr.io/shipshape_releases''"

record config =
  images :: "string list"
  ignore :: "string list"
  categories :: "string list"

definition new_config :: config where
  "new_config = \<lparr>images = [], ignore = [], categories = []\<rparr>"

subsection \<open>The operations\<close>

fun eventWithName_loop :: "EventConfig list \<Rightarrow> string \<Rightarrow> EventConfig option" where
  "eventWithName_loop [] eventName = None"
| "eventWithName_loop (ec # ecs) eventName =
     (if GetEvent ec = eventName then Some ec else eventWithName_loop ecs eventName)"

definition eventWithName :: "ShipshapeConfig \<Rightarrow> string \<Rightarrow> EventConfig option" where
  "eventWithName rawConfig eventName = eventWithName_loop (sc_events rawConfig) eventName"

definition buildConfig :: "ShipshapeConfig \<Rightarrow> string \<Rightarrow> config" where
  "buildConfig rawConfig eventName =
     (let c = new_config;
          eventConfig = eventWithName rawConfig eventName;
          defaultConfig = eventWithName rawConfig defaultName;
          c = (case eventConfig of
                 Some ec \<Rightarrow> c\<lparr>categories := categories c @ ec_categories ec\<rparr>
               | None \<Rightarrow> (case defaultConfig of
                   Some dc \<Rightarrow> c\<lparr>categories := categories c @ ec_categories dc\<rparr>
                 | None \<Rightarrow> c))
      in case sc_global rawConfig of
           Some g \<Rightarrow> c\<lparr>images := images c @ gc_images g, ignore := ignore c @ gc_ignore g\<rparr>
         | None \<Rightarrow> c)"

text \<open>
  \<open>validateConfig\<close>: the first loop stops at the first bad stanza and otherwise fills
  \<open>eventNames\<close>, the map from an event name to the indexes it occurs at; the second ranges
  over that map, in the order \<open>ord\<close>.
\<close>

definition getNames :: "string list go_map \<Rightarrow> string \<Rightarrow> string list" where
  "getNames m k = (case map_of m k of None \<Rightarrow> [] | Some v \<Rightarrow> v)"

fun validate_events ::
  "nat \<Rightarrow> EventConfig list \<Rightarrow> string list go_map \<Rightarrow> string + string list go_map" where
  "validate_events i [] eventNames = Inr eventNames"
| "validate_events i (ec # ecs) eventNames =
     (case ec_event ec of
        None \<Rightarrow> Inl (''Event at index '' @ Itoa (int i) @ '' is missing an event name'')
      | Some e \<Rightarrow>
          if length (ec_categories ec) = 0
          then Inl (''Event '' @ Quote e @ '' must specify at least one category'')
          else validate_events (Suc i) ecs
                 (AList.update (GetEvent ec) (getNames eventNames (GetEvent ec) @ [Itoa (int i)])
                    eventNames))"

text \<open>The loop over the pointers of the slice.\<close>

fun validate_pointers ::
  "nat \<Rightarrow> EventConfig option list \<Rightarrow> string list go_map \<Rightarrow> (string + string list go_map) go" where
  "validate_pointers i [] eventNames = Ret (Inr eventNames)"
| "validate_pointers i (p # ps) eventNames =
     go_bind (deref p) (\<lambda>ec. case ec_event ec of
        None \<Rightarrow> Ret (Inl (''Event at index '' @ Itoa (int i) @ '' is missing an event name''))
      | Some e \<Rightarrow>
          if length (ec_categories ec) = 0
          then Ret (Inl (''Event '' @ Quote e @ '' must specify at least one category''))
          else validate_pointers (Suc i) ps
                 (AList.update (GetEvent ec) (getNames eventNames (GetEvent ec) @ [Itoa (int i)])
                    eventNames))"

fun validate_unique :: "string list go_map \<Rightarrow> string list \<Rightarrow> string option" where
  "validate_unique m [] = None"
| "validate_unique m (name # names) =
     (let indexes = getNames m name
      in if length indexes > 1
         then Some (''Multiple events with name '' @ Quote name @ '' (indexes ''
                    @ Join indexes '', '' @ '')'')
         else validate_unique m names)"

definition validateConfig :: "(string list \<Rightarrow> string list) \<Rightarrow> ShipshapeConfig \<Rightarrow> string option" where
  "validateConfig ord rawConfig =
     (case validate_events 0 (sc_events rawConfig) [] of
        Inl e \<Rightarrow> Some e
      | Inr eventNames \<Rightarrow> validate_unique eventNames (ord (keys eventNames)))"

definition unmarshalConfigBytes ::
  "(string \<Rightarrow> string + ShipshapeConfig) \<Rightarrow> string \<Rightarrow> string + ShipshapeConfig" where
  "unmarshalConfigBytes yaml configData =
     (case yaml configData of Inl err \<Rightarrow> Inl err | Inr cfg \<Rightarrow> Inr cfg)"

text \<open>\<open>Inr None\<close> is Go's \<open>nil, nil\<close>: no file, no error, no configuration.\<close>

definition loadConfig ::
  "(string list \<Rightarrow> string list) \<Rightarrow> (string \<Rightarrow> read_result) \<Rightarrow> (string \<Rightarrow> string + ShipshapeConfig)
     \<Rightarrow> string \<Rightarrow> string \<Rightarrow> string + config option" where
  "loadConfig ord read yaml configPath eventName =
     (case read configPath of
        NotExist _ \<Rightarrow> Inr None
      | ReadError err \<Rightarrow> Inl err
      | FileContent content \<Rightarrow>
          (case unmarshalConfigBytes yaml content of
             Inl err \<Rightarrow> Inl err
           | Inr cfg \<Rightarrow>
               (case validateConfig ord cfg of
                  Some err \<Rightarrow> Inl err
                | None \<Rightarrow> Inr (Some (buildConfig cfg eventName)))))"

definition GlobalConfig ::
  "(string list \<Rightarrow> string list) \<Rightarrow> (string \<Rightarrow> read_result) \<Rightarrow> (string \<Rightarrow> string + ShipshapeConfig)
     \<Rightarrow> string \<Rightarrow> string + string list" where
  "GlobalConfig ord read yaml path =
     (case loadConfig ord read yaml (path_Join [path, configFilename]) [] of
        Inl err \<Rightarrow> Inl err
      | Inr None \<Rightarrow> Inr []
      | Inr (Some cfg) \<Rightarrow> Inr (images cfg))"

subsection \<open>Lemmas\<close>

lemma validate_pointers_Some: "validate_pointers i (map Some ecs) m = Ret (validate_events i ecs m)"
  by (induction i ecs m rule: validate_events.induct) (auto simp: deref_def split: option.split)

text \<open>A nil stanza is dereferenced unless a bad stanza before it has stopped the loop.\<close>

theorem nil_stanza_panics:
  assumes "validate_events i ecs m = Inr m'"
  shows "panics (validate_pointers i (map Some ecs @ None # ps) m)"
  using assms
  by (induction i ecs m rule: validate_events.induct) (auto simp: deref_def split: option.splits if_splits)

theorem nil_stanza_panics_witness: "panics (validate_pointers 0 [None] [])"
  using nil_stanza_panics [of 0 "[]" "[]" "[]" "[]"] by simp

lemma eventWithName_None_iff:
  "eventWithName raw name = None \<longleftrightarrow> name \<notin> GetEvent ` set (sc_events raw)"
proof -
  have "eventWithName_loop ecs name = None \<longleftrightarrow> name \<notin> GetEvent ` set ecs" for ecs
    by (induction ecs) auto
  then show ?thesis by (simp add: eventWithName_def)
qed

lemma eventWithName_SomeD:
  "eventWithName raw name = Some ec \<Longrightarrow> ec \<in> set (sc_events raw) \<and> GetEvent ec = name"
proof -
  have "eventWithName_loop ecs name = Some ec \<Longrightarrow> ec \<in> set ecs \<and> GetEvent ec = name" for ecs
    by (induction ecs) (auto split: if_splits)
  then show "eventWithName raw name = Some ec \<Longrightarrow> ec \<in> set (sc_events raw) \<and> GetEvent ec = name"
    by (simp add: eventWithName_def)
qed

lemma eventWithName_unique:
  assumes "distinct (map GetEvent (sc_events raw))" "ec \<in> set (sc_events raw)" "GetEvent ec = name"
  shows "eventWithName raw name = Some ec"
proof (cases "eventWithName raw name")
  case None
  with assms show ?thesis by (auto simp: eventWithName_None_iff)
next
  case (Some ec')
  with assms show ?thesis by (metis eventWithName_SomeD distinct_map inj_onD)
qed

text \<open>A stanza is complete when it has a name and at least one category.\<close>

definition complete_event :: "EventConfig \<Rightarrow> bool" where
  "complete_event ec \<longleftrightarrow> ec_event ec \<noteq> None \<and> ec_categories ec \<noteq> []"

lemma validate_events_Inl_iff:
  "(\<exists>e. validate_events i ecs m = Inl e) \<longleftrightarrow> (\<exists>ec \<in> set ecs. \<not> complete_event ec)"
  by (induction i ecs m rule: validate_events.induct)
    (auto simp: complete_event_def split: option.splits)

lemma getNames_update: "getNames (AList.update k v m) x = (if x = k then v else getNames m x)"
  by (simp add: getNames_def update_conv')

lemma validate_events_Inr:
  assumes "validate_events i ecs m = Inr m'" "distinct (keys m)"
  shows "distinct (keys m')"
    and "set (keys m') = set (keys m) \<union> GetEvent ` set ecs"
    and "length (getNames m' x) = length (getNames m x) + count_list (map GetEvent ecs) x"
  using assms
  by (induction i ecs m rule: validate_events.induct)
    (auto simp: getNames_update distinct_update dom_update split: option.splits if_splits)

lemma validate_unique_None_iff:
  "validate_unique m names = None \<longleftrightarrow> (\<forall>n \<in> set names. length (getNames m n) \<le> 1)"
  by (induction names) (auto simp: Let_def)

lemma distinct_count_list: "distinct xs \<longleftrightarrow> (\<forall>x \<in> set xs. count_list xs x \<le> 1)"
proof (induction xs)
  case (Cons y xs)
  show ?case
  proof (cases "y \<in> set xs")
    case True
    then have "count_list xs y \<noteq> 0" by (simp add: count_list_0_iff)
    with True show ?thesis by auto
  next
    case False
    then have "count_list xs y = 0" by (simp add: count_list_0_iff)
    with False Cons show ?thesis by auto
  qed
qed simp

text \<open>What a configuration file has to satisfy, and the summary it stands for.\<close>

definition valid_config :: "ShipshapeConfig \<Rightarrow> bool" where
  "valid_config raw \<longleftrightarrow>
     (\<forall>ec \<in> set (sc_events raw). complete_event ec) \<and> distinct (map GetEvent (sc_events raw))"

definition categories_for :: "EventConfig list \<Rightarrow> string \<Rightarrow> string list" where
  "categories_for ecs event =
     (case first_such (\<lambda>ec. ec_event ec = Some event) ecs of
        Some ec \<Rightarrow> ec_categories ec
      | None \<Rightarrow> (case first_such (\<lambda>ec. ec_event ec = Some ''default'') ecs of
                   Some dc \<Rightarrow> ec_categories dc
                 | None \<Rightarrow> []))"

lemma validateConfig_None_iff:
  assumes "range_order ord"
  shows "validateConfig ord raw = None \<longleftrightarrow> valid_config raw"
proof (cases "validate_events 0 (sc_events raw) []")
  case (Inl e)
  then have "\<exists>ec \<in> set (sc_events raw). \<not> complete_event ec"
    using validate_events_Inl_iff [of 0 "sc_events raw" "[]"] by blast
  with Inl show ?thesis by (auto simp: validateConfig_def valid_config_def)
next
  case (Inr m)
  then have ok: "\<forall>ec \<in> set (sc_events raw). complete_event ec"
    using validate_events_Inl_iff [of 0 "sc_events raw" "[]"] by auto
  note m = validate_events_Inr [OF Inr]
  have "set (ord (keys m)) = GetEvent ` set (sc_events raw)"
    using assms m(1,2) by simp
  moreover have "length (getNames m x) = count_list (map GetEvent (sc_events raw)) x" for x
    using m(3) by (simp add: getNames_def)
  ultimately show ?thesis
    using Inr ok by (simp add: validateConfig_def validate_unique_None_iff distinct_count_list valid_config_def)
qed

text \<open>C27: \<open>validateConfig\<close> accepts a configuration exactly when every event stanza has a name
  and a category and no two stanzas share a name, whatever order Go visits its map in.\<close>

theorem validateConfig_ok_iff:
  assumes "range_order ord"
  shows "validateConfig ord raw = None \<longleftrightarrow> valid_config raw"
  using assms by (rule validateConfig_None_iff)

theorem validateConfig_ok_witness:
  "validateConfig rev
     \<lparr>sc_global = None, sc_events = [\<lparr>ec_event = Some ''IDE'', ec_categories = [''PyLint'']\<rparr>]\<rparr> = None"
proof -
  have "range_order (rev :: string list \<Rightarrow> string list)" by simp
  from validateConfig_ok_iff [OF this, of "\<lparr>sc_global = None, sc_events =
      [\<lparr>ec_event = Some ''IDE'', ec_categories = [''PyLint'']\<rparr>]\<rparr>"]
  show ?thesis by (simp add: valid_config_def complete_event_def)
qed

lemma eventWithName_complete:
  assumes "valid_config raw"
  shows "eventWithName raw name = first_such (\<lambda>ec. ec_event ec = Some name) (sc_events raw)"
proof -
  have "eventWithName_loop ecs name = first_such (\<lambda>ec. ec_event ec = Some name) ecs"
    if "\<forall>ec \<in> set ecs. complete_event ec" for ecs
    using that by (induction ecs) (auto simp: complete_event_def GetEvent_def)
  with assms show ?thesis by (simp add: eventWithName_def valid_config_def)
qed

lemma buildConfig_valid:
  assumes "valid_config raw"
  shows "images (buildConfig raw event) = (case sc_global raw of None \<Rightarrow> [] | Some g \<Rightarrow> gc_images g)"
    and "ignore (buildConfig raw event) = (case sc_global raw of None \<Rightarrow> [] | Some g \<Rightarrow> gc_ignore g)"
    and "categories (buildConfig raw event) = categories_for (sc_events raw) event"
  by (simp_all add: buildConfig_def new_config_def eventWithName_complete [OF assms] defaultName_def
      categories_for_def Let_def split: option.splits)

lemma loadConfig_Some_iff:
  assumes "range_order ord"
  shows "loadConfig ord read yaml path event = Inr (Some cfg) \<longleftrightarrow>
    (\<exists>content raw. read path = FileContent content \<and> yaml content = Inr raw \<and> valid_config raw
       \<and> cfg = buildConfig raw event)"
  by (auto simp: loadConfig_def unmarshalConfigBytes_def validateConfig_None_iff [OF assms, symmetric]
      split: read_result.splits sum.splits option.splits)

text \<open>Loading a configuration for an event yields one exactly when the file is present, parses
  and is valid; its categories are then those of the stanza with the event's name, else those of
  the stanza named \<open>default\<close>, else none, and its images and ignored directories the global ones.\<close>

theorem loadConfig_result:
  assumes "range_order ord"
  shows "loadConfig ord read yaml path event = Inr (Some cfg) \<longleftrightarrow>
    (\<exists>content raw. read path = FileContent content \<and> yaml content = Inr raw \<and> valid_config raw
       \<and> images cfg = (case sc_global raw of None \<Rightarrow> [] | Some g \<Rightarrow> gc_images g)
       \<and> ignore cfg = (case sc_global raw of None \<Rightarrow> [] | Some g \<Rightarrow> gc_ignore g)
       \<and> categories cfg = categories_for (sc_events raw) event)"
proof -
  have "cfg = buildConfig raw event \<longleftrightarrow>
      images cfg = (case sc_global raw of None \<Rightarrow> [] | Some g \<Rightarrow> gc_images g)
       \<and> ignore cfg = (case sc_global raw of None \<Rightarrow> [] | Some g \<Rightarrow> gc_ignore g)
       \<and> categories cfg = categories_for (sc_events raw) event" if "valid_config raw" for raw
    using buildConfig_valid [OF that, of event] by (cases cfg, cases "buildConfig raw event") auto
  then show ?thesis unfolding loadConfig_Some_iff [OF assms] by blast
qed

theorem loadConfig_result_witness:
  "\<exists>cfg. loadConfig (\<lambda>xs. xs) (\<lambda>p. FileContent ''y'')
       (\<lambda>c. Inr \<lparr>sc_global = Some \<lparr>gc_images = [], gc_ignore = [''third_party/'']\<rparr>,
                  sc_events = [\<lparr>ec_event = Some ''default'', ec_categories = [''go vet'', ''PyLint'']\<rparr>]\<rparr>)
       ''.shipshape'' ''manual'' = Inr (Some cfg)
     \<and> categories cfg = [''go vet'', ''PyLint''] \<and> ignore cfg = [''third_party/'']"
proof -
  let ?raw = "\<lparr>sc_global = Some \<lparr>gc_images = [], gc_ignore = [''third_party/'']\<rparr>,
               sc_events = [\<lparr>ec_event = Some ''default'', ec_categories = [''go vet'', ''PyLint'']\<rparr>]\<rparr>"
  let ?cfg = "\<lparr>images = [], ignore = [''third_party/''], categories = [''go vet'', ''PyLint'']\<rparr>"
  have "valid_config ?raw" by (simp add: valid_config_def complete_event_def)
  moreover have "categories_for (sc_events ?raw) ''manual'' = [''go vet'', ''PyLint'']"
    by (simp add: categories_for_def)
  ultimately have "loadConfig (\<lambda>xs. xs) (\<lambda>p. FileContent ''y'') (\<lambda>c. Inr ?raw)
      ''.shipshape'' ''manual'' = Inr (Some ?cfg)"
    unfolding loadConfig_result [OF range_order_id] by simp
  then show ?thesis by force
qed

end
