(* ===== verification/Protocol.thy ===== *)
theory Protocol
  imports GoStrings
begin

text \<open>
  \<open>shipshape/util/rpc/protocol/protocol.go\<close>: the messages of the JSON K-RPC protocol.

  A JSON text is the tree \<open>json\<close> it stands for; an object keeps its members in order, with
  duplicates.  A \<open>json.RawMessage\<close> is an optional tree, \<open>None\<close> the empty message.  Writing a
  message is \<open>encode_*\<close>, which leaves out the members marked \<open>omitempty\<close> that are empty;
  reading one is \<open>decode_*\<close>, which works through the members in order, as \<open>encoding/json\<close>
  does: names match up to ASCII case, unknown members are skipped, \<open>null\<close> leaves a field as it
  is, and the first member of a wrong type is reported at the end, after the others are read.
\<close>

text \<open>
  A number is an integer, or a literal with a fraction or an exponent that is kept as it was written:
  \<open>digits\<close> are a string of digits, its leading zeros and the number that follows, and an exponent has the
  case of its letter, its sign if it is written, and its digits.
\<close>

type_synonym digits = "nat \<times> nat"

datatype exponent = Exponent bool "bool option" digits

datatype decimal =
    Fraction bool nat digits "exponent option"
  | Scaled bool nat exponent

datatype json =
    JNull
  | JBool bool
  | JInt int
  | JNum decimal
  | JStr string
  | JArr "json list"
  | JObj "(string \<times> json) list"

type_synonym raw = "json option"

subsection \<open>The messages\<close>

definition ErrorParsing :: int where "ErrorParsing = -32700"
definition ErrorInvalidRequest :: int where "ErrorInvalidRequest = -32600"
definition ErrorMethodNotFound :: int where "ErrorMethodNotFound = -32601"
definition ErrorInvalidParams :: int where "ErrorInvalidParams = -32602"
definition ErrorInternal :: int where "ErrorInternal = -32603"
definition ErrorApplication :: int where "ErrorApplication = 0"

definition Version2 :: string where "Version2 = ''2.0''"
definition Version2Streaming :: string where "Version2Streaming = ''2.0 streaming''"

record Request =
  rq_version :: string
  rq_id :: raw
  rq_method :: string
  rq_params :: raw

record Error =
  e_code :: int
  e_message :: string
  e_data :: raw

record Response =
  rs_version :: string
  rs_id :: raw
  rs_result :: raw
  rs_error :: "Error option"
  rs_success :: bool

definition Error_Error :: "Error \<Rightarrow> string" where
  "Error_Error e = e_message e"

definition empty_request :: Request where
  "empty_request = \<lparr>rq_version = [], rq_id = None, rq_method = [], rq_params = None\<rparr>"

definition empty_error :: Error where
  "empty_error = \<lparr>e_code = 0, e_message = [], e_data = None\<rparr>"

definition empty_response :: Response where
  "empty_response = \<lparr>rs_version = [], rs_id = None, rs_result = None, rs_error = None,
                     rs_success = False\<rparr>"

subsection \<open>Checking an id\<close>

text \<open>
  \<open>json.Unmarshal\<close> of a raw message into a \<open>json.Number\<close> and into a \<open>string\<close>: whether it
  succeeds.  \<open>null\<close> is a no-op for both, an empty message an error.
\<close>

fun unmarshals_number :: "raw \<Rightarrow> bool" where
  "unmarshals_number (Some JNull) = True"
| "unmarshals_number (Some (JInt _)) = True"
| "unmarshals_number (Some (JNum _)) = True"
| "unmarshals_number (Some (JStr _)) = True"
| "unmarshals_number _ = False"

fun unmarshals_string :: "raw \<Rightarrow> bool" where
  "unmarshals_string (Some JNull) = True"
| "unmarshals_string (Some (JStr _)) = True"
| "unmarshals_string _ = False"

text \<open>\<open>text_of\<close> prints a raw message for the error text.\<close>

definition CheckID :: "(raw \<Rightarrow> string) \<Rightarrow> raw \<Rightarrow> string option" where
  "CheckID text_of rid =
     (if unmarshals_number rid then None
      else if unmarshals_string rid then None
      else Some (''invalid id: '' @ Quote (text_of rid)))"

definition valid_id :: "raw \<Rightarrow> bool" where
  "valid_id rid \<longleftrightarrow> (case rid of None \<Rightarrow> False | Some j \<Rightarrow>
     (case j of JBool _ \<Rightarrow> False | JArr _ \<Rightarrow> False | JObj _ \<Rightarrow> False | _ \<Rightarrow> True))"

lemma CheckID_None_iff: "CheckID text_of rid = None \<longleftrightarrow> valid_id rid"
  by (cases rid rule: unmarshals_number.cases) (auto simp: CheckID_def valid_id_def)

subsection \<open>Writing\<close>

definition raw_member :: "string \<Rightarrow> raw \<Rightarrow> (string \<times> json) list" where
  "raw_member name r = (case r of None \<Rightarrow> [] | Some j \<Rightarrow> [(name, j)])"

definition encode_request :: "Request \<Rightarrow> json" where
  "encode_request rq = JObj ((''jsonrpc'', JStr (rq_version rq)) # raw_member ''id'' (rq_id rq)
     @ (''method'', JStr (rq_method rq)) # raw_member ''params'' (rq_params rq))"

definition encode_error :: "Error \<Rightarrow> json" where
  "encode_error e = JObj ((''code'', JInt (e_code e)) # (''message'', JStr (e_message e))
     # raw_member ''data'' (e_data e))"

definition encode_response :: "Response \<Rightarrow> json" where
  "encode_response rs = JObj ((''jsonrpc'', JStr (rs_version rs)) # raw_member ''id'' (rs_id rs)
     @ raw_member ''result'' (rs_result rs)
     @ raw_member ''error'' (map_option encode_error (rs_error rs))
     @ (if rs_success rs then [(''success'', JBool True)] else []))"

subsection \<open>Reading\<close>

fun kind :: "json \<Rightarrow> string" where
  "kind JNull = ''null''"
| "kind (JBool _) = ''bool''"
| "kind (JInt _) = ''number''"
| "kind (JNum _) = ''number''"
| "kind (JStr _) = ''string''"
| "kind (JArr _) = ''array''"
| "kind (JObj _) = ''object''"

definition type_error :: "json \<Rightarrow> string \<Rightarrow> string" where
  "type_error j t = ''json: cannot unmarshal '' @ kind j @ '' into Go value of type '' @ t"

definition same_name :: "string \<Rightarrow> string \<Rightarrow> bool" where
  "same_name k name \<longleftrightarrow> ToUpper k = ToUpper name"

text \<open>The first error is kept.\<close>

definition save_error :: "string option \<Rightarrow> string \<Rightarrow> string option" where
  "save_error old new = (case old of None \<Rightarrow> Some new | Some e \<Rightarrow> Some e)"

definition read_string :: "json \<Rightarrow> string \<times> string option \<Rightarrow> string \<times> string option" where
  "read_string j s = (case j of
     JStr v \<Rightarrow> (v, snd s) | JNull \<Rightarrow> s | _ \<Rightarrow> (fst s, save_error (snd s) (type_error j ''string'')))"

definition read_bool :: "json \<Rightarrow> bool \<times> string option \<Rightarrow> bool \<times> string option" where
  "read_bool j s = (case j of
     JBool v \<Rightarrow> (v, snd s) | JNull \<Rightarrow> s | _ \<Rightarrow> (fst s, save_error (snd s) (type_error j ''bool'')))"

definition read_code :: "json \<Rightarrow> int \<times> string option \<Rightarrow> int \<times> string option" where
  "read_code j s = (case j of
     JInt v \<Rightarrow> if - (2 ^ 63) \<le> v \<and> v < 2 ^ 63 then (v, snd s)
               else (fst s, save_error (snd s) (type_error j ''protocol.ErrorCode''))
   | JNull \<Rightarrow> s | _ \<Rightarrow> (fst s, save_error (snd s) (type_error j ''protocol.ErrorCode'')))"

definition decode_request_member :: "string \<times> json \<Rightarrow> Request \<times> string option \<Rightarrow> Request \<times> string option" where
  "decode_request_member m s = (case (m, s) of ((k, j), (rq, err)) \<Rightarrow>
     if same_name k ''jsonrpc'' then
       (case read_string j (rq_version rq, err) of (v, err) \<Rightarrow> (rq\<lparr>rq_version := v\<rparr>, err))
     else if same_name k ''id'' then (rq\<lparr>rq_id := Some j\<rparr>, err)
     else if same_name k ''method'' then
       (case read_string j (rq_method rq, err) of (v, err) \<Rightarrow> (rq\<lparr>rq_method := v\<rparr>, err))
     else if same_name k ''params'' then (rq\<lparr>rq_params := Some j\<rparr>, err)
     else (rq, err))"

definition decode_request :: "json \<Rightarrow> Request \<times> string option" where
  "decode_request j = (case j of
     JObj ms \<Rightarrow> fold decode_request_member ms (empty_request, None)
   | JNull \<Rightarrow> (empty_request, None)
   | _ \<Rightarrow> (empty_request, Some (type_error j ''protocol.Request'')))"

definition decode_error_member :: "string \<times> json \<Rightarrow> Error \<times> string option \<Rightarrow> Error \<times> string option" where
  "decode_error_member m s = (case (m, s) of ((k, j), (e, err)) \<Rightarrow>
     if same_name k ''code'' then
       (case read_code j (e_code e, err) of (v, err) \<Rightarrow> (e\<lparr>e_code := v\<rparr>, err))
     else if same_name k ''message'' then
       (case read_string j (e_message e, err) of (v, err) \<Rightarrow> (e\<lparr>e_message := v\<rparr>, err))
     else if same_name k ''data'' then (e\<lparr>e_data := Some j\<rparr>, err)
     else (e, err))"

text \<open>The pointer \<open>*Error\<close>: \<open>null\<close> sets it to nil, an object fills what it points to.\<close>

definition read_error :: "json \<Rightarrow> Error option \<times> string option \<Rightarrow> Error option \<times> string option" where
  "read_error j s = (let e = (case fst s of None \<Rightarrow> empty_error | Some e \<Rightarrow> e) in case j of
     JNull \<Rightarrow> (None, snd s)
   | JObj ms \<Rightarrow> (case fold decode_error_member ms (e, snd s) of (e', err) \<Rightarrow> (Some e', err))
   | _ \<Rightarrow> (Some e, save_error (snd s) (type_error j ''protocol.Error'')))"

definition decode_response_member :: "string \<times> json \<Rightarrow> Response \<times> string option \<Rightarrow> Response \<times> string option" where
  "decode_response_member m s = (case (m, s) of ((k, j), (rs, err)) \<Rightarrow>
     if same_name k ''jsonrpc'' then
       (case read_string j (rs_version rs, err) of (v, err) \<Rightarrow> (rs\<lparr>rs_version := v\<rparr>, err))
     else if same_name k ''id'' then (rs\<lparr>rs_id := Some j\<rparr>, err)
     else if same_name k ''result'' then (rs\<lparr>rs_result := Some j\<rparr>, err)
     else if same_name k ''error'' then
       (case read_error j (rs_error rs, err) of (v, err) \<Rightarrow> (rs\<lparr>rs_error := v\<rparr>, err))
     else if same_name k ''success'' then
       (case read_bool j (rs_success rs, err) of (v, err) \<Rightarrow> (rs\<lparr>rs_success := v\<rparr>, err))
     else (rs, err))"

definition decode_response :: "json \<Rightarrow> Response \<times> string option" where
  "decode_response j = (case j of
     JObj ms \<Rightarrow> fold decode_response_member ms (empty_response, None)
   | JNull \<Rightarrow> (empty_response, None)
   | _ \<Rightarrow> (empty_response, Some (type_error j ''protocol.Response'')))"

subsection \<open>Round trips\<close>

lemma same_name_simps [simp]:
  "same_name k k"
  "\<not> same_name ''id'' ''jsonrpc''" "\<not> same_name ''method'' ''jsonrpc''" "\<not> same_name ''method'' ''id''"
  "\<not> same_name ''params'' ''jsonrpc''" "\<not> same_name ''params'' ''id''" "\<not> same_name ''params'' ''method''"
  "\<not> same_name ''result'' ''jsonrpc''" "\<not> same_name ''result'' ''id''"
  "\<not> same_name ''error'' ''jsonrpc''" "\<not> same_name ''error'' ''id''" "\<not> same_name ''error'' ''result''"
  "\<not> same_name ''success'' ''jsonrpc''" "\<not> same_name ''success'' ''id''" "\<not> same_name ''success'' ''result''"
  "\<not> same_name ''success'' ''error''"
  "\<not> same_name ''message'' ''code''" "\<not> same_name ''data'' ''code''" "\<not> same_name ''data'' ''message''"
  by (simp_all add: same_name_def ToUpper_def upper_char_def Let_def)

lemma read_simps [simp]:
  "read_string (JStr v) s = (v, snd s)" "read_bool (JBool b) s2 = (b, snd s2)"
  by (simp_all add: read_string_def read_bool_def)

definition code_in_range :: "Error \<Rightarrow> bool" where
  "code_in_range e \<longleftrightarrow> - (2 ^ 63) \<le> e_code e \<and> e_code e < 2 ^ 63"

lemma decode_encode_request: "decode_request (encode_request rq) = (rq, None)"
  by (cases rq, cases "rq_id rq"; cases "rq_params rq")
    (auto simp: decode_request_def encode_request_def raw_member_def decode_request_member_def
      empty_request_def)

lemma decode_encode_error:
  assumes "code_in_range e"
  shows "fold decode_error_member (case encode_error e of JObj ms \<Rightarrow> ms) (empty_error, None) = (e, None)"
  using assms
  by (cases e, cases "e_data e")
    (auto simp: encode_error_def raw_member_def decode_error_member_def empty_error_def
      code_in_range_def read_code_def)

lemma decode_encode_response:
  assumes "\<And>e. rs_error rs = Some e \<Longrightarrow> code_in_range e"
  shows "decode_response (encode_response rs) = (rs, None)"
proof -
  have e: "read_error (encode_error e) (None, None) = (Some e, None)" if "rs_error rs = Some e" for e
    using decode_encode_error [OF assms [OF that]]
    by (simp add: read_error_def encode_error_def)
  obtain v i r er su where rs: "rs = \<lparr>rs_version = v, rs_id = i, rs_result = r, rs_error = er, rs_success = su\<rparr>"
    by (cases rs)
  show ?thesis
    using e unfolding rs
    by (cases i; cases r; cases er; cases su)
      (simp_all add: decode_response_def encode_response_def raw_member_def
        decode_response_member_def empty_response_def)
qed

text \<open>What one side writes the other reads back: every request, and every response whose
  error code is a 64-bit integer, survives encoding and decoding unchanged and without error.\<close>

theorem protocol_roundtrip:
  assumes "\<And>e. rs_error rs = Some e \<Longrightarrow> code_in_range e"
  shows "decode_request (encode_request rq) = (rq, None)
    \<and> decode_response (encode_response rs) = (rs, None)"
  using decode_encode_request decode_encode_response [OF assms] by blast

theorem protocol_roundtrip_witness:
  "decode_response (encode_response (empty_response\<lparr>rs_version := ''2.0'', rs_id := Some (JInt 7),
       rs_error := Some \<lparr>e_code = ErrorParsing, e_message = ''bad'', e_data = None\<rparr>\<rparr>))
   = (empty_response\<lparr>rs_version := ''2.0'', rs_id := Some (JInt 7),
       rs_error := Some \<lparr>e_code = ErrorParsing, e_message = ''bad'', e_data = None\<rparr>\<rparr>, None)"
  using protocol_roundtrip [of "empty_response\<lparr>rs_version := ''2.0'', rs_id := Some (JInt 7),
       rs_error := Some \<lparr>e_code = ErrorParsing, e_message = ''bad'', e_data = None\<rparr>\<rparr>" empty_request]
  by (simp add: code_in_range_def ErrorParsing_def)

end
