(* ===== verification/Service.thy ===== *)
theory Service
  imports Protocol StrSet
begin

text \<open>
  \<open>shipshape/util/rpc/server/service.go\<close>: services, their methods, and the registration of a
  handler's methods by reflection.

  A method has the type of its input \<open>'i\<close> in common with the others of its endpoint, and runs
  on a world \<open>'w\<close>.  \<open>json.Unmarshal\<close> into the input type is \<open>m_unmarshal\<close>, and the outputs of
  the handler are the trees \<open>json.Marshal\<close> makes of them, up to the first one it refuses.
\<close>

subsection \<open>The request context\<close>

type_synonym Map = "string go_map"

definition Map_Get :: "Map \<Rightarrow> string \<Rightarrow> string" where
  "Map_Get m key = (case map_of m key of None \<Rightarrow> [] | Some v \<Rightarrow> v)"

definition Map_Set :: "Map \<Rightarrow> string \<Rightarrow> string \<Rightarrow> Map" where
  "Map_Set m key v = AList.update key v m"

definition Map_Del :: "Map \<Rightarrow> string \<Rightarrow> Map" where
  "Map_Del m key = AList.delete key m"

lemma Map_laws:
  "Map_Get (Map_Set m k v) x = (if x = k then v else Map_Get m x)"
  "Map_Get (Map_Del m k) x = (if x = k then [] else Map_Get m x)"
  by (simp_all add: Map_Get_def Map_Set_def Map_Del_def update_conv' delete_conv')

subsection \<open>Methods and services\<close>

text \<open>How a handler leaves: it returns an error or none, or it panics with a value; or, before it is over,
  it hands out an output \<open>json.Marshal\<close> refuses with an error.\<close>

datatype handler_error = ProtoErr Error | PlainErr string
datatype panic_value = PanicProto Error | PanicError string | PanicOther string
datatype handler_end = Returns "handler_error option" | Panics panic_value | Unencodable string

record ('i, 'w) Method =
  m_Name :: string
  m_Params :: "string list"
  m_Stream :: bool
  m_zero :: 'i
  m_unmarshal :: "json \<Rightarrow> string + 'i"
  m_results :: nat
  m_call :: "Map \<Rightarrow> 'i \<Rightarrow> 'w \<Rightarrow> (json \<times> handler_end) \<times> 'w"
  m_callStream :: "Map \<Rightarrow> 'i \<Rightarrow> 'w \<Rightarrow> (json list \<times> handler_end) \<times> 'w"

record ('i, 'w) Service =
  s_Name :: string
  s_Methods :: "('i, 'w) Method list"

definition Service_Method :: "('i, 'w) Service \<Rightarrow> string \<Rightarrow> ('i, 'w) Method option" where
  "Service_Method s name = first_such (\<lambda>m. m_Name m = name) (s_Methods s)"

definition decode_input :: "('i, 'w) Method \<Rightarrow> raw \<Rightarrow> string + 'i" where
  "decode_input m inp = (case inp of None \<Rightarrow> Inr (m_zero m) | Some j \<Rightarrow> m_unmarshal m j)"

text \<open>
  \<open>Invoke\<close> passes every output to \<open>out\<close>, which works on a state \<open>'s\<close>.  The goroutine that
  does so is joined before \<open>Invoke\<close> returns.  When the handler panics it is not; this reading has it
  pass on what was sent before, and \<open>StreamCalls\<close> has the other schedules.  An output that cannot be encoded is a panic of the
  goroutine, which nothing recovers: the end stays \<open>Unencodable\<close>, and the callers end the process.  Without a goroutine it is
  a panic like those of the handler.  A non-streaming function with other than two results panics once called.
\<close>

definition Invoke ::
  "('i, 'w) Method option \<Rightarrow> Map \<Rightarrow> raw \<Rightarrow> (json \<Rightarrow> 's \<Rightarrow> 's) \<Rightarrow> 's \<Rightarrow> 'w \<Rightarrow> handler_end \<times> 's \<times> 'w" where
  "Invoke mo ctx inp out s w =
     (case mo of
        None \<Rightarrow> (Returns (Some (PlainErr ''no such method'')), s, w)
      | Some m \<Rightarrow>
          (case decode_input m inp of
             Inl err \<Rightarrow> (Returns (Some (ProtoErr \<lparr>e_code = ErrorInvalidParams,
                           e_message = ''unable to decode params: '' @ err, e_data = None\<rparr>)), s, w)
           | Inr v \<Rightarrow>
               if m_Stream m then
                 (case m_callStream m ctx v w of ((outs, fin), w1) \<Rightarrow> (fin, fold out outs s, w1))
               else
                 (case m_call m ctx v w of ((res, fin), w1) \<Rightarrow>
                    (case fin of
                       Panics p \<Rightarrow> (Panics p, s, w1)
                     | Unencodable err \<Rightarrow>
                         if m_results m \<noteq> 2
                         then (Panics (PanicOther ''unexpected number of call results''), s, w1)
                         else (Panics (PanicError err), s, w1)
                     | Returns err \<Rightarrow>
                         if m_results m \<noteq> 2
                         then (Panics (PanicOther ''unexpected number of call results''), s, w1)
                         else (case err of
                                 Some e \<Rightarrow> (Returns (Some e), s, w1)
                               | None \<Rightarrow> (Returns None, out res s, w1))))))"

subsection \<open>Registration\<close>

text \<open>The types reflection tells apart: \<open>TChan True t\<close> is a channel of \<open>t\<close> one can send to.\<close>

datatype gotype =
    TError
  | TContext
  | TStruct string "string list"
  | TPtr gotype
  | TChan bool gotype
  | TOther string

record ('i, 'w) reflect_method =
  rm_Name :: string
  rm_In :: "gotype list"
  rm_Out :: "gotype list"
  rm_impl :: "('i, 'w) Method"

definition IsExported :: "string \<Rightarrow> bool" where
  "IsExported name = (case name of [] \<Rightarrow> False
     | c # _ \<Rightarrow> 65 \<le> (of_char c :: nat) \<and> (of_char c :: nat) \<le> 90)"

fun structOrStructPtr :: "gotype \<Rightarrow> bool" where
  "structOrStructPtr (TStruct _ _) = True"
| "structOrStructPtr (TPtr (TStruct _ _)) = True"
| "structOrStructPtr _ = False"

fun field_names :: "gotype \<Rightarrow> string list" where
  "field_names (TStruct _ fs) = fs"
| "field_names (TPtr (TStruct _ fs)) = fs"
| "field_names _ = []"

fun send_chan :: "gotype \<Rightarrow> bool" where
  "send_chan (TChan send _) = send"
| "send_chan _ = False"

definition checkMethod :: "('i, 'w) reflect_method \<Rightarrow> string + ('i, 'w) Method" where
  "checkMethod m =
     (let numIn = length (rm_In m); numOut = length (rm_Out m);
          accept = (\<lambda>stream. Inr ((rm_impl m)\<lparr>m_Name := rm_Name m, m_Stream := stream,
             m_Params := sort (field_names (rm_In m ! 2)), m_results := numOut\<rparr>))
      in if \<not> IsExported (rm_Name m) then Inl ''method is not exported''
         else if numIn < 3 \<or> rm_In m ! 1 \<noteq> TContext \<or> \<not> structOrStructPtr (rm_In m ! 2)
         then Inl ''invalid method signature''
         else if numIn = 4 \<and> numOut = 1 \<and> rm_Out m ! 0 = TError
         then (if \<not> send_chan (rm_In m ! 3) then Inl ''invalid output type'' else accept True)
         else accept False)"

record ('i, 'w) handler =
  h_type_name :: string
  h_methods :: "('i, 'w) reflect_method list"
  h_text :: string

definition checkInterface :: "('i, 'w) handler \<Rightarrow> string \<times> ('i, 'w) Method list" where
  "checkInterface t = (h_type_name t,
     concat (map (\<lambda>rm. case checkMethod rm of Inl err \<Rightarrow> [] | Inr m \<Rightarrow> [m]) (h_methods t)))"

text \<open>The first duplicate, over the old methods and then the new ones.\<close>

definition duplicate_name :: "('i, 'w) Method list \<Rightarrow> ('i, 'w) Method list \<Rightarrow> string option" where
  "duplicate_name olds ms =
     map_option m_Name (first_such (\<lambda>m. True)
       (concat (map (\<lambda>old. filter (\<lambda>m. m_Name m = m_Name old) ms) olds)))"

definition Register :: "('i, 'w) Service \<Rightarrow> ('i, 'w) handler \<Rightarrow> string option \<times> ('i, 'w) Service" where
  "Register s h =
     (case checkInterface h of (name, ms) \<Rightarrow>
        if length ms = 0 then (Some (''no service methods defined on '' @ h_text h), s)
        else let s1 = (if s_Name s = [] then s\<lparr>s_Name := name\<rparr> else s)
             in case duplicate_name (s_Methods s1) ms of
                  Some d \<Rightarrow> (Some (''duplicate method name: '' @ Quote d), s1)
                | None \<Rightarrow> (None, s1\<lparr>s_Methods := s_Methods s1 @ ms\<rparr>))"

subsection \<open>Lemmas\<close>

lemma Service_Method_SomeD:
  "Service_Method s name = Some m \<Longrightarrow> m \<in> set (s_Methods s) \<and> m_Name m = name"
  by (auto simp: Service_Method_def dest: first_such_SomeD)

lemma duplicate_name_None_iff:
  "duplicate_name olds ms = None \<longleftrightarrow> m_Name ` set olds \<inter> m_Name ` set ms = {}"
  by (fastforce simp: duplicate_name_def first_such_None_iff)

lemma checkMethod_name: "checkMethod rm = Inr m \<Longrightarrow> m_Name m = rm_Name rm"
  by (auto simp: checkMethod_def Let_def split: if_splits)

lemma checkInterface_distinct:
  assumes "distinct (map rm_Name (h_methods h))"
  shows "distinct (map m_Name (snd (checkInterface h)))"
proof -
  let ?ms = "\<lambda>rms. concat (map (\<lambda>rm. case checkMethod rm of Inl err \<Rightarrow> [] | Inr m \<Rightarrow> [m]) rms)"
  have sub: "m_Name ` set (?ms rms) \<subseteq> rm_Name ` set rms" for rms :: "('a, 'b) reflect_method list"
    by (auto split: sum.splits) (metis checkMethod_name image_eqI)
  have "distinct (map m_Name (?ms rms))" if "distinct (map rm_Name rms)"
    for rms :: "('a, 'b) reflect_method list"
    using that
  proof (induction rms)
    case (Cons rm rms)
    then show ?case
      using sub [of rms] checkMethod_name [of rm] by (cases "checkMethod rm") auto
  qed simp
  with assms show ?thesis by (simp add: checkInterface_def)
qed

subsection \<open>Properties\<close>

text \<open>Registering a handler whose type has distinct method names keeps the names of a
  service's methods distinct, so that looking a registered method up by name finds it.\<close>

theorem Register_distinct:
  assumes "distinct (map m_Name (s_Methods s))" "distinct (map rm_Name (h_methods h))"
  shows "distinct (map m_Name (s_Methods (snd (Register s h))))
    \<and> (fst (Register s h) = None \<longrightarrow> snd (checkInterface h) \<noteq> [] \<and>
        (\<forall>m \<in> set (s_Methods s) \<union> set (snd (checkInterface h)).
           Service_Method (snd (Register s h)) (m_Name m) = Some m))"
proof -
  obtain name ms where c: "checkInterface h = (name, ms)" by fastforce
  have ms: "distinct (map m_Name ms)" using checkInterface_distinct [OF assms(2)] c by simp
  have look: "Service_Method t (m_Name m) = Some m"
    if "distinct (map m_Name (s_Methods t))" "m \<in> set (s_Methods t)" for t :: "('a, 'b) Service" and m
    unfolding Service_Method_def using that
    by (intro first_such_unique) (auto simp: distinct_map dest: inj_onD)
  have dup: "distinct (map m_Name (s_Methods s @ ms))" if "duplicate_name (s_Methods s) ms = None"
    using that assms(1) ms by (auto simp: duplicate_name_None_iff)
  show ?thesis
    using assms(1) c dup look
    by (auto simp: Register_def Let_def split: option.splits)
qed

definition echo_impl :: "bool \<Rightarrow> (json, unit) Method" where
  "echo_impl stream = \<lparr>m_Name = ''Echo'', m_Params = [], m_Stream = stream, m_zero = JNull,
     m_unmarshal = Inr, m_results = (if stream then 1 else 2),
     m_call = (\<lambda>ctx i w. ((i, Returns None), w)),
     m_callStream = (\<lambda>ctx i w. (([i, i], Returns None), w))\<rparr>"

definition echo_handler :: "gotype list \<Rightarrow> gotype list \<Rightarrow> (json, unit) handler" where
  "echo_handler ins outs = \<lparr>h_type_name = ''EchoService'',
     h_methods = [\<lparr>rm_Name = ''Echo'', rm_In = ins, rm_Out = outs, rm_impl = echo_impl False\<rparr>],
     h_text = ''{}''\<rparr>"

theorem Register_distinct_witness:
  "distinct (map m_Name (s_Methods (snd (Register \<lparr>s_Name = [], s_Methods = []\<rparr>
     (echo_handler [TOther ''T'', TContext, TStruct ''In'' []] [TOther ''Out'', TError])))))"
  using Register_distinct [of "\<lparr>s_Name = [], s_Methods = []\<rparr>"
      "echo_handler [TOther ''T'', TContext, TStruct ''In'' []] [TOther ''Out'', TError]"]
  by (simp add: echo_handler_def)

text \<open>Registration lets methods through that have neither of the two signatures it
  announces: an exported method with a context and a struct as its parameters but without the
  pair of results is registered as a non-streaming method, and every call that decodes its
  input panics.\<close>

theorem checkMethod_lets_through:
  assumes "IsExported (rm_Name rm)" "rm_In rm = [recv, TContext, inp]" "structOrStructPtr inp"
    and "length (rm_Out rm) \<noteq> 2"
  shows "\<exists>m. checkMethod rm = Inr m \<and> \<not> m_Stream m
    \<and> (\<forall>ctx j out s w. (\<exists>v. decode_input m j = Inr v) \<longrightarrow>
         (\<exists>p s' w'. Invoke (Some m) ctx j out s w = (Panics p, s', w')))"
proof -
  let ?m = "(rm_impl rm)\<lparr>m_Name := rm_Name rm, m_Stream := False,
             m_Params := sort (field_names inp), m_results := length (rm_Out rm)\<rparr>"
  have "checkMethod rm = Inr ?m"
    using assms by (simp add: checkMethod_def Let_def numeral_2_eq_2)
  moreover have "\<exists>p s' w'. Invoke (Some ?m) ctx j out s w = (Panics p, s', w')"
    if "decode_input ?m j = Inr v" for ctx j v and out :: "json \<Rightarrow> 's \<Rightarrow> 's" and s w
    using that assms(4) by (auto simp: Invoke_def split: prod.splits handler_end.splits)
  ultimately show ?thesis by (intro exI [of _ ?m]) auto
qed

theorem checkMethod_lets_through_witness:
  "\<exists>m. checkMethod \<lparr>rm_Name = ''Echo'', rm_In = [TOther ''T'', TContext, TStruct ''In'' []],
         rm_Out = [TError], rm_impl = echo_impl False\<rparr> = Inr m
    \<and> (\<exists>p s' w'. Invoke (Some m) [] None (\<lambda>j (n :: nat). n) 0 () = (Panics p, s', w'))"
proof -
  let ?rm = "\<lparr>rm_Name = ''Echo'', rm_In = [TOther ''T'', TContext, TStruct ''In'' []],
         rm_Out = [TError], rm_impl = echo_impl False\<rparr>"
  have "IsExported (rm_Name ?rm)" "rm_In ?rm = [TOther ''T'', TContext, TStruct ''In'' []]"
    "structOrStructPtr (TStruct ''In'' [])" "length (rm_Out ?rm) \<noteq> 2"
    by (simp_all add: IsExported_def)
  from checkMethod_lets_through [OF this] show ?thesis
    by (metis decode_input_def option.case(1))
qed

end
