(* ===== verification/HttpEncoding.thy ===== *)
theory HttpEncoding
  imports Service
begin

text \<open>
  \<open>shipshape/util/httpencoding/httpencoding.go\<close>: choosing the encoding of an HTTP body and
  undoing it.  The compression formats are Go's \<open>compress/gzip\<close> and \<open>compress/zlib\<close>: the
  record \<open>codecs\<close>.  A header is a map whose missing keys read as the empty string.
\<close>

text \<open>What reading a stream to its end delivers: the bytes, and the error that cut it short.\<close>

type_synonym contents = "string \<times> string option"

record codecs =
  gzip_write :: "string \<Rightarrow> string"
  zlib_write :: "string \<Rightarrow> string"
  gzip_NewReader :: "contents \<Rightarrow> string + contents"
  zlib_NewReader :: "contents \<Rightarrow> string + contents"

text \<open>What is relied on: reading undoes writing.\<close>

definition codecs_ok :: "codecs \<Rightarrow> bool" where
  "codecs_ok c \<longleftrightarrow> (\<forall>b. gzip_NewReader c (gzip_write c b, None) = Inr (b, None)
     \<and> zlib_NewReader c (zlib_write c b, None) = Inr (b, None))"

datatype compressor = GzipWriter | ZlibWriter | NoopCloser

fun pick_encoding :: "string list \<Rightarrow> Map \<Rightarrow> compressor \<times> Map" where
  "pick_encoding [] header = (NoopCloser, header)"
| "pick_encoding (encoding # encodings) header =
     (if encoding = ''gzip'' then (GzipWriter, Map_Set header ''Content-Encoding'' ''gzip'')
      else if encoding = ''deflate'' then (ZlibWriter, Map_Set header ''Content-Encoding'' ''deflate'')
      else if encoding = ''identity'' then (NoopCloser, header)
      else pick_encoding encodings header)"

definition CompressData :: "Map \<Rightarrow> Map \<Rightarrow> compressor \<times> Map" where
  "CompressData header rheader =
     pick_encoding (Split (Map_Get rheader ''Accept-Encoding'') '','') header"

text \<open>The body on the wire once \<open>data\<close> was written to the compressor and it was closed.\<close>

definition compressed :: "codecs \<Rightarrow> compressor \<Rightarrow> string \<Rightarrow> string" where
  "compressed c w data = (case w of
     GzipWriter \<Rightarrow> gzip_write c data | ZlibWriter \<Rightarrow> zlib_write c data | NoopCloser \<Rightarrow> data)"

text \<open>The original body, or a \<open>decodedReader\<close>, whose inner reader may be nil.\<close>

datatype body_reader = OrigBody contents | DecodedReader contents "contents option"

definition UncompressData :: "codecs \<Rightarrow> Map \<Rightarrow> contents \<Rightarrow> string + body_reader" where
  "UncompressData c header body =
     (let encoding = Map_Get header ''Content-Encoding'';
          decoded = (\<lambda>r. case r of Inl err \<Rightarrow> Inl err | Inr cr \<Rightarrow> Inr (DecodedReader body (Some cr)))
      in if encoding = ''gzip'' then decoded (gzip_NewReader c body)
         else if encoding = ''deflate'' then decoded (zlib_NewReader c body)
         else if encoding = ''identity'' then Inr (DecodedReader body None)
         else if encoding = [] then Inr (OrigBody body)
         else Inl (''unknown encoding: '' @ Quote encoding))"

definition read_body :: "body_reader \<Rightarrow> contents go" where
  "read_body r = (case r of OrigBody b \<Rightarrow> Ret b | DecodedReader _ cr \<Rightarrow> deref cr)"

text \<open>
  Closing a body: \<open>close\<close> closes what came over the network and \<open>codec_close\<close> a reader of Go's
  compression packages, each with the error it may return.
\<close>

definition noopCloser_Close :: "string option" where
  "noopCloser_Close = None"

definition decodedReader_Close ::
  "(contents \<Rightarrow> string option) \<Rightarrow> (contents \<Rightarrow> string option) \<Rightarrow> contents \<Rightarrow> contents option \<Rightarrow> string option go" where
  "decodedReader_Close codec_close close orig r =
     go_bind (deref r) (\<lambda>r. Ret (case codec_close r of Some err \<Rightarrow> Some err | None \<Rightarrow> close orig))"

definition Close_body ::
  "(contents \<Rightarrow> string option) \<Rightarrow> (contents \<Rightarrow> string option) \<Rightarrow> body_reader \<Rightarrow> string option go" where
  "Close_body codec_close close body = (case body of
     OrigBody b \<Rightarrow> Ret (close b) | DecodedReader orig r \<Rightarrow> decodedReader_Close codec_close close orig r)"

subsection \<open>Properties\<close>

lemma pick_encoding_header:
  "pick_encoding es h = (w, h') \<Longrightarrow>
     Map_Get h' ''Content-Encoding'' = (case w of GzipWriter \<Rightarrow> ''gzip'' | ZlibWriter \<Rightarrow> ''deflate''
       | NoopCloser \<Rightarrow> Map_Get h ''Content-Encoding'')"
  by (induction es h rule: pick_encoding.induct) (auto simp: Map_laws split: if_splits)

text \<open>C33: whatever encodings a client says it accepts, decoding the body by the header the server
  sets gives back the bytes that were written, without error or panic.\<close>

theorem encoding_roundtrip:
  assumes "codecs_ok c" "Map_Get header ''Content-Encoding'' = []"
    and "CompressData header rheader = (w, header')"
  shows "\<exists>r. UncompressData c header' (compressed c w data, None) = Inr r
    \<and> read_body r = Ret (data, None)"
  using assms pick_encoding_header [of "Split (Map_Get rheader ''Accept-Encoding'') '',''" header w header']
  by (cases w) (auto simp: CompressData_def UncompressData_def compressed_def codecs_ok_def read_body_def Let_def)

definition plain_codecs :: codecs where
  "plain_codecs = \<lparr>gzip_write = (\<lambda>b. CHR ''g'' # b), zlib_write = (\<lambda>b. CHR ''z'' # b),
     gzip_NewReader = (\<lambda>(b, e). case b of [] \<Rightarrow> Inl ''EOF'' | x # r \<Rightarrow> Inr (r, e)),
     zlib_NewReader = (\<lambda>(b, e). case b of [] \<Rightarrow> Inl ''EOF'' | x # r \<Rightarrow> Inr (r, e))\<rparr>"

lemma codecs_ok_plain: "codecs_ok plain_codecs"
  by (simp add: codecs_ok_def plain_codecs_def)

theorem encoding_roundtrip_witness:
  "\<exists>r. UncompressData plain_codecs [(''Content-Encoding'', ''deflate'')] (''zdata'', None) = Inr r
     \<and> read_body r = Ret (''data'', None)"
proof -
  have "CompressData [] [(''Accept-Encoding'', ''br,deflate'')]
      = (ZlibWriter, [(''Content-Encoding'', ''deflate'')])"
    by code_simp
  moreover have "Map_Get [] ''Content-Encoding'' = []" by (simp add: Map_Get_def)
  moreover have "compressed plain_codecs ZlibWriter ''data'' = ''zdata''"
    by (simp add: compressed_def plain_codecs_def)
  ultimately show ?thesis using encoding_roundtrip [OF codecs_ok_plain, of "[]"] by metis
qed

text \<open>A response that names the identity encoding is accepted, and the first read of its body
  panics, because no reader was made for it.\<close>

theorem identity_panics:
  "UncompressData c (Map_Set header ''Content-Encoding'' ''identity'') body = Inr (DecodedReader body None)
   \<and> panics (read_body (DecodedReader body None))"
  by (simp add: UncompressData_def Map_laws read_body_def)

end
