(* ===== verification/JsonText.thy ===== *)
theory JsonText
  imports Protocol
begin

text \<open>
  The text of JSON, as \<open>encoding/json\<close> writes it and as its \<open>Decoder\<close> reads it off a stream.

  Writing is compact, with the characters HTML gives a meaning escaped.  Reading is the scanner of
  Go: a mode and a stack of the arrays and objects that are open, one step per byte, so a syntax
  error is reported at the byte where Go reports it.  A number or a string at the top level is only
  complete at the byte after it.

  Strings are bytes.  They are taken to be valid UTF-8, which both directions leave as it is; other
  bytes would be replaced by U+FFFD.
\<close>

subsection \<open>Writing\<close>

definition hex_lower :: "nat \<Rightarrow> char" where
  "hex_lower n = (if n < 10 then digit n else char_of (87 + n))"

definition escape_char :: "char \<Rightarrow> string" where
  "escape_char c = (let n = of_char c :: nat in
     if n = 34 \<or> n = 92 then [CHR 0x5C, c]
     else if n = 10 then [CHR 0x5C, CHR ''n'']
     else if n = 13 then [CHR 0x5C, CHR ''r'']
     else if n = 9 then [CHR 0x5C, CHR ''t'']
     else if n < 32 \<or> c \<in> set ''<>&'' then CHR 0x5C # ''u00'' @ [hex_lower (n div 16), hex_lower (n mod 16)]
     else [c])"

text \<open>U+2028 and U+2029 are escaped too.\<close>

fun escape :: "string \<Rightarrow> string" where
  "escape (a # b # c # s) =
     (if a = CHR 0xE2 \<and> b = CHR 0x80 \<and> (c = CHR 0xA8 \<or> c = CHR 0xA9)
      then CHR 0x5C # ''u202'' @ [if c = CHR 0xA8 then CHR ''8'' else CHR ''9''] @ escape s
      else escape_char a @ escape (b # c # s))"
| "escape (a # s) = escape_char a @ escape s"
| "escape [] = []"

definition string_text :: "string \<Rightarrow> string" where
  "string_text s = CHR 0x22 # escape s @ [CHR 0x22]"

definition digits_text :: "digits \<Rightarrow> string" where
  "digits_text d = replicate (fst d) CHR ''0'' @ itoa_nat (snd d)"

fun exponent_text :: "exponent \<Rightarrow> string" where
  "exponent_text (Exponent upper sign ds) = (if upper then CHR ''E'' else CHR ''e'')
     # (case sign of None \<Rightarrow> [] | Some positive \<Rightarrow> if positive then ''+'' else ''-'') @ digits_text ds"

definition sign_text :: "bool \<Rightarrow> string" where
  "sign_text neg = (if neg then ''-'' else [])"

fun decimal_text :: "decimal \<Rightarrow> string" where
  "decimal_text (Fraction neg n ds ex) = sign_text neg @ itoa_nat n @ CHR ''.'' # digits_text ds
     @ (case ex of None \<Rightarrow> [] | Some x \<Rightarrow> exponent_text x)"
| "decimal_text (Scaled neg n x) = sign_text neg @ itoa_nat n @ exponent_text x"

fun json_text :: "json \<Rightarrow> string" where
  "json_text JNull = ''null''"
| "json_text (JBool b) = (if b then ''true'' else ''false'')"
| "json_text (JInt i) = Itoa i"
| "json_text (JNum d) = decimal_text d"
| "json_text (JStr s) = string_text s"
| "json_text (JArr vs) = CHR ''['' # Join (map json_text vs) '','' @ '']''"
| "json_text (JObj ms) = CHR ''{'' # Join (map (\<lambda>(k, v). string_text k @ CHR '':'' # json_text v) ms) '','' @ ''}''"

text \<open>An \<open>Encoder\<close> ends every value with a line break.\<close>

definition encoded :: "json list \<Rightarrow> string" where
  "encoded vs = concat (map (\<lambda>v. json_text v @ [CHR 0x0A]) vs)"

subsection \<open>Strings and numbers\<close>

definition is_hex :: "char \<Rightarrow> bool" where
  "is_hex c \<longleftrightarrow> (let n = of_char c :: nat in 48 \<le> n \<and> n \<le> 57 \<or> 65 \<le> n \<and> n \<le> 70 \<or> 97 \<le> n \<and> n \<le> 102)"

definition hex_value :: "char \<Rightarrow> nat" where
  "hex_value c = (let n = of_char c :: nat in if n \<le> 57 then n - 48 else if n \<le> 70 then n - 55 else n - 87)"

definition getu4 :: "string \<Rightarrow> nat" where
  "getu4 s = foldl (\<lambda>n c. 16 * n + hex_value c) 0 s"

definition utf8 :: "nat \<Rightarrow> string" where
  "utf8 r = (if r < 0x80 then [char_of r]
     else if r < 0x800 then [char_of (0xC0 + r div 64), char_of (0x80 + r mod 64)]
     else if r < 0x10000 then [char_of (0xE0 + r div 4096), char_of (0x80 + r div 64 mod 64), char_of (0x80 + r mod 64)]
     else [char_of (0xF0 + r div 262144), char_of (0x80 + r div 4096 mod 64), char_of (0x80 + r div 64 mod 64), char_of (0x80 + r mod 64)])"

definition unescape :: "char \<Rightarrow> char" where
  "unescape c = (if c = CHR ''b'' then CHR 0x08 else if c = CHR ''f'' then CHR 0x0C else if c = CHR ''n'' then CHR 0x0A
     else if c = CHR ''r'' then CHR 0x0D else if c = CHR ''t'' then CHR 0x09 else c)"

text \<open>A surrogate stands for a rune only with its other half behind it.\<close>

definition high_half :: "nat \<Rightarrow> bool" where "high_half r \<longleftrightarrow> 0xD800 \<le> r \<and> r < 0xDC00"
definition low_half :: "nat \<Rightarrow> bool" where "low_half r \<longleftrightarrow> 0xDC00 \<le> r \<and> r < 0xE000"

fun unquote :: "string \<Rightarrow> string" where
  "unquote [] = []"
| "unquote (c # s) =
     (if c \<noteq> CHR 0x5C then c # unquote s
      else case s of
        [] \<Rightarrow> []
      | e # t \<Rightarrow>
          if e \<noteq> CHR ''u'' then unescape e # unquote t
          else let r = getu4 (take 4 t); r2 = getu4 (take 4 (drop 6 t))
               in if high_half r \<and> take 2 (drop 4 t) = [CHR 0x5C, CHR ''u''] \<and> low_half r2
                  then utf8 (0x10000 + (r - 0xD800) * 1024 + (r2 - 0xDC00)) @ unquote (drop 10 t)
                  else utf8 (if high_half r \<or> low_half r then 0xFFFD else r) @ unquote (drop 4 t))"

definition digits_of :: "string \<Rightarrow> digits" where
  "digits_of s = (length s - length (itoa_nat (digits_value s)), digits_value s)"

definition exponent_of :: "char \<Rightarrow> string \<Rightarrow> exponent" where
  "exponent_of e s = (let upper = (e = CHR ''E'') in
     if take 1 s = ''+'' then Exponent upper (Some True) (digits_of (tl s))
     else if take 1 s = ''-'' then Exponent upper (Some False) (digits_of (tl s))
     else Exponent upper None (digits_of s))"

definition number_of :: "string \<Rightarrow> json" where
  "number_of s =
     (let neg = (take 1 s = ''-''); t = (if neg then tl s else s);
          n = digits_value (takeWhile is_digit t)
      in case dropWhile is_digit t of
           [] \<Rightarrow> JInt (if neg then - int n else int n)
         | c # u \<Rightarrow>
             if c = CHR ''.''
             then JNum (Fraction neg n (digits_of (takeWhile is_digit u))
                    (case dropWhile is_digit u of [] \<Rightarrow> None | e # x \<Rightarrow> Some (exponent_of e x)))
             else JNum (Scaled neg n (exponent_of c u)))"

subsection \<open>The scanner\<close>

text \<open>An open array has its values so far; an open object its members, and then a key once one was read.\<close>

datatype frame =
    InArr "json list"
  | InObj "(string \<times> json) list"
  | InVal "(string \<times> json) list" string

datatype str_mode = Plain | Escaped | Hexes nat

datatype num_mode = Neg | Zero | Digits | Dot | Frac | Expo | ExpoSign | ExpoDigits

datatype mode =
    BeginValue
  | BeginArr
  | BeginObj
  | BeginKey
  | InStr str_mode string
  | InNum num_mode string
  | InLit string string json
  | EndValue json

text \<open>After a byte: another state, a value that is complete with it, a value that was complete before it, or
  a syntax error.\<close>

datatype scanned =
    Cont mode "frame list"
  | Done json
  | Before json
  | Bad string

definition is_space :: "char \<Rightarrow> bool" where
  "is_space c \<longleftrightarrow> c \<in> {CHR 0x20, CHR 0x09, CHR 0x0D, CHR 0x0A}"

definition quoted :: "char \<Rightarrow> string" where
  "quoted c = (if c = CHR 0x27 then [CHR 0x27, CHR 0x5C, CHR 0x27, CHR 0x27]
     else if c = CHR 0x22 then [CHR 0x27, CHR 0x22, CHR 0x27]
     else CHR 0x27 # quote_char c @ [CHR 0x27])"

definition bad :: "char \<Rightarrow> string \<Rightarrow> scanned" where
  "bad c context_text = Bad (''invalid character '' @ quoted c @ '' '' @ context_text)"

definition close_value :: "json \<Rightarrow> frame list \<Rightarrow> scanned" where
  "close_value v fs = (if fs = [] then Done v else Cont (EndValue v) fs)"

fun key_of :: "json \<Rightarrow> string" where
  "key_of (JStr k) = k"
| "key_of _ = []"

fun end_value :: "json \<Rightarrow> frame list \<Rightarrow> char \<Rightarrow> scanned" where
  "end_value v [] c = Before v"
| "end_value v (InObj ms # fs) c =
     (if is_space c then Cont (EndValue v) (InObj ms # fs)
      else if c = CHR '':'' then Cont BeginValue (InVal ms (key_of v) # fs)
      else bad c ''after object key'')"
| "end_value v (InVal ms k # fs) c =
     (if is_space c then Cont (EndValue v) (InVal ms k # fs)
      else if c = CHR '','' then Cont BeginKey (InObj (ms @ [(k, v)]) # fs)
      else if c = CHR ''}'' then close_value (JObj (ms @ [(k, v)])) fs
      else bad c ''after object key:value pair'')"
| "end_value v (InArr vs # fs) c =
     (if is_space c then Cont (EndValue v) (InArr vs # fs)
      else if c = CHR '','' then Cont BeginValue (InArr (vs @ [v]) # fs)
      else if c = CHR '']'' then close_value (JArr (vs @ [v])) fs
      else bad c ''after array element'')"

definition begin_value :: "frame list \<Rightarrow> char \<Rightarrow> scanned" where
  "begin_value fs c =
     (if is_space c then Cont BeginValue fs
      else if c = CHR ''{'' then Cont BeginObj (InObj [] # fs)
      else if c = CHR ''['' then Cont BeginArr (InArr [] # fs)
      else if c = CHR 0x22 then Cont (InStr Plain []) fs
      else if c = CHR ''-'' then Cont (InNum Neg [c]) fs
      else if c = CHR ''0'' then Cont (InNum Zero [c]) fs
      else if is_digit c then Cont (InNum Digits [c]) fs
      else if c = CHR ''t'' then Cont (InLit ''rue'' ''true'' (JBool True)) fs
      else if c = CHR ''f'' then Cont (InLit ''alse'' ''false'' (JBool False)) fs
      else if c = CHR ''n'' then Cont (InLit ''ull'' ''null'' JNull) fs
      else bad c ''looking for beginning of value'')"

definition begin_key :: "mode \<Rightarrow> frame list \<Rightarrow> char \<Rightarrow> scanned" where
  "begin_key m fs c =
     (if is_space c then Cont m fs
      else if c = CHR 0x22 then Cont (InStr Plain []) fs
      else bad c ''looking for beginning of object key string'')"

fun scan_str :: "str_mode \<Rightarrow> string \<Rightarrow> frame list \<Rightarrow> char \<Rightarrow> scanned" where
  "scan_str Plain s fs c =
     (if c = CHR 0x22 then Cont (EndValue (JStr (unquote s))) fs
      else if c = CHR 0x5C then Cont (InStr Escaped (s @ [c])) fs
      else if (of_char c :: nat) < 32 then bad c ''in string literal''
      else Cont (InStr Plain (s @ [c])) fs)"
| "scan_str Escaped s fs c =
     (if c \<in> set ''bfnrt/'' \<or> c = CHR 0x5C \<or> c = CHR 0x22 then Cont (InStr Plain (s @ [c])) fs
      else if c = CHR ''u'' then Cont (InStr (Hexes 3) (s @ [c])) fs
      else bad c ''in string escape code'')"
| "scan_str (Hexes n) s fs c =
     (if is_hex c then Cont (InStr (if n = 0 then Plain else Hexes (n - 1)) (s @ [c])) fs
      else bad c (''in '' @ CHR 0x5C # ''u hexadecimal character escape''))"

definition scan_exponent :: "string \<Rightarrow> frame list \<Rightarrow> char \<Rightarrow> scanned" where
  "scan_exponent s fs c =
     (if is_digit c then Cont (InNum ExpoDigits (s @ [c])) fs else bad c ''in exponent of numeric literal'')"

definition after_whole :: "string \<Rightarrow> frame list \<Rightarrow> char \<Rightarrow> scanned" where
  "after_whole s fs c =
     (if c = CHR ''.'' then Cont (InNum Dot (s @ [c])) fs
      else if c = CHR ''e'' \<or> c = CHR ''E'' then Cont (InNum Expo (s @ [c])) fs
      else end_value (number_of s) fs c)"

fun scan_num :: "num_mode \<Rightarrow> string \<Rightarrow> frame list \<Rightarrow> char \<Rightarrow> scanned" where
  "scan_num Neg s fs c =
     (if c = CHR ''0'' then Cont (InNum Zero (s @ [c])) fs
      else if is_digit c then Cont (InNum Digits (s @ [c])) fs
      else bad c ''in numeric literal'')"
| "scan_num Zero s fs c = after_whole s fs c"
| "scan_num Digits s fs c = (if is_digit c then Cont (InNum Digits (s @ [c])) fs else after_whole s fs c)"
| "scan_num Dot s fs c =
     (if is_digit c then Cont (InNum Frac (s @ [c])) fs else bad c ''after decimal point in numeric literal'')"
| "scan_num Frac s fs c =
     (if is_digit c then Cont (InNum Frac (s @ [c])) fs
      else if c = CHR ''e'' \<or> c = CHR ''E'' then Cont (InNum Expo (s @ [c])) fs
      else end_value (number_of s) fs c)"
| "scan_num Expo s fs c =
     (if c = CHR ''+'' \<or> c = CHR ''-'' then Cont (InNum ExpoSign (s @ [c])) fs else scan_exponent s fs c)"
| "scan_num ExpoSign s fs c = scan_exponent s fs c"
| "scan_num ExpoDigits s fs c =
     (if is_digit c then Cont (InNum ExpoDigits (s @ [c])) fs else end_value (number_of s) fs c)"

fun scan :: "mode \<Rightarrow> frame list \<Rightarrow> char \<Rightarrow> scanned" where
  "scan BeginValue fs c = begin_value fs c"
| "scan BeginArr fs c =
     (if is_space c then Cont BeginArr fs
      else if c = CHR '']'' then close_value (JArr []) (tl fs)
      else begin_value fs c)"
| "scan BeginObj fs c =
     (if c = CHR ''}'' then close_value (JObj []) (tl fs) else begin_key BeginObj fs c)"
| "scan BeginKey fs c = begin_key BeginKey fs c"
| "scan (InStr sm s) fs c = scan_str sm s fs c"
| "scan (InNum nm s) fs c = scan_num nm s fs c"
| "scan (InLit s name v) fs c = (case s of
     [] \<Rightarrow> end_value v fs c
   | x # xs \<Rightarrow> if c \<noteq> x then bad c (''in literal '' @ name @ '' (expecting '' @ quoted x @ '')'')
              else Cont (if xs = [] then EndValue v else InLit xs name v) fs)"
| "scan (EndValue v) fs c = end_value v fs c"

subsection \<open>The decoder\<close>

text \<open>What the calls of \<open>Decode\<close> find on a stream: values, then the error that ends it.  The end of the list is
  \<open>io.EOF\<close>.\<close>

datatype wire = Value json | Garbage string

text \<open>The stream is over, in the error of the reader if it has one.  A blank completes a number.\<close>

definition at_end :: "mode \<Rightarrow> frame list \<Rightarrow> string option \<Rightarrow> wire list" where
  "at_end m fs err = (case err of
     Some e \<Rightarrow> [Garbage e]
   | None \<Rightarrow> (case scan m fs CHR 0x20 of
       Before v \<Rightarrow> [Value v]
     | _ \<Rightarrow> if m = BeginValue \<and> fs = [] then [] else [Garbage ''unexpected EOF'']))"

fun decode_json :: "mode \<Rightarrow> frame list \<Rightarrow> string \<Rightarrow> string option \<Rightarrow> wire list" where
  "decode_json m fs [] err = at_end m fs err"
| "decode_json m fs (c # cs) err = (case scan m fs c of
     Cont m1 fs1 \<Rightarrow> decode_json m1 fs1 cs err
   | Done v \<Rightarrow> Value v # decode_json BeginValue [] cs err
   | Bad e \<Rightarrow> [Garbage e]
   | Before v \<Rightarrow> Value v # (case begin_value [] c of
       Cont m1 fs1 \<Rightarrow> decode_json m1 fs1 cs err
     | Bad e \<Rightarrow> [Garbage e]
     | _ \<Rightarrow> []))"

definition decoded :: "string \<times> string option \<Rightarrow> wire list" where
  "decoded b = decode_json BeginValue [] (fst b) (snd b)"

subsection \<open>Strings are read as they were written\<close>

lemma hex_lower: "n < 16 \<Longrightarrow> is_hex (hex_lower n)" "n < 16 \<Longrightarrow> hex_value (hex_lower n) = n"
  by (auto simp: hex_lower_def is_hex_def hex_value_def of_char_digit Let_def)

lemma of_char_quotes: "(c = CHR 0x22) = (of_char c = (34 :: nat))" "(c = CHR 0x5C) = (of_char c = (92 :: nat))"
  "(c = CHR 0x09) = (of_char c = (9 :: nat))" "(c = CHR 0x0A) = (of_char c = (10 :: nat))"
  "(c = CHR 0x0D) = (of_char c = (13 :: nat))"
  using of_char_eq_iff [of c "CHR 0x22", where ?'a = nat] of_char_eq_iff [of c "CHR 0x5C", where ?'a = nat]
    of_char_eq_iff [of c "CHR 0x09", where ?'a = nat] of_char_eq_iff [of c "CHR 0x0A", where ?'a = nat]
    of_char_eq_iff [of c "CHR 0x0D", where ?'a = nat]
  by simp_all

lemma of_char_less_256: "(of_char c :: nat) < 256"
  by simp

lemma decode_escape_char:
  "decode_json (InStr Plain r) fs (escape_char c @ cs) err = decode_json (InStr Plain (r @ escape_char c)) fs cs err"
proof -
  have "is_hex (hex_lower (of_char c div 16))" "is_hex (hex_lower (of_char c mod 16))"
    by (rule hex_lower, use of_char_less_256 [of c] in linarith) (simp add: hex_lower)
  then show ?thesis
    by (auto simp: escape_char_def Let_def is_hex_def [of "CHR ''0''"] of_char_quotes)
qed

lemma decode_escape:
  "decode_json (InStr Plain r) fs (escape s @ cs) err = decode_json (InStr Plain (r @ escape s)) fs cs err"
  by (induction s arbitrary: r rule: escape.induct) (auto simp: decode_escape_char is_hex_def)

declare unquote.simps(2) [simp del]

lemma unquote_plain: "c \<noteq> CHR 0x5C \<Longrightarrow> unquote (c # t) = c # unquote t"
  by (simp add: unquote.simps(2))

lemma unquote_short: "e \<noteq> CHR ''u'' \<Longrightarrow> unquote (CHR 0x5C # e # t) = unescape e # unquote t"
  by (simp add: unquote.simps(2))

lemma unquote_u:
  assumes "\<not> high_half (getu4 [a, b, c, d])" "\<not> low_half (getu4 [a, b, c, d])"
  shows "unquote (CHR 0x5C # CHR ''u'' # a # b # c # d # t) = utf8 (getu4 [a, b, c, d]) @ unquote t"
  using assms by (simp add: unquote.simps(2) Let_def)

lemma unquote_hex:
  assumes "n < 128"
  shows "unquote (CHR 0x5C # CHR ''u'' # CHR ''0'' # CHR ''0'' # hex_lower (n div 16) # hex_lower (n mod 16) # t)
    = char_of n # unquote t"
proof -
  have h: "hex_value (hex_lower (n div 16)) = n div 16" "hex_value (hex_lower (n mod 16)) = n mod 16"
    using assms by (simp_all add: hex_lower(2))
  have "getu4 [CHR ''0'', CHR ''0'', x, y] = 16 * hex_value x + hex_value y" for x y
    by (simp add: getu4_def hex_value_def)
  then have g: "getu4 [CHR ''0'', CHR ''0'', hex_lower (n div 16), hex_lower (n mod 16)] = n"
    by (simp add: h)
  show ?thesis
    using unquote_u [of "CHR ''0''" "CHR ''0''" "hex_lower (n div 16)" "hex_lower (n mod 16)" t] assms
    unfolding g by (simp add: high_half_def low_half_def utf8_def)
qed

lemma unquote_escape_char: "unquote (escape_char c @ t) = c # unquote t"
proof -
  consider (quote) "(of_char c :: nat) = 34 \<or> (of_char c :: nat) = 92"
    | (short) "(of_char c :: nat) \<in> {9, 10, 13}"
    | (hex) "(of_char c :: nat) < 32 \<or> c \<in> set ''<>&''" "(of_char c :: nat) \<notin> {9, 10, 13, 34, 92}"
    | (plain) "32 \<le> (of_char c :: nat)" "c \<notin> set ''<>&''" "(of_char c :: nat) \<notin> {34, 92}"
    by force
  then show ?thesis
  proof cases
    case quote
    then have "c = CHR 0x22 \<or> c = CHR 0x5C" by (simp add: of_char_quotes)
    then show ?thesis by (auto simp: escape_char_def Let_def unescape_def unquote_short)
  next
    case short
    then have "c = CHR 0x09 \<or> c = CHR 0x0A \<or> c = CHR 0x0D"
      unfolding of_char_quotes by auto
    then show ?thesis by (auto simp: escape_char_def Let_def unescape_def unquote_short)
  next
    case hex
    then have n: "(of_char c :: nat) < 128" by auto
    have "escape_char c = CHR 0x5C # CHR ''u'' # CHR ''0'' # CHR ''0''
        # [hex_lower (of_char c div 16), hex_lower (of_char c mod 16)]"
      using hex unfolding escape_char_def Let_def by simp
    with unquote_hex [OF n, of t] show ?thesis by simp
  next
    case plain
    then have "escape_char c = [c]" unfolding escape_char_def Let_def by simp
    moreover have "c \<noteq> CHR 0x5C" using plain(3) by (simp add: of_char_quotes)
    ultimately show ?thesis by (simp add: unquote_plain)
  qed
qed

lemma unquote_line_separator:
  "unquote (CHR 0x5C # CHR ''u'' # CHR ''2'' # CHR ''0'' # CHR ''2'' # CHR ''8'' # t)
     = CHR 0xE2 # CHR 0x80 # CHR 0xA8 # unquote t"
  "unquote (CHR 0x5C # CHR ''u'' # CHR ''2'' # CHR ''0'' # CHR ''2'' # CHR ''9'' # t)
     = CHR 0xE2 # CHR 0x80 # CHR 0xA9 # unquote t"
proof -
  have "char_of (226 :: nat) = CHR 0xE2" "char_of (128 :: nat) = CHR 0x80" "char_of (168 :: nat) = CHR 0xA8"
    "char_of (169 :: nat) = CHR 0xA9"
    by code_simp+
  then have "getu4 ''2028'' = 0x2028" "getu4 ''2029'' = 0x2029"
    "utf8 0x2028 = [CHR 0xE2, CHR 0x80, CHR 0xA8]" "utf8 0x2029 = [CHR 0xE2, CHR 0x80, CHR 0xA9]"
    by (simp_all add: getu4_def hex_value_def utf8_def)
  then show "unquote (CHR 0x5C # CHR ''u'' # CHR ''2'' # CHR ''0'' # CHR ''2'' # CHR ''8'' # t)
     = CHR 0xE2 # CHR 0x80 # CHR 0xA8 # unquote t"
  "unquote (CHR 0x5C # CHR ''u'' # CHR ''2'' # CHR ''0'' # CHR ''2'' # CHR ''9'' # t)
     = CHR 0xE2 # CHR 0x80 # CHR 0xA9 # unquote t"
    by (simp_all add: unquote_u high_half_def low_half_def)
qed

lemma unquote_escape: "unquote (escape s) = s"
proof (induction s rule: escape.induct)
  case (1 a b c s)
  then show ?case by (auto simp: unquote_escape_char unquote_line_separator)
qed (use unquote_escape_char [where t = "[]"] in \<open>simp_all add: unquote_escape_char\<close>)

lemma decode_string:
  "decode_json (InStr Plain []) fs (escape s @ CHR 0x22 # cs) err = decode_json (EndValue (JStr s)) fs cs err"
  by (simp add: decode_escape unquote_escape)

subsection \<open>Numbers are read as they were written\<close>

definition whole_mode :: "nat \<Rightarrow> num_mode" where
  "whole_mode n = (if n = 0 then Zero else Digits)"

lemma digits_not_special:
  assumes "is_digit c"
  shows "\<not> is_space c" "c \<noteq> CHR ''{''" "c \<noteq> CHR ''[''" "c \<noteq> CHR 0x22" "c \<noteq> CHR ''-''" "c \<noteq> CHR ''+''" "c \<noteq> CHR ''.''"
    "c \<noteq> CHR ''e''" "c \<noteq> CHR ''E''" "c \<noteq> CHR '']''" "c \<noteq> CHR ''}''"
  using assms by (auto simp: is_digit_def is_space_def)

lemma decode_digits:
  assumes "\<forall>c \<in> set ds. is_digit c" "nm = Digits \<or> nm = Frac \<or> nm = ExpoDigits"
  shows "decode_json (InNum nm r) fs (ds @ cs) err = decode_json (InNum nm (r @ ds)) fs cs err"
  using assms by (induction ds arbitrary: r) auto

lemma itoa_nat_first:
  assumes "n \<noteq> 0"
  obtains c ds where "itoa_nat n = c # ds" "is_digit c" "c \<noteq> CHR ''0''" "\<forall>d \<in> set ds. is_digit d"
proof -
  have "hd (itoa_nat n) \<noteq> CHR ''0''"
    using assms
  proof (induction n rule: itoa_nat.induct)
    case (1 n)
    show ?case
    proof (cases "n < 10")
      case True
      have "digit n \<noteq> CHR ''0''"
      proof
        assume "digit n = CHR ''0''"
        then have "(of_char (digit n) :: nat) = of_char (CHR ''0'')" by simp
        then show False using True 1 by (simp add: of_char_digit)
      qed
      then show ?thesis using True by (subst itoa_nat.simps) simp
    next
      case False
      then have "hd (itoa_nat (n div 10)) \<noteq> CHR ''0''" using 1 by simp
      then show ?thesis using False by (subst itoa_nat.simps) simp
    qed
  qed
  moreover obtain c ds where "itoa_nat n = c # ds" by (cases "itoa_nat n") simp_all
  ultimately show ?thesis using itoa_nat_digits [of n] by (intro that [of c ds]) auto
qed

lemma itoa_nat_0: "itoa_nat 0 = ''0''"
  by (simp add: itoa_nat.simps digit_chars)

lemma decode_whole:
  "decode_json BeginValue fs (itoa_nat n @ cs) err = decode_json (InNum (whole_mode n) (itoa_nat n)) fs cs err"
  "decode_json (InNum Neg r) fs (itoa_nat n @ cs) err = decode_json (InNum (whole_mode n) (r @ itoa_nat n)) fs cs err"
proof -
  have "decode_json BeginValue fs (itoa_nat n @ cs) err = decode_json (InNum (whole_mode n) (itoa_nat n)) fs cs err
    \<and> decode_json (InNum Neg r) fs (itoa_nat n @ cs) err = decode_json (InNum (whole_mode n) (r @ itoa_nat n)) fs cs err"
  proof (cases "n = 0")
    case True
    then show ?thesis by (simp add: itoa_nat_0 begin_value_def is_space_def whole_mode_def)
  next
    case False
    then obtain c ds where c: "itoa_nat n = c # ds" "is_digit c" "c \<noteq> CHR ''0''" "\<forall>d \<in> set ds. is_digit d"
      by (rule itoa_nat_first)
    then show ?thesis
      using False decode_digits [OF c(4), of Digits "[c]" fs cs err] decode_digits [OF c(4), of Digits "r @ [c]" fs cs err]
      by (simp add: begin_value_def digits_not_special whole_mode_def)
  qed
  then show "decode_json BeginValue fs (itoa_nat n @ cs) err = decode_json (InNum (whole_mode n) (itoa_nat n)) fs cs err"
    "decode_json (InNum Neg r) fs (itoa_nat n @ cs) err = decode_json (InNum (whole_mode n) (r @ itoa_nat n)) fs cs err"
    by simp_all
qed

lemma decode_signed:
  "decode_json BeginValue fs (sign_text neg @ itoa_nat n @ cs) err
    = decode_json (InNum (whole_mode n) (sign_text neg @ itoa_nat n)) fs cs err"
  by (simp add: sign_text_def decode_whole begin_value_def is_space_def)

text \<open>What ends a number.\<close>

definition stops :: "char \<Rightarrow> bool" where
  "stops c \<longleftrightarrow> \<not> is_digit c \<and> c \<notin> set ''.eE''"

lemma stops_in_text: "stops CHR '',''" "stops CHR '']''" "stops CHR ''}''" "stops CHR 0x0A"
  by (simp_all add: stops_def is_digit_def)

lemma decode_stops:
  assumes "stops c" "nm = Zero \<or> nm = Digits \<or> nm = Frac \<or> nm = ExpoDigits"
  shows "decode_json (InNum nm r) fs (c # cs) err = decode_json (EndValue (number_of r)) fs (c # cs) err"
  using assms by (auto simp: stops_def after_whole_def)

lemma digits_text_digits: "\<forall>c \<in> set (digits_text d). is_digit c"
  using itoa_nat_digits [of "snd d"] by (auto simp: digits_text_def is_digit_def)

lemma digits_text_Cons: obtains c ds where "digits_text d = c # ds" "is_digit c" "\<forall>c \<in> set ds. is_digit c"
proof -
  have "digits_text d \<noteq> []" by (simp add: digits_text_def)
  then show ?thesis using digits_text_digits [of d] by (cases "digits_text d") (auto intro: that)
qed

lemma digits_of_text [simp]: "digits_of (digits_text d) = d"
proof -
  have "digits_value (replicate z CHR ''0'' @ ds) = digits_value ds" for z ds
    by (induction z) (simp_all add: digits_value_def)
  then show ?thesis by (simp add: digits_of_def digits_text_def digits_value_itoa_nat)
qed

lemma decode_digits_text:
  "decode_json (InNum Dot r) fs (digits_text d @ cs) err = decode_json (InNum Frac (r @ digits_text d)) fs cs err"
  "decode_json (InNum Expo r) fs (digits_text d @ cs) err = decode_json (InNum ExpoDigits (r @ digits_text d)) fs cs err"
  "decode_json (InNum ExpoSign r) fs (digits_text d @ cs) err = decode_json (InNum ExpoDigits (r @ digits_text d)) fs cs err"
proof -
  obtain c ds where d: "digits_text d = c # ds" "is_digit c" "\<forall>c \<in> set ds. is_digit c"
    by (rule digits_text_Cons)
  then show "decode_json (InNum Dot r) fs (digits_text d @ cs) err = decode_json (InNum Frac (r @ digits_text d)) fs cs err"
    "decode_json (InNum Expo r) fs (digits_text d @ cs) err = decode_json (InNum ExpoDigits (r @ digits_text d)) fs cs err"
    "decode_json (InNum ExpoSign r) fs (digits_text d @ cs) err = decode_json (InNum ExpoDigits (r @ digits_text d)) fs cs err"
    by (simp_all add: decode_digits [OF d(3)] scan_exponent_def digits_not_special)
qed

lemma decode_exponent:
  assumes "nm = Zero \<or> nm = Digits \<or> nm = Frac"
  shows "decode_json (InNum nm r) fs (exponent_text x @ cs) err = decode_json (InNum ExpoDigits (r @ exponent_text x)) fs cs err"
proof -
  obtain upper sign d where x: "x = Exponent upper sign d" by (cases x)
  show ?thesis
    using assms
    by (cases sign) (auto simp: x after_whole_def is_digit_def decode_digits_text)
qed

lemma exponent_of_text:
  assumes "exponent_text x = e # s"
  shows "exponent_of e s = x" "e = CHR ''e'' \<or> e = CHR ''E''"
proof -
  obtain upper sign d where x: "x = Exponent upper sign d" by (cases x)
  obtain c ds where "digits_text d = c # ds" "is_digit c" by (rule digits_text_Cons)
  then have "exponent_of (if upper then CHR ''E'' else CHR ''e'') (digits_text d) = Exponent upper None d"
    using digits_of_text [of d] by (auto simp: exponent_of_def digits_not_special)
  then show "exponent_of e s = x" "e = CHR ''e'' \<or> e = CHR ''E''"
    using assms x by (auto simp: exponent_of_def split: option.splits if_splits)
qed

lemma signed_text:
  "(take 1 (sign_text neg @ itoa_nat n @ t) = ''-'') = neg"
  "(if neg then tl (sign_text neg @ itoa_nat n @ t) else sign_text neg @ itoa_nat n @ t) = itoa_nat n @ t"
proof -
  have "hd (itoa_nat n) \<noteq> CHR ''-''"
    using itoa_nat_digits [of n] itoa_nat_not_Nil [of n] by (metis digits_not_special(5) hd_in_set)
  then show "(take 1 (sign_text neg @ itoa_nat n @ t) = ''-'') = neg"
    by (cases "itoa_nat n") (auto simp: sign_text_def)
qed (simp add: sign_text_def)

lemma split_digits:
  assumes "\<forall>c \<in> set ds. is_digit c" "t = [] \<or> \<not> is_digit (hd t)"
  shows "takeWhile is_digit (ds @ t) = ds" "dropWhile is_digit (ds @ t) = t"
  using assms by (cases t; auto)+

lemma number_of_signed:
  assumes "t = [] \<or> \<not> is_digit (hd t)"
  shows "number_of (sign_text neg @ itoa_nat n @ t) = (case t of
       [] \<Rightarrow> JInt (if neg then - int n else int n)
     | c # u \<Rightarrow>
         if c = CHR ''.''
         then JNum (Fraction neg n (digits_of (takeWhile is_digit u))
                (case dropWhile is_digit u of [] \<Rightarrow> None | e # x \<Rightarrow> Some (exponent_of e x)))
         else JNum (Scaled neg n (exponent_of c u)))"
  unfolding number_of_def Let_def signed_text(1) signed_text(2) split_digits [OF itoa_nat_digits assms] digits_value_itoa_nat ..

lemma exponent_text_head: "exponent_text x = [] \<or> \<not> is_digit (hd (exponent_text x))" "exponent_text x \<noteq> []"
  by (cases x; simp add: is_digit_def)+

lemma number_of_decimal: "number_of (decimal_text d) = JNum d"
proof (cases d)
  case (Fraction neg n ds ex)
  let ?x = "case ex of None \<Rightarrow> [] | Some x \<Rightarrow> exponent_text x"
  have "?x = [] \<or> \<not> is_digit (hd ?x)" using exponent_text_head by (simp split: option.split)
  note split = split_digits [OF digits_text_digits this]
  have "(case ?x of [] \<Rightarrow> None | e # x \<Rightarrow> Some (exponent_of e x)) = ex"
    using exponent_of_text exponent_text_head(2) by (auto split: option.split list.split)
  then show ?thesis
    using number_of_signed [of "CHR ''.'' # digits_text ds @ ?x" neg n] Fraction
    by (simp add: split is_digit_def)
next
  case (Scaled neg n x)
  obtain e s where x: "exponent_text x = e # s" using exponent_text_head(2) [of x] by (metis neq_Nil_conv)
  then show ?thesis
    using number_of_signed [OF exponent_text_head(1), of neg n x] exponent_of_text [OF x] Scaled by auto
qed

lemma number_of_Itoa: "number_of (Itoa i) = JInt i"
  using number_of_signed [of "[]" "i < 0" "nat \<bar>i\<bar>"] by (cases "i < 0") (simp_all add: Itoa_def sign_text_def)

lemma decode_Itoa:
  assumes "stops c"
  shows "decode_json BeginValue fs (Itoa i @ c # cs) err = decode_json (EndValue (JInt i)) fs (c # cs) err"
proof -
  have i: "Itoa i = sign_text (i < 0) @ itoa_nat (nat \<bar>i\<bar>)" by (simp add: Itoa_def sign_text_def)
  have "decode_json BeginValue fs (Itoa i @ c # cs) err = decode_json (InNum (whole_mode (nat \<bar>i\<bar>)) (Itoa i)) fs (c # cs) err"
    using decode_signed [of fs "i < 0" "nat \<bar>i\<bar>" "c # cs" err] by (simp only: i append_assoc)
  also have "\<dots> = decode_json (EndValue (number_of (Itoa i))) fs (c # cs) err"
    by (rule decode_stops [OF assms]) (simp add: whole_mode_def)
  finally show ?thesis by (simp only: number_of_Itoa)
qed

lemma decode_decimal:
  assumes "stops c"
  shows "decode_json BeginValue fs (decimal_text d @ c # cs) err = decode_json (EndValue (JNum d)) fs (c # cs) err"
proof -
  have whole: "whole_mode n = Zero \<or> whole_mode n = Digits \<or> whole_mode n = Frac" for n by (simp add: whole_mode_def)
  have "\<exists>nm. (nm = Frac \<or> nm = ExpoDigits)
    \<and> decode_json BeginValue fs (decimal_text d @ c # cs) err = decode_json (InNum nm (decimal_text d)) fs (c # cs) err"
  proof (cases d)
    case (Fraction neg n ds ex)
    let ?r = "sign_text neg @ itoa_nat n @ CHR ''.'' # digits_text ds"
    have "decode_json BeginValue fs (?r @ cs') err
        = decode_json (InNum (whole_mode n) (sign_text neg @ itoa_nat n)) fs (CHR ''.'' # digits_text ds @ cs') err" for cs'
      using decode_signed [of fs neg n "CHR ''.'' # digits_text ds @ cs'" err] by simp
    also have "\<dots> cs' = decode_json (InNum Dot (sign_text neg @ itoa_nat n @ ''.'')) fs (digits_text ds @ cs') err" for cs'
      using whole [of n] by (auto simp: whole_mode_def after_whole_def is_digit_def)
    finally have "decode_json BeginValue fs (?r @ cs') err = decode_json (InNum Frac ?r) fs cs' err" for cs'
      by (simp add: decode_digits_text)
    then show ?thesis
      using decode_exponent [of Frac ?r fs] Fraction by (cases ex) auto
  next
    case (Scaled neg n x)
    then show ?thesis
      using decode_signed [of fs neg n "exponent_text x @ c # cs" err]
        decode_exponent [OF whole [of n], of "sign_text neg @ itoa_nat n" fs x "c # cs" err]
      by auto
  qed
  then obtain nm where nm: "nm = Frac \<or> nm = ExpoDigits"
    "decode_json BeginValue fs (decimal_text d @ c # cs) err = decode_json (InNum nm (decimal_text d)) fs (c # cs) err" by blast
  have "decode_json (InNum nm (decimal_text d)) fs (c # cs) err = decode_json (EndValue (number_of (decimal_text d))) fs (c # cs) err"
    by (rule decode_stops [OF assms]) (use nm(1) in auto)
  with nm(2) show ?thesis by (simp only: number_of_decimal)
qed

subsection \<open>Values are read as they were written\<close>

lemma decode_top:
  "decode_json (EndValue v) [] (c # cs) err = Value v # decode_json BeginValue [] (c # cs) err"
  by (simp add: begin_value_def bad_def)

definition closed :: "json \<Rightarrow> frame list \<Rightarrow> string \<Rightarrow> string option \<Rightarrow> wire list" where
  "closed v fs cs err = (if fs = [] then Value v # decode_json BeginValue [] cs err else decode_json (EndValue v) fs cs err)"

lemma closed_Cons: "closed v fs (c # cs) err = decode_json (EndValue v) fs (c # cs) err"
  unfolding closed_def using decode_top by simp

lemma decode_close: "scan m fs0 c = close_value v fs \<Longrightarrow> decode_json m fs0 (c # cs) err = closed v fs cs err"
  by (simp add: close_value_def closed_def)

declare decode_json.simps(2) [simp del]

lemma decode_Cont: "scan m fs c = Cont m1 fs1 \<Longrightarrow> decode_json m fs (c # cs) err = decode_json m1 fs1 cs err"
  by (simp add: decode_json.simps(2))

lemma decode_literal:
  "decode_json BeginValue fs (''null'' @ cs) err = decode_json (EndValue JNull) fs cs err"
  "decode_json BeginValue fs (''true'' @ cs) err = decode_json (EndValue (JBool True)) fs cs err"
  "decode_json BeginValue fs (''false'' @ cs) err = decode_json (EndValue (JBool False)) fs cs err"
  by (simp_all add: decode_Cont begin_value_def is_space_def is_digit_def)

lemma decode_string_text:
  "decode_json BeginValue fs (string_text k @ cs) err = decode_json (EndValue (JStr k)) fs cs err"
  "decode_json BeginKey fs (string_text k @ cs) err = decode_json (EndValue (JStr k)) fs cs err"
  "decode_json BeginObj fs (string_text k @ cs) err = decode_json (EndValue (JStr k)) fs cs err"
  by (simp_all add: string_text_def decode_Cont begin_value_def begin_key_def is_space_def decode_string)

lemma json_text_first:
  obtains c s where "json_text v = c # s" "\<not> is_space c" "c \<noteq> CHR '']''"
proof -
  have num: "\<exists>c t. sign_text neg @ itoa_nat n @ u = c # t \<and> \<not> is_space c \<and> c \<noteq> CHR '']''" for neg n u
    using itoa_nat_digits [of n] digits_not_special
    by (cases neg; cases "itoa_nat n") (auto simp: sign_text_def is_space_def)
  have "\<exists>c s. json_text v = c # s \<and> \<not> is_space c \<and> c \<noteq> CHR '']''"
  proof (cases v)
    case (JInt i)
    then show ?thesis using num [of "i < 0" "nat \<bar>i\<bar>" "[]"] by (cases "i < 0") (auto simp: Itoa_def sign_text_def)
  next
    case (JNum d)
    then show ?thesis using num by (cases d) auto
  qed (auto simp: string_text_def is_space_def)
  then show ?thesis using that by blast
qed

lemma decode_first:
  "decode_json BeginArr fs (json_text v @ cs) err = decode_json BeginValue fs (json_text v @ cs) err"
  by (rule json_text_first [of v]) (simp add: decode_json.simps(2))

lemma decode_elements:
  assumes "\<And>v fs c cs err. v \<in> set vs \<Longrightarrow> stops c \<Longrightarrow>
      decode_json BeginValue fs (json_text v @ c # cs) err = decode_json (EndValue v) fs (c # cs) err" "vs \<noteq> []"
  shows "decode_json BeginValue (InArr us # fs) (Join (map json_text vs) '','' @ CHR '']'' # cs) err = closed (JArr (us @ vs)) fs cs err"
  using assms
proof (induction vs arbitrary: us)
  case (Cons v vs)
  note v = Cons.prems(1) [of v]
  show ?case
  proof (cases vs)
    case Nil
    have "decode_json (EndValue v) (InArr us # fs) (CHR '']'' # cs) err = closed (JArr (us @ [v])) fs cs err"
      by (rule decode_close) (simp add: is_space_def)
    then show ?thesis using Nil v stops_in_text by simp
  next
    case (Cons w ws)
    have "decode_json (EndValue v) (InArr us # fs) (CHR '','' # t) err = decode_json BeginValue (InArr (us @ [v]) # fs) t err" for t
      by (rule decode_Cont) (simp add: is_space_def)
    then show ?thesis
      using Cons v stops_in_text Cons.IH [of "us @ [v]"] Cons.prems(1) by simp
  qed
qed simp

definition member_text :: "string \<times> json \<Rightarrow> string" where
  "member_text m = string_text (fst m) @ CHR '':'' # json_text (snd m)"

lemma decode_member:
  "decode_json (EndValue (JStr k)) (InObj us # fs) (CHR '':'' # cs) err = decode_json BeginValue (InVal us k # fs) cs err"
  by (rule decode_Cont) (simp add: is_space_def)

lemma decode_members:
  assumes "\<And>m fs c cs err. m \<in> set ms \<Longrightarrow> stops c \<Longrightarrow>
      decode_json BeginValue fs (json_text (snd m) @ c # cs) err = decode_json (EndValue (snd m)) fs (c # cs) err" "ms \<noteq> []"
    and "st = BeginKey \<or> st = BeginObj"
  shows "decode_json st (InObj us # fs) (Join (map member_text ms) '','' @ CHR ''}'' # cs) err = closed (JObj (us @ ms)) fs cs err"
  using assms
proof (induction ms arbitrary: us st)
  case (Cons m ms)
  obtain k v where m: "m = (k, v)" by fastforce
  have v: "decode_json st (InObj us # fs) (member_text m @ c # t) err = decode_json (EndValue v) (InVal us k # fs) (c # t) err"
    if "stops c" for c t
    using that Cons.prems(1) [of m] Cons.prems(3) m by (auto simp: member_text_def decode_string_text decode_member)
  show ?case
  proof (cases ms)
    case Nil
    have "decode_json (EndValue v) (InVal us k # fs) (CHR ''}'' # cs) err = closed (JObj (us @ [m])) fs cs err"
      by (rule decode_close) (simp add: is_space_def m)
    then show ?thesis using Nil v stops_in_text by simp
  next
    case (Cons w ws)
    have "decode_json (EndValue v) (InVal us k # fs) (CHR '','' # t) err = decode_json BeginKey (InObj (us @ [m]) # fs) t err" for t
      by (rule decode_Cont) (simp add: is_space_def m)
    then show ?thesis
      using Cons v stops_in_text Cons.IH [of BeginKey "us @ [m]"] Cons.prems(1) by simp
  qed
qed simp

lemma decode_members_text:
  assumes "\<And>m fs c cs err. m \<in> set ms \<Longrightarrow> stops c \<Longrightarrow>
      decode_json BeginValue fs (json_text (snd m) @ c # cs) err = decode_json (EndValue (snd m)) fs (c # cs) err"
  shows "decode_json BeginValue fs (json_text (JObj ms) @ cs) err = closed (JObj ms) fs cs err"
proof -
  have b: "decode_json BeginValue fs (CHR ''{'' # t) err = decode_json BeginObj (InObj [] # fs) t err" for t
    by (rule decode_Cont) (simp add: begin_value_def is_space_def)
  have members: "json_text (JObj ms) = CHR ''{'' # Join (map member_text ms) '','' @ ''}''"
    by (simp add: member_text_def [abs_def] case_prod_beta')
  show ?thesis
  proof (cases "ms = []")
    case True
    have "decode_json BeginObj (InObj [] # fs) (CHR ''}'' # cs) err = closed (JObj []) fs cs err"
      by (rule decode_close) simp
    then show ?thesis using True b by simp
  next
    case False
    have "decode_json BeginObj (InObj [] # fs) (Join (map member_text ms) '','' @ CHR ''}'' # cs) err
        = closed (JObj ([] @ ms)) fs cs err"
      by (rule decode_members [OF assms False]) simp_all
    then show ?thesis unfolding members using b by simp
  qed
qed

lemma decode_value:
  "stops c \<Longrightarrow> decode_json BeginValue fs (json_text v @ c # cs) err = decode_json (EndValue v) fs (c # cs) err"
proof (induction v arbitrary: fs c cs err)
  case (JArr vs)
  have b: "decode_json BeginValue fs (CHR ''['' # t) err = decode_json BeginArr (InArr [] # fs) t err" for t
    by (rule decode_Cont) (simp add: begin_value_def is_space_def)
  show ?case
  proof (cases vs)
    case Nil
    have "decode_json BeginArr (InArr [] # fs) (CHR '']'' # c # cs) err = closed (JArr []) fs (c # cs) err"
      by (rule decode_close) (simp add: is_space_def)
    then show ?thesis using Nil b by (simp add: closed_Cons)
  next
    case (Cons w ws)
    then obtain t where t: "Join (map json_text vs) '','' @ CHR '']'' # c # cs = json_text w @ t" by (cases ws) auto
    have "decode_json BeginValue (InArr [] # fs) (Join (map json_text vs) '','' @ CHR '']'' # c # cs) err
        = closed (JArr ([] @ vs)) fs (c # cs) err"
      by (rule decode_elements) (use JArr.IH Cons in auto)
    then show ?thesis using b decode_first [of "InArr [] # fs" w t err] t by (simp add: closed_Cons)
  qed
next
  case (JObj ms)
  have "decode_json BeginValue fs (json_text (JObj ms) @ c # cs) err = closed (JObj ms) fs (c # cs) err"
    by (rule decode_members_text) (use JObj.IH in \<open>auto simp: snds.simps\<close>)
  then show ?case by (simp only: closed_Cons)
qed (simp_all add: decode_literal decode_Itoa decode_decimal decode_string_text del: append_Cons)

text \<open>The closing bracket completes an object.\<close>

lemma decode_object:
  "decode_json BeginValue [] (json_text (JObj ms) @ cs) err = Value (JObj ms) # decode_json BeginValue [] cs err"
  by (subst decode_members_text) (simp_all add: decode_value closed_def)

lemma decoded_object: "decoded (json_text (JObj ms), None) = [Value (JObj ms)]"
  using decode_object [of ms "[]" None] by (simp add: decoded_def at_end_def begin_value_def is_space_def)

text \<open>What was encoded is decoded, whatever follows.\<close>

lemma decode_encoded: "decode_json BeginValue [] (encoded vs @ cs) err = map Value vs @ decode_json BeginValue [] cs err"
proof (induction vs)
  case (Cons v vs)
  have "decode_json BeginValue [] (CHR 0x0A # t) err = decode_json BeginValue [] t err" for t
    by (rule decode_Cont) (simp add: begin_value_def is_space_def)
  then show ?case
    using Cons decode_value [OF stops_in_text(4), of "[]" v "encoded vs @ cs" err]
    by (simp add: encoded_def decode_top)
qed (simp add: encoded_def)

lemma decoded_encoded: "decoded (encoded vs, None) = map Value vs"
  using decode_encoded [of vs "[]" None] by (simp add: decoded_def at_end_def begin_value_def is_space_def)

subsection \<open>A text that is cut off\<close>

text \<open>The values a piece of text completes, and the state behind it, unless it has a syntax error.\<close>

fun consumed :: "mode \<Rightarrow> frame list \<Rightarrow> string \<Rightarrow> json list \<times> (mode \<times> frame list) option" where
  "consumed m fs [] = ([], Some (m, fs))"
| "consumed m fs (c # cs) = (case scan m fs c of
     Cont m1 fs1 \<Rightarrow> consumed m1 fs1 cs
   | Done v \<Rightarrow> map_prod (Cons v) id (consumed BeginValue [] cs)
   | Bad e \<Rightarrow> ([], None)
   | Before v \<Rightarrow> map_prod (Cons v) id (case begin_value [] c of
       Cont m1 fs1 \<Rightarrow> consumed m1 fs1 cs
     | _ \<Rightarrow> ([], None)))"

lemma map_prod_Cons: "map_prod (Cons v) id r = (us, x) \<longleftrightarrow> (\<exists>us1. us = v # us1 \<and> r = (us1, x))"
  by (cases r) auto

lemma decode_consumed:
  "consumed m fs p = (us, Some (m1, fs1)) \<Longrightarrow> decode_json m fs (p @ q) err = map Value us @ decode_json m1 fs1 q err"
  by (induction m fs p arbitrary: us rule: consumed.induct)
    (auto simp: decode_json.simps(2) map_prod_Cons split: scanned.splits)

lemma begin_value_cases: "(\<exists>m1 fs1. begin_value fs c = Cont m1 fs1) \<or> (\<exists>e. begin_value fs c = Bad e)"
  by (simp add: begin_value_def bad_def)

lemma decode_broken:
  "consumed m fs p = (us, None) \<Longrightarrow> \<exists>e. decode_json m fs (p @ q) err = map Value us @ [Garbage e]"
proof (induction m fs p arbitrary: us rule: consumed.induct)
  case (2 m fs c cs)
  show ?case
  proof (cases "scan m fs c")
    case (Before v)
    then show ?thesis
      using 2 begin_value_cases [of "[]" c] by (fastforce simp: decode_json.simps(2) map_prod_Cons)
  qed (use 2 in \<open>auto simp: decode_json.simps(2) map_prod_Cons\<close>)
qed simp

fun is_object :: "json \<Rightarrow> bool" where
  "is_object (JObj ms) \<longleftrightarrow> True"
| "is_object _ \<longleftrightarrow> False"

text \<open>With nothing open, only a value that is no object can be waiting for its end.\<close>

fun tidy :: "mode \<Rightarrow> frame list \<Rightarrow> bool" where
  "tidy (EndValue v) fs \<longleftrightarrow> fs = [] \<longrightarrow> \<not> is_object v"
| "tidy (InLit s name v) fs \<longleftrightarrow> fs = [] \<longrightarrow> \<not> is_object v"
| "tidy m fs \<longleftrightarrow> True"

lemma number_of_not_object: "\<not> is_object (number_of s)"
  by (simp add: number_of_def Let_def split: list.split)

lemma end_value_tidy: "end_value v fs c = Cont m1 fs1 \<Longrightarrow> tidy m1 fs1"
  by (induction v fs c rule: end_value.induct) (auto simp: close_value_def bad_def split: if_splits)

lemma begin_value_tidy: "begin_value fs c = Cont m1 fs1 \<Longrightarrow> tidy m1 fs1"
  by (auto simp: begin_value_def bad_def split: if_splits)

lemma begin_key_tidy: "begin_key m fs c = Cont m1 fs1 \<Longrightarrow> m = BeginObj \<or> m = BeginKey \<Longrightarrow> tidy m1 fs1"
  by (auto simp: begin_key_def bad_def split: if_splits)

lemma scan_str_tidy: "scan_str sm s fs c = Cont m1 fs1 \<Longrightarrow> tidy m1 fs1"
  by (induction sm s fs c rule: scan_str.induct) (auto simp: bad_def split: if_splits)

lemma scan_num_tidy: "scan_num nm s fs c = Cont m1 fs1 \<Longrightarrow> tidy m1 fs1"
  by (induction nm s fs c rule: scan_num.induct)
    (auto simp: bad_def scan_exponent_def after_whole_def dest: end_value_tidy split: if_splits)

lemma scan_tidy: "scan m fs c = Cont m1 fs1 \<Longrightarrow> tidy m fs \<Longrightarrow> tidy m1 fs1"
proof (induction m fs c rule: scan.induct)
  case (7 s name v fs c)
  then show ?case by (auto simp: bad_def dest: end_value_tidy split: list.splits if_splits)
qed (auto simp: close_value_def begin_value_tidy scan_str_tidy scan_num_tidy begin_key_tidy dest: end_value_tidy split: if_splits)

lemma consumed_tidy: "consumed m fs p = (us, Some (m1, fs1)) \<Longrightarrow> tidy m fs \<Longrightarrow> tidy m1 fs1"
  by (induction m fs p arbitrary: us rule: consumed.induct)
    (auto simp: map_prod_Cons dest: scan_tidy begin_value_tidy split: scanned.splits)

text \<open>Such a value comes out, or an error.\<close>

lemma scan_num_top: "(\<exists>nm1 s1. scan_num nm s [] c = Cont (InNum nm1 s1) []) \<or> (\<exists>e. scan_num nm s [] c = Bad e)
    \<or> (\<exists>v. scan_num nm s [] c = Before v \<and> \<not> is_object v)"
  by (cases nm) (auto simp: bad_def scan_exponent_def after_whole_def number_of_not_object)

lemma decode_pending:
  assumes "scan m [] CHR 0x20 = Before v" "tidy m []" "decode_json m [] q None = map Value ws"
  shows "ws \<noteq> [] \<and> \<not> is_object (hd ws)"
proof -
  have num: "ws \<noteq> [] \<and> \<not> is_object (hd ws)" if "decode_json (InNum nm s) [] q None = map Value ws" for nm s q ws
    using that
  proof (induction q arbitrary: nm s)
    case Nil
    then show ?case
      using scan_num_top [of nm s "CHR 0x20"] by (auto simp: at_end_def split: scanned.splits)
  next
    case (Cons c q)
    show ?case
      using scan_num_top [of nm s c] Cons by (auto simp: decode_json.simps(2) Cons_eq_map_conv)
  qed
  show ?thesis
  proof (cases m)
    case (InNum nm s)
    then show ?thesis using num assms(3) by blast
  next
    case (EndValue u)
    then show ?thesis
      using assms(2,3) by (cases q) (auto simp: at_end_def decode_top Cons_eq_map_conv)
  next
    case (InLit s name u)
    then have "s = []" using assms(1) by (cases s) (auto simp: bad_def split: if_splits)
    then have "decode_json m [] q None = decode_json (EndValue u) [] q None" using InLit by (cases q) (simp_all add: decode_json.simps(2) at_end_def)
    then show ?thesis
      using assms(2,3) InLit by (cases q) (auto simp: at_end_def decode_top Cons_eq_map_conv)
  next
    case (InStr sm s)
    then show ?thesis using assms(1) by (cases sm) (auto simp: bad_def split: if_splits)
  qed (use assms(1) in \<open>auto simp: begin_value_def begin_key_def close_value_def bad_def split: if_splits\<close>)
qed

lemma end_value_open: "fs \<noteq> [] \<Longrightarrow> end_value u fs c \<noteq> Before v"
  by (induction u fs c rule: end_value.induct) (auto simp: close_value_def bad_def)

lemma scan_before: "scan m fs c = Before v \<Longrightarrow> fs = []"
proof (rule ccontr)
  assume s: "scan m fs c = Before v" and fs: "fs \<noteq> []"
  note fs [THEN end_value_open, simp]
  show False
  proof (cases m)
    case (InStr sm t)
    then show ?thesis using s by (cases sm) (auto simp: bad_def split: if_splits)
  next
    case (InNum nm t)
    then show ?thesis using s by (cases nm) (auto simp: bad_def after_whole_def scan_exponent_def split: if_splits)
  qed (use s in \<open>auto simp: begin_value_def begin_key_def close_value_def bad_def split: if_splits list.splits\<close>)
qed

lemma decode_cut:
  assumes "decode_json BeginValue [] (p @ q) None = map Value vs" "\<forall>v \<in> set vs. is_object v"
  shows "\<exists>k \<le> length vs. \<exists>tail. decode_json BeginValue [] p err = map Value (take k vs) @ tail
    \<and> (case err of Some e \<Rightarrow> tail = [Garbage e] | None \<Rightarrow> tail = [] \<or> tail = [Garbage ''unexpected EOF''])"
proof -
  obtain us r where us: "consumed BeginValue [] p = (us, r)" by fastforce
  have "r \<noteq> None"
  proof
    assume "r = None"
    then obtain e where "map Value vs = map Value us @ [Garbage e]"
      using decode_broken [of BeginValue "[]" p us q None] us assms(1) by auto
    then have "Garbage e \<in> set (map Value vs)" by simp
    then show False by auto
  qed
  then obtain m fs where r: "r = Some (m, fs)" by auto
  note us = us [unfolded r]
  have whole: "map Value us @ decode_json m fs q None = map Value vs"
    using decode_consumed [OF us, of q None] assms(1) by simp
  then obtain ws where ws: "vs = us @ ws" "decode_json m fs q None = map Value ws"
    using inj_map_eq_map [of Value] by (fastforce simp: append_eq_map_conv inj_on_def)
  have t: "tidy m fs" using consumed_tidy [OF us] by simp
  have "scan m fs CHR 0x20 \<noteq> Before v" for v
    using scan_before decode_pending [of m v q ws] t ws assms(2) by (metis Un_iff list.set_sel(1) set_append)
  then have "case err of Some e \<Rightarrow> at_end m fs err = [Garbage e]
      | None \<Rightarrow> at_end m fs err = [] \<or> at_end m fs err = [Garbage ''unexpected EOF'']"
    by (auto simp: at_end_def split: option.split scanned.split)
  moreover have "decode_json BeginValue [] p err = map Value (take (length us) vs) @ at_end m fs err"
    using decode_consumed [OF us, of "[]" err] ws(1) by simp
  ultimately show ?thesis using ws(1) by (intro exI [of _ "length us"]) auto
qed

text \<open>In short: some of the values, and nothing or one error behind them.\<close>

lemma decoded_cut:
  assumes "encoded vs = p @ q" "\<forall>v \<in> set vs. is_object v"
  obtains k tail e where "k \<le> length vs" "decoded (p, err) = map Value (take k vs) @ tail"
    "tail = [] \<or> tail = [Garbage e]" "err = None \<or> err = Some e" "err = None \<Longrightarrow> e = ''unexpected EOF''"
proof -
  have "\<exists>k \<le> length vs. \<exists>tail. decode_json BeginValue [] p err = map Value (take k vs) @ tail
    \<and> (case err of Some e \<Rightarrow> tail = [Garbage e] | None \<Rightarrow> tail = [] \<or> tail = [Garbage ''unexpected EOF''])"
    using decode_cut [of p q vs err] decoded_encoded [of vs] assms by (simp add: decoded_def)
  then show thesis by (cases err) (auto simp: decoded_def intro: that)
qed

end
