(* ===== verification/Endpoint.thy ===== *)
theory Endpoint
  imports HttpEncoding JsonText
begin

text \<open>
  \<open>shipshape/util/rpc/server/endpoint.go\<close>: the server side of the protocol.

  The input is the list of what the JSON decoder finds next: a value, or text that is not JSON;
  the end of the list is \<open>io.EOF\<close>.  The output is a sink that keeps the values encoded into it,
  and may fail for good after some of them.
\<close>

record sink =
  sk_sent :: "json list"
  sk_fail :: "nat \<Rightarrow> string option"

definition sink_encode :: "json \<Rightarrow> sink \<Rightarrow> string option \<times> sink" where
  "sink_encode j s = (case sk_fail s (length (sk_sent s)) of
     Some err \<Rightarrow> (Some err, s)
   | None \<Rightarrow> (None, s\<lparr>sk_sent := sk_sent s @ [j]\<rparr>))"

definition reliable :: "sink \<Rightarrow> bool" where
  "reliable s \<longleftrightarrow> (\<forall>n. sk_fail s n = None)"

type_synonym ('i, 'w) Endpoint = "('i, 'w) Service list"

subsection \<open>Finding a method\<close>

definition serverInfoService :: string where "serverInfoService = ''ServerInfo''"
definition listMethod :: string where "listMethod = ''List''"

definition Resolve :: "('i, 'w) Endpoint \<Rightarrow> string \<Rightarrow> string \<Rightarrow> string + ('i, 'w) Method" where
  "Resolve e serviceName methodName =
     (case first_such (\<lambda>s. s_Name s = serviceName) e of
        None \<Rightarrow> Inl ''no such service''
      | Some service \<Rightarrow>
          (case Service_Method service methodName of
             None \<Rightarrow> Inl ''no such method''
           | Some method \<Rightarrow> Inr method))"

definition method_json :: "string \<Rightarrow> string list \<Rightarrow> bool \<Rightarrow> json" where
  "method_json name params stream = JObj ([(''name'', JStr name), (''params'', JArr (map JStr params))]
     @ (if stream then [(''stream'', JBool True)] else []))"

text \<open>A service without methods has a nil slice, which is written as \<open>null\<close>.\<close>

definition service_json :: "string \<Rightarrow> json list \<Rightarrow> json" where
  "service_json name ms = JObj [(''name'', JStr name), (''methods'', if ms = [] then JNull else JArr ms)]"

definition serviceList :: "('i, 'w) Endpoint \<Rightarrow> json" where
  "serviceList e = JArr (map (\<lambda>s. service_json (s_Name s)
       (map (\<lambda>m. method_json (m_Name m) (m_Params m) (m_Stream m)) (s_Methods s))) e
     @ [service_json serverInfoService [method_json listMethod [] False]])"

definition parseServiceMethod :: "string \<Rightarrow> string + (string \<times> string)" where
  "parseServiceMethod uri =
     (let parts = SplitN2 (Trim uri ''/'') CHR ''/''
      in if length parts \<noteq> 2 \<or> parts ! 0 = [] \<or> parts ! 1 = []
         then Inl (''misformatted service method URI: '' @ Quote uri)
         else Inr (parts ! 0, parts ! 1))"

subsection \<open>Writing responses\<close>

record responseWriter =
  wr_results :: nat
  wr_finished :: bool
  wr_en :: sink

definition newResponseWriter :: "sink \<Rightarrow> responseWriter" where
  "newResponseWriter en = \<lparr>wr_results = 0, wr_finished = False, wr_en = en\<rparr>"

definition wr_write :: "Request \<Rightarrow> Response \<Rightarrow> responseWriter \<Rightarrow> string option \<times> responseWriter" where
  "wr_write req resp w =
     (if wr_results w > 0 \<and> rq_version req \<noteq> Version2Streaming
      then (Some ''attempt to write multiple results in non-streaming protocol'', w)
      else if wr_finished w then (Some ''attempt to write result after stream is complete'', w)
      else let resp = resp\<lparr>rs_id := rq_id req, rs_version := rq_version req\<rparr>
           in case sink_encode (encode_response resp) (wr_en w) of
                (Some err, en) \<Rightarrow> (Some (''error encoding response: '' @ err), w\<lparr>wr_en := en\<rparr>)
              | (None, en) \<Rightarrow> (None, w\<lparr>wr_en := en, wr_results := wr_results w + 1\<rparr>))"

definition wr_pError :: "Request \<Rightarrow> Error \<Rightarrow> responseWriter \<Rightarrow> string option \<times> responseWriter" where
  "wr_pError req err w =
     (case wr_write req (empty_response\<lparr>rs_error := Some err\<rparr>) w of
        (Some e, w1) \<Rightarrow> (Some e, w1)
      | (None, w1) \<Rightarrow> (None, w1\<lparr>wr_finished := True\<rparr>))"

definition wr_Error :: "Request \<Rightarrow> int \<Rightarrow> string \<Rightarrow> responseWriter \<Rightarrow> string option \<times> responseWriter" where
  "wr_Error req code msg w = wr_pError req \<lparr>e_code = code, e_message = msg, e_data = None\<rparr> w"

definition wr_Result :: "Request \<Rightarrow> json \<Rightarrow> responseWriter \<Rightarrow> string option \<times> responseWriter" where
  "wr_Result req result w = wr_write req (empty_response\<lparr>rs_result := Some result\<rparr>) w"

definition wr_Success :: "Request \<Rightarrow> responseWriter \<Rightarrow> string option \<times> responseWriter" where
  "wr_Success req w =
     (case wr_write req (empty_response\<lparr>rs_success := True\<rparr>) w of
        (Some e, w1) \<Rightarrow> (Some e, w1)
      | (None, w1) \<Rightarrow> (None, w1\<lparr>wr_finished := True\<rparr>))"

subsection \<open>Handling a request\<close>

text \<open>
  How \<open>handleRequest\<close> ends: with an error or none, or with the process, by \<open>log.Fatalf\<close> or a panic
  of the goroutine that passes on the outputs of a streaming method.
\<close>

datatype request_end = Handled "string option" | Fatal

type_synonym 'w handled = "request_end \<times> responseWriter \<times> 'w"

definition handled :: "string option \<times> responseWriter \<Rightarrow> 'w \<Rightarrow> 'w handled" where
  "handled r w = (case r of (err, wr) \<Rightarrow> (Handled err, wr, w))"

text \<open>The deferred \<open>recover\<close>.\<close>

definition recover_panic :: "Request \<Rightarrow> panic_value \<Rightarrow> responseWriter \<Rightarrow> string option \<times> responseWriter" where
  "recover_panic req p wr = (case p of
     PanicProto e \<Rightarrow> wr_pError req e wr
   | PanicError msg \<Rightarrow> wr_Error req ErrorInternal msg wr
   | PanicOther msg \<Rightarrow> wr_Error req ErrorInternal msg wr)"

definition write_handler_error :: "Request \<Rightarrow> handler_error \<Rightarrow> responseWriter \<Rightarrow> string option \<times> responseWriter" where
  "write_handler_error req err wr = (case err of
     ProtoErr e \<Rightarrow> wr_pError req e wr
   | PlainErr msg \<Rightarrow> wr_Error req ErrorApplication msg wr)"

definition answer_v2 ::
  "Request \<Rightarrow> ('i, 'w) Method \<Rightarrow> Map \<Rightarrow> responseWriter \<Rightarrow> 'w \<Rightarrow> 'w handled" where
  "answer_v2 req method ctx wr w =
     (case Invoke (Some method) ctx (rq_params req) (\<lambda>result results. results @ [result]) [] w of
        (fin, results, w1) \<Rightarrow>
          (case fin of
             Panics p \<Rightarrow> handled (recover_panic req p wr) w1
           | Unencodable _ \<Rightarrow> (Fatal, wr, w1)
           | Returns (Some err) \<Rightarrow> handled (write_handler_error req err wr) w1
           | Returns None \<Rightarrow>
               if m_Stream method then handled (wr_Result req (JArr results) wr) w1
               else if length results = 1 then handled (wr_Result req (results ! 0) wr) w1
               else (Fatal, wr, w1)))"

text \<open>The output function of a streaming answer drops results once one could not be written.\<close>

definition stream_out :: "Request \<Rightarrow> json \<Rightarrow> string option \<times> responseWriter \<Rightarrow> string option \<times> responseWriter" where
  "stream_out req result s = (case s of (outErr, wr) \<Rightarrow>
     if outErr \<noteq> None then (outErr, wr) else wr_Result req result wr)"

definition answer_streaming ::
  "Request \<Rightarrow> ('i, 'w) Method \<Rightarrow> Map \<Rightarrow> responseWriter \<Rightarrow> 'w \<Rightarrow> 'w handled" where
  "answer_streaming req method ctx wr w =
     (case Invoke (Some method) ctx (rq_params req) (stream_out req) (None, wr) w of
        (fin, (outErr, wr1), w1) \<Rightarrow>
          (case fin of
             Panics p \<Rightarrow> handled (recover_panic req p wr1) w1
           | Unencodable _ \<Rightarrow> (Fatal, wr1, w1)
           | Returns err \<Rightarrow>
               (case outErr of
                  Some oe \<Rightarrow> handled (recover_panic req (PanicError oe) wr1) w1
                | None \<Rightarrow>
                    (case err of
                       Some e \<Rightarrow> handled (write_handler_error req e wr1) w1
                     | None \<Rightarrow> handled (wr_Success req wr1) w1))))"

definition answer ::
  "('i, 'w) Endpoint \<Rightarrow> (raw \<Rightarrow> string) \<Rightarrow> Map \<Rightarrow> Request \<Rightarrow> responseWriter \<Rightarrow> 'w \<Rightarrow> 'w handled" where
  "answer e text_of ctx req wr w =
     (case CheckID text_of (rq_id req) of
        Some err \<Rightarrow> handled (wr_Error req ErrorInvalidRequest err wr) w
      | None \<Rightarrow>
          if rq_version req \<noteq> Version2 \<and> rq_version req \<noteq> Version2Streaming
          then handled (wr_Error req ErrorInvalidRequest
                 (''invalid protocol version: '' @ Quote (rq_version req)) wr) w
          else case parseServiceMethod (rq_method req) of
              Inl _ \<Rightarrow> handled (wr_Error req ErrorMethodNotFound
                         (''Unknown method name format: '' @ Quote (rq_method req)) wr) w
            | Inr (serviceName, methodName) \<Rightarrow>
                if serviceName = serverInfoService then
                  (let req = req\<lparr>rq_version := Version2\<rparr>
                   in if methodName \<noteq> listMethod
                      then handled (wr_Error req ErrorMethodNotFound
                             (Quote methodName @ '' method not found in builtin service ''
                              @ Quote serverInfoService) wr) w
                      else handled (wr_Result req (serviceList e) wr) w)
                else case Resolve e serviceName methodName of
                    Inl _ \<Rightarrow> handled (wr_Error req ErrorMethodNotFound
                               (''Method not found: /'' @ serviceName @ ''/'' @ methodName) wr) w
                  | Inr method \<Rightarrow>
                      (let req = (if \<not> m_Stream method then req\<lparr>rq_version := Version2\<rparr> else req)
                       in if rq_version req = Version2 then answer_v2 req method ctx wr w
                          else answer_streaming req method ctx wr w))"

definition handleRequest ::
  "('i, 'w) Endpoint \<Rightarrow> (raw \<Rightarrow> string) \<Rightarrow> Map \<Rightarrow> wire \<Rightarrow> sink \<Rightarrow> 'w \<Rightarrow> request_end \<times> sink \<times> 'w" where
  "handleRequest e text_of ctx item en w =
     (let wr = newResponseWriter en;
          (req, derr) = (case item of
             Value j \<Rightarrow> decode_request j
           | Garbage err \<Rightarrow> (empty_request, Some err))
      in case derr of
           Some err \<Rightarrow>
             (case wr_Error req ErrorParsing (''error decoding JSON: '' @ err) wr of
                (Some e2, wr1) \<Rightarrow> (Handled (Some (''failed to write error response for '' @ err
                                    @ '': '' @ e2)), wr_en wr1, w)
              | (None, wr1) \<Rightarrow> (Handled (Some err), wr_en wr1, w))
         | None \<Rightarrow>
             (case answer e text_of ctx req wr w of (fin, wr1, w1) \<Rightarrow> (fin, wr_en wr1, w1)))"

fun ServePipes ::
  "('i, 'w) Endpoint \<Rightarrow> (raw \<Rightarrow> string) \<Rightarrow> Map \<Rightarrow> wire list \<Rightarrow> sink \<Rightarrow> 'w \<Rightarrow> request_end \<times> sink \<times> 'w" where
  "ServePipes e text_of ctx [] en w = (Handled None, en, w)"
| "ServePipes e text_of ctx (item # items) en w =
     (case handleRequest e text_of ctx item en w of
        (Handled None, en1, w1) \<Rightarrow> ServePipes e text_of ctx items en1 w1
      | (Handled (Some err), en1, w1) \<Rightarrow> (Handled (Some err), en1, w1)
      | (Fatal, en1, w1) \<Rightarrow> (Fatal, en1, w1))"

text \<open>
  Over HTTP one request is handled, its answer compressed as the client accepts; an error is
  only logged.  The body is plain text, or the values encoded into the compressor.
\<close>

record http_reply =
  hr_status :: int
  hr_header :: Map
  hr_compressor :: compressor
  hr_text :: string
  hr_values :: "json list"

definition ServeHTTP ::
  "('i, 'w) Endpoint \<Rightarrow> (raw \<Rightarrow> string) \<Rightarrow> string \<Rightarrow> Map \<Rightarrow> wire list \<Rightarrow> (nat \<Rightarrow> string option) \<Rightarrow> 'w
     \<Rightarrow> request_end \<times> http_reply \<times> 'w" where
  "ServeHTTP e text_of meth header body fails w =
     (if meth \<noteq> ''POST''
      then (Handled None, \<lparr>hr_status = 405,
              hr_header = Map_Set [] ''Content-Type'' ''text/plain; charset=utf-8'',
              hr_compressor = NoopCloser, hr_text = ''Method must be POST'' @ [CHR 0x0A], hr_values = []\<rparr>, w)
      else let (cw, h1) = CompressData [] header;
               h2 = Map_Set h1 ''Content-Type'' ''application/json; charset=utf-8'';
               en = \<lparr>sk_sent = [], sk_fail = fails\<rparr>;
               (fin, en1, w1) = (case body of
                  [] \<Rightarrow> (Handled None, en, w)
                | item # _ \<Rightarrow> handleRequest e text_of header item en w)
           in (fin, \<lparr>hr_status = 200, hr_header = h2, hr_compressor = cw, hr_text = [],
                     hr_values = sk_sent en1\<rparr>, w1))"

subsection \<open>Names\<close>

lemma Trim_slashes:
  assumes "s \<noteq> []" "hd s \<noteq> CHR ''/''" "last s \<noteq> CHR ''/''"
  shows "Trim (CHR ''/'' # s) ''/'' = s"
proof -
  have "trim_by (\<lambda>c. c \<in> set ''/'') (CHR ''/'' # s) = trim_by (\<lambda>c. c \<in> set ''/'') s"
    by (simp add: trim_by_def)
  also have "\<dots> = s" using assms by (intro trim_by_id) simp
  finally show ?thesis by (simp add: Trim_def)
qed

lemma parseServiceMethod_path:
  assumes "s \<noteq> []" "CHR ''/'' \<notin> set s" "m \<noteq> []" "last m \<noteq> CHR ''/''"
  shows "parseServiceMethod (''/'' @ s @ ''/'' @ m) = Inr (s, m)"
proof -
  have "hd s \<noteq> CHR ''/''" using assms(1,2) by (metis hd_in_set)
  then have "Trim (''/'' @ s @ ''/'' @ m) ''/'' = s @ ''/'' @ m"
    using Trim_slashes [of "s @ ''/'' @ m"] assms(1,3,4) by simp
  then show ?thesis using assms by (simp add: parseServiceMethod_def SplitN2_cut)
qed

subsection \<open>The shape of an answer\<close>

definition is_result :: "Response \<Rightarrow> bool" where
  "is_result r \<longleftrightarrow> rs_result r \<noteq> None \<and> rs_error r = None \<and> \<not> rs_success r"

definition is_error :: "Response \<Rightarrow> bool" where
  "is_error r \<longleftrightarrow> rs_result r = None \<and> rs_error r \<noteq> None \<and> \<not> rs_success r"

definition is_success :: "Response \<Rightarrow> bool" where
  "is_success r \<longleftrightarrow> rs_result r = None \<and> rs_error r = None \<and> rs_success r"

text \<open>A complete answer: in the streaming protocol some results and one end of the stream, an
  error or a success; otherwise one result or one error.\<close>

definition complete_answer :: "string \<Rightarrow> Response list \<Rightarrow> bool" where
  "complete_answer v rs \<longleftrightarrow>
     (if v = Version2Streaming
      then rs \<noteq> [] \<and> (\<forall>r \<in> set (butlast rs). is_result r) \<and> (is_error (last rs) \<or> is_success (last rs))
      else \<exists>r. rs = [r] \<and> (is_result r \<or> is_error r))"

definition stamp :: "Request \<Rightarrow> Response \<Rightarrow> Response" where
  "stamp req r = r\<lparr>rs_id := rq_id req, rs_version := rq_version req\<rparr>"

lemma stamp_simps [simp]:
  "rs_id (stamp req r) = rq_id req" "rs_version (stamp req r) = rq_version req"
  "is_result (stamp req r) = is_result r" "is_error (stamp req r) = is_error r"
  "is_success (stamp req r) = is_success r"
  by (simp_all add: stamp_def is_result_def is_error_def is_success_def)

lemma response_kinds [simp]:
  "is_result (empty_response\<lparr>rs_result := Some j\<rparr>)" "is_error (empty_response\<lparr>rs_error := Some e\<rparr>)"
  "is_success (empty_response\<lparr>rs_success := True\<rparr>)"
  by (simp_all add: is_result_def is_error_def is_success_def empty_response_def)

text \<open>A writer that has written the responses \<open>rs\<close> to a reliable sink after \<open>base\<close>.\<close>

definition wrote :: "sink \<Rightarrow> Response list \<Rightarrow> responseWriter \<Rightarrow> bool" where
  "wrote base rs wr \<longleftrightarrow> reliable base \<and> wr_results wr = length rs
     \<and> wr_en wr = base\<lparr>sk_sent := sk_sent base @ map encode_response rs\<rparr>"

lemma wrote_new: "reliable en \<Longrightarrow> wrote en [] (newResponseWriter en)"
  by (simp add: wrote_def newResponseWriter_def)

lemma wr_write_wrote:
  assumes "wrote base rs wr" "\<not> wr_finished wr" "rs = [] \<or> rq_version req = Version2Streaming"
  shows "\<exists>wr1. wr_write req r wr = (None, wr1) \<and> wrote base (rs @ [stamp req r]) wr1 \<and> \<not> wr_finished wr1"
  using assms by (auto simp: wr_write_def wrote_def sink_encode_def reliable_def Let_def stamp_def)

text \<open>Every way to end an answer completes it.\<close>

definition completes :: "Request \<Rightarrow> sink \<Rightarrow> string option \<times> responseWriter \<Rightarrow> bool" where
  "completes req base out \<longleftrightarrow> fst out = None \<and> (\<exists>rs. wrote base rs (snd out)
     \<and> complete_answer (rq_version req) rs
     \<and> (\<forall>r \<in> set rs. rs_id r = rq_id req \<and> rs_version r = rq_version req))"

definition open_answer :: "Request \<Rightarrow> sink \<Rightarrow> Response list \<Rightarrow> responseWriter \<Rightarrow> bool" where
  "open_answer req base rs wr \<longleftrightarrow> wrote base rs wr \<and> \<not> wr_finished wr
     \<and> (rs = [] \<or> rq_version req = Version2Streaming) \<and> (\<forall>r \<in> set rs. is_result r)
     \<and> (\<forall>r \<in> set rs. rs_id r = rq_id req \<and> rs_version r = rq_version req)"

lemma open_answer_new: "reliable en \<Longrightarrow> open_answer req en [] (newResponseWriter en)"
  by (simp add: open_answer_def wrote_new) (simp add: newResponseWriter_def)

lemma write_open:
  assumes "open_answer req base rs wr"
  shows "\<exists>wr1. wr_write req r wr = (None, wr1) \<and> wrote base (rs @ [stamp req r]) wr1 \<and> \<not> wr_finished wr1"
  using wr_write_wrote [of base rs wr req r] assms by (auto simp: open_answer_def)

lemma wrote_finished [simp]: "wrote base rs (wr\<lparr>wr_finished := b\<rparr>) = wrote base rs wr"
  by (simp add: wrote_def)

lemma pError_exact:
  "open_answer req base rs wr \<Longrightarrow> \<exists>wr1. wr_pError req e wr = (None, wr1)
     \<and> wrote base (rs @ [stamp req (empty_response\<lparr>rs_error := Some e\<rparr>)]) wr1"
  using write_open [of req base rs wr "empty_response\<lparr>rs_error := Some e\<rparr>"] by (auto simp: wr_pError_def)

lemma Success_exact:
  "open_answer req base rs wr \<Longrightarrow> \<exists>wr1. wr_Success req wr = (None, wr1)
     \<and> wrote base (rs @ [stamp req (empty_response\<lparr>rs_success := True\<rparr>)]) wr1"
  using write_open [of req base rs wr "empty_response\<lparr>rs_success := True\<rparr>"] by (auto simp: wr_Success_def)

lemma Result_exact:
  "open_answer req base rs wr \<Longrightarrow> \<exists>wr1. wr_Result req j wr = (None, wr1)
     \<and> wrote base (rs @ [stamp req (empty_response\<lparr>rs_result := Some j\<rparr>)]) wr1"
  using write_open [of req base rs wr "empty_response\<lparr>rs_result := Some j\<rparr>"] by (auto simp: wr_Result_def)

lemma completesI:
  assumes "\<exists>wr1. out = (None, wr1) \<and> wrote base (rs @ [stamp req r]) wr1" "open_answer req base rs wr"
    and "complete_answer (rq_version req) (rs @ [stamp req r])"
  shows "completes req base out"
  using assms by (auto simp: completes_def open_answer_def intro!: exI [of _ "rs @ [stamp req r]"])

lemma complete_answer_snoc:
  "open_answer req base rs wr \<Longrightarrow> is_error r \<Longrightarrow> complete_answer (rq_version req) (rs @ [stamp req r])"
  "open_answer req base rs wr \<Longrightarrow> is_success r \<Longrightarrow> rq_version req = Version2Streaming
     \<Longrightarrow> complete_answer (rq_version req) (rs @ [stamp req r])"
  by (auto simp: complete_answer_def open_answer_def)

lemma pError_completes: "open_answer req base rs wr \<Longrightarrow> completes req base (wr_pError req e wr)"
  by (rule completesI [OF pError_exact _ complete_answer_snoc(1)]) (assumption | simp)+

lemma Error_completes: "open_answer req base rs wr \<Longrightarrow> completes req base (wr_Error req code msg wr)"
  by (simp add: wr_Error_def pError_completes)

lemma recover_completes: "open_answer req base rs wr \<Longrightarrow> completes req base (recover_panic req p wr)"
  by (cases p) (simp_all add: recover_panic_def pError_completes Error_completes)

lemma handler_error_completes:
  "open_answer req base rs wr \<Longrightarrow> completes req base (write_handler_error req e wr)"
  by (cases e) (simp_all add: write_handler_error_def pError_completes Error_completes)

lemma Success_completes:
  "open_answer req base rs wr \<Longrightarrow> rq_version req = Version2Streaming \<Longrightarrow> completes req base (wr_Success req wr)"
  by (rule completesI [OF Success_exact _ complete_answer_snoc(2)]) (assumption | simp)+

lemma Result_completes:
  "open_answer req base [] wr \<Longrightarrow> rq_version req \<noteq> Version2Streaming \<Longrightarrow> completes req base (wr_Result req j wr)"
  by (rule completesI [OF Result_exact]) (simp_all add: complete_answer_def)

lemma stream_out_open:
  assumes "open_answer req base rs wr" "rq_version req = Version2Streaming"
  shows "\<exists>wr1. fold (stream_out req) outs (None, wr) = (None, wr1)
    \<and> open_answer req base (rs @ map (\<lambda>j. stamp req (empty_response\<lparr>rs_result := Some j\<rparr>)) outs) wr1"
  using assms(1)
proof (induction outs arbitrary: rs wr)
  case (Cons j outs)
  let ?r = "empty_response\<lparr>rs_result := Some j\<rparr>"
  obtain wr1 where w: "wr_write req ?r wr = (None, wr1)" "wrote base (rs @ [stamp req ?r]) wr1"
    "\<not> wr_finished wr1"
    using write_open [OF Cons.prems] by blast
  then have "open_answer req base (rs @ [stamp req ?r]) wr1"
    using Cons.prems assms(2) by (auto simp: open_answer_def)
  from Cons.IH [OF this] w(1) show ?case by (simp add: stream_out_def wr_Result_def)
qed simp

lemma Version_distinct [simp]:
  "Version2 \<noteq> Version2Streaming" "Version2Streaming \<noteq> Version2"
  by (simp_all add: Version2_def Version2Streaming_def)

lemma fold_snoc: "fold (\<lambda>x xs. xs @ [x]) outs acc = acc @ outs"
  by (induction outs arbitrary: acc) auto

text \<open>What \<open>Invoke\<close> passes on does not depend on who receives it.\<close>

definition run_method ::
  "('i, 'w) Method \<Rightarrow> Map \<Rightarrow> raw \<Rightarrow> 'w \<Rightarrow> json list \<times> handler_end \<times> 'w" where
  "run_method m ctx inp w =
     (case Invoke (Some m) ctx inp (\<lambda>result results. results @ [result]) [] w of
        (fin, outs, w1) \<Rightarrow> (outs, fin, w1))"

lemma Invoke_run_method:
  "Invoke (Some m) ctx inp out s w =
     (case run_method m ctx inp w of (outs, fin, w1) \<Rightarrow> (fin, fold out outs s, w1))"
  by (auto simp: run_method_def Invoke_def fold_snoc
      split: sum.splits prod.splits handler_end.splits option.splits)

lemma run_method_one:
  "run_method m ctx inp w = (outs, Returns None, w1) \<Longrightarrow> \<not> m_Stream m \<Longrightarrow> length outs = 1"
  by (auto simp: run_method_def Invoke_def split: sum.splits prod.splits handler_end.splits option.splits if_splits)

definition answers :: "Request \<Rightarrow> sink \<Rightarrow> 'w handled \<Rightarrow> bool" where
  "answers req base h \<longleftrightarrow> (case h of
     (Handled err, wr, _) \<Rightarrow> completes req base (err, wr) | (Fatal, _, _) \<Rightarrow> False)"

lemma answers_handled [simp]: "answers req base (handled r w) \<longleftrightarrow> completes req base r"
  by (cases r) (simp add: answers_def handled_def)

text \<open>Only a streaming method can end the process, with an output that cannot be encoded.\<close>

definition encodable :: "handler_end \<Rightarrow> bool" where
  "encodable fin \<longleftrightarrow> (\<forall>err. fin \<noteq> Unencodable err)"

lemma encodable_simps [simp]:
  "encodable (Returns r)" "encodable (Panics p)" "\<not> encodable (Unencodable err)"
  by (simp_all add: encodable_def)

definition run_encodable :: "('i, 'w) Method \<Rightarrow> Map \<Rightarrow> raw \<Rightarrow> 'w \<Rightarrow> bool" where
  "run_encodable m ctx inp w \<longleftrightarrow> encodable (fst (snd (run_method m ctx inp w)))"

lemma run_method_plain: "\<not> m_Stream m \<Longrightarrow> run_encodable m ctx inp w"
  by (auto simp: run_encodable_def run_method_def Invoke_def split: sum.splits prod.splits handler_end.splits option.splits)

lemma answer_v2_answers:
  assumes "open_answer req base [] wr" "rq_version req = Version2" "run_encodable m ctx (rq_params req) w"
  shows "answers req base (answer_v2 req m ctx wr w)"
proof -
  obtain outs fin w1 where r: "run_method m ctx (rq_params req) w = (outs, fin, w1)" by (metis prod.collapse)
  then have inv: "Invoke (Some m) ctx (rq_params req) (\<lambda>result results. results @ [result]) [] w
       = (fin, outs, w1)"
    by (simp add: Invoke_run_method fold_snoc)
  have i: "\<not> m_Stream m \<longrightarrow> fin = Returns None \<longrightarrow> length outs = 1" using run_method_one [of m ctx "rq_params req" w outs w1] r by auto
  show ?thesis
    using assms i r recover_completes handler_error_completes Result_completes
    by (auto simp: answer_v2_def inv run_encodable_def split: handler_end.splits option.splits)
qed

lemma answer_streaming_answers:
  assumes "open_answer req base [] wr" "rq_version req = Version2Streaming" "run_encodable m ctx (rq_params req) w"
  shows "answers req base (answer_streaming req m ctx wr w)"
proof -
  obtain outs fin w1 where r: "run_method m ctx (rq_params req) w = (outs, fin, w1)" by (metis prod.collapse)
  then have i: "Invoke (Some m) ctx (rq_params req) (stream_out req) (None, wr) w
       = (fin, fold (stream_out req) outs (None, wr), w1)" by (simp add: Invoke_run_method)
  obtain wr1 where o: "fold (stream_out req) outs (None, wr) = (None, wr1)"
    and op: "open_answer req base (map (\<lambda>j. stamp req (empty_response\<lparr>rs_result := Some j\<rparr>)) outs) wr1"
    using stream_out_open [OF assms(1,2), of outs] by auto
  show ?thesis
    using assms(2,3) r recover_completes [OF op] handler_error_completes [OF op] Success_completes [OF op]
    by (auto simp: answer_streaming_def i o run_encodable_def split: handler_end.splits option.splits)
qed

lemma open_answer_version:
  "open_answer req base [] wr \<Longrightarrow> open_answer (req\<lparr>rq_version := v\<rparr>) base [] wr"
  by (simp add: open_answer_def)

definition answers_some :: "Request \<Rightarrow> sink \<Rightarrow> 'w handled \<Rightarrow> bool" where
  "answers_some req base h \<longleftrightarrow> (\<exists>v. (v = rq_version req \<or> v = Version2)
     \<and> answers (req\<lparr>rq_version := v\<rparr>) base h)"

lemma answers_someI:
  "answers req base h \<Longrightarrow> answers_some req base h"
  "answers (req\<lparr>rq_version := Version2\<rparr>) base h \<Longrightarrow> answers_some req base h"
  unfolding answers_some_def by (intro exI [of _ "rq_version req"]; simp) blast

text \<open>A request that reaches a method: its id and version are valid and its method name, which is
  not of the built-in service, resolves.\<close>

definition reaches :: "('i, 'w) Endpoint \<Rightarrow> Request \<Rightarrow> ('i, 'w) Method \<Rightarrow> bool" where
  "reaches e req m \<longleftrightarrow> valid_id (rq_id req) \<and> (rq_version req = Version2 \<or> rq_version req = Version2Streaming)
     \<and> (\<exists>s n. parseServiceMethod (rq_method req) = Inr (s, n) \<and> s \<noteq> serverInfoService \<and> Resolve e s n = Inr m)"

lemma answer_answers:
  assumes "open_answer req base [] wr" "\<And>m. reaches e req m \<Longrightarrow> run_encodable m ctx (rq_params req) w"
  shows "answers_some req base (answer e text_of ctx req wr w)"
proof -
  let ?req2 = "req\<lparr>rq_version := Version2\<rparr>"
  note op = assms(1) open_answer_version [OF assms(1), of Version2]
  have err: "answers_some req base (handled (wr_Error req code msg wr) w)" for code msg
    using Error_completes [OF op(1)] by (intro answers_someI(1)) simp
  have info: "answers_some req base (handled (wr_Error ?req2 code msg wr) w)"
    "answers_some req base (handled (wr_Result ?req2 j wr) w)" for code msg j
    using Error_completes [OF op(2)] Result_completes [OF op(2)] by (intro answers_someI(2); simp)+
  have v2: "answers_some req base (answer_v2 ?req2 m ctx wr w)" if "\<not> m_Stream m" for m
    using run_method_plain [OF that] by (intro answers_someI(2) answer_v2_answers [OF op(2)]) simp_all
  have run: "answers_some req base (if rq_version req = Version2 then answer_v2 req m ctx wr w
        else answer_streaming req m ctx wr w)"
    if "\<not> (rq_version req \<noteq> Version2 \<and> rq_version req \<noteq> Version2Streaming)" "reaches e req m" for m
    using that(1) assms(2) [OF that(2)] answer_v2_answers [OF op(1)] answer_streaming_answers [OF op(1)]
    by (intro answers_someI(1)) auto
  show ?thesis
  proof (cases "CheckID text_of (rq_id req)")
    case None
    show ?thesis
    proof (cases "rq_version req \<noteq> Version2 \<and> rq_version req \<noteq> Version2Streaming")
      case False
      then show ?thesis
        using None err info v2 run CheckID_None_iff [of text_of "rq_id req"]
        by (cases "parseServiceMethod (rq_method req)")
          (auto simp: answer_def reaches_def Let_def split: sum.splits simp del: not_None_eq)
    qed (use None err in \<open>simp add: answer_def\<close>)
  qed (use err in \<open>simp add: answer_def\<close>)
qed

subsection \<open>What the method makes of the request\<close>

definition end_error :: "handler_end \<Rightarrow> Error" where
  "end_error fin = (case fin of
     Returns (Some (ProtoErr e)) \<Rightarrow> e
   | Returns (Some (PlainErr msg)) \<Rightarrow> \<lparr>e_code = ErrorApplication, e_message = msg, e_data = None\<rparr>
   | Returns None \<Rightarrow> empty_error
   | Panics (PanicProto e) \<Rightarrow> e
   | Panics (PanicError msg) \<Rightarrow> \<lparr>e_code = ErrorInternal, e_message = msg, e_data = None\<rparr>
   | Panics (PanicOther msg) \<Rightarrow> \<lparr>e_code = ErrorInternal, e_message = msg, e_data = None\<rparr>)"

definition result_response :: "json \<Rightarrow> Response" where
  "result_response j = empty_response\<lparr>rs_result := Some j\<rparr>"

definition error_response :: "Error \<Rightarrow> Response" where
  "error_response e = empty_response\<lparr>rs_error := Some e\<rparr>"

definition success_response :: Response where
  "success_response = empty_response\<lparr>rs_success := True\<rparr>"

text \<open>The specification of an answer: the results as they come and the end of the stream, or, in
  version 2, one response for all of it.\<close>

definition method_answer :: "string \<Rightarrow> bool \<Rightarrow> json list \<Rightarrow> handler_end \<Rightarrow> Response list" where
  "method_answer v streams outs fin =
     (if streams \<and> v = Version2Streaming
      then map result_response outs
        @ [if fin = Returns None then success_response else error_response (end_error fin)]
      else [if fin \<noteq> Returns None then error_response (end_error fin)
            else if streams then result_response (JArr outs) else result_response (hd outs)])"

text \<open>What is written of it: after an output that cannot be encoded nothing more.\<close>

definition method_wire :: "string \<Rightarrow> bool \<Rightarrow> json list \<Rightarrow> handler_end \<Rightarrow> Response list" where
  "method_wire v streams outs fin = (if encodable fin then method_answer v streams outs fin
     else if streams \<and> v = Version2Streaming then map result_response outs else [])"

definition method_end :: "handler_end \<Rightarrow> request_end" where
  "method_end fin = (if encodable fin then Handled None else Fatal)"

lemmas method_wire_simps = method_wire_def method_answer_def method_end_def

lemma fails_exact:
  assumes "open_answer req base rs wr"
  shows "\<exists>wr1. recover_panic req p wr = (None, wr1)
      \<and> wrote base (rs @ [stamp req (error_response (end_error (Panics p)))]) wr1"
    and "\<exists>wr1. write_handler_error req e wr = (None, wr1)
      \<and> wrote base (rs @ [stamp req (error_response (end_error (Returns (Some e))))]) wr1"
  using pError_exact [OF assms]
  by (cases p; simp add: recover_panic_def wr_Error_def end_error_def error_response_def)
    (use pError_exact [OF assms] in \<open>cases e; simp add: write_handler_error_def wr_Error_def end_error_def error_response_def\<close>)

lemma answer_v2_exact:
  assumes "open_answer req base [] wr" "rq_version req = Version2"
    and inv: "Invoke (Some m) ctx (rq_params req) (\<lambda>result results. results @ [result]) [] w = (fin, outs, w1)"
    and one: "\<not> m_Stream m \<longrightarrow> fin = Returns None \<longrightarrow> length outs = 1"
  shows "\<exists>wr1. answer_v2 req m ctx wr w = (method_end fin, wr1, w1)
    \<and> wrote base (map (stamp req) (method_wire Version2 (m_Stream m) outs fin)) wr1"
proof (cases fin)
  case (Panics p)
  with fails_exact(1) [OF assms(1), of p] show ?thesis
    by (auto simp: answer_v2_def inv handled_def method_wire_simps)
next
  case (Unencodable err)
  with assms(1) show ?thesis by (simp add: answer_v2_def inv method_wire_simps open_answer_def)
next
  case (Returns err)
  show ?thesis
  proof (cases err)
    case (Some e)
    with Returns fails_exact(2) [OF assms(1), of e] show ?thesis
      by (auto simp: answer_v2_def inv handled_def method_wire_simps)
  next
    case None
    then have "\<not> m_Stream m \<longrightarrow> length outs = 1" using one Returns by simp
    then have "\<not> m_Stream m \<longrightarrow> length outs = 1 \<and> hd outs = outs ! 0" by (cases outs) auto
    moreover obtain wr1 where "wr_Result req (if m_Stream m then JArr outs else outs ! 0) wr = (None, wr1)"
      "wrote base [stamp req (result_response (if m_Stream m then JArr outs else outs ! 0))] wr1"
      using Result_exact [OF assms(1), of "if m_Stream m then JArr outs else outs ! 0"]
      by (auto simp: result_response_def)
    ultimately show ?thesis
      using None Returns by (auto simp: answer_v2_def inv handled_def method_wire_simps)
  qed
qed

lemma answer_streaming_exact:
  assumes "open_answer req base [] wr" "rq_version req = Version2Streaming" "m_Stream m"
    and inv: "Invoke (Some m) ctx (rq_params req) (stream_out req) (None, wr) w
      = (fin, fold (stream_out req) outs (None, wr), w1)"
  shows "\<exists>wr1. answer_streaming req m ctx wr w = (method_end fin, wr1, w1)
    \<and> wrote base (map (stamp req) (method_wire Version2Streaming (m_Stream m) outs fin)) wr1"
proof -
  obtain wr1 where o: "fold (stream_out req) outs (None, wr) = (None, wr1)"
    and op: "open_answer req base (map (\<lambda>j. stamp req (result_response j)) outs) wr1"
    using stream_out_open [OF assms(1,2), of outs] by (auto simp: result_response_def)
  show ?thesis
  proof (cases fin)
    case (Panics p)
    with fails_exact(1) [OF op, of p] assms(3) show ?thesis
      by (auto simp: answer_streaming_def inv o handled_def method_wire_simps comp_def)
  next
    case (Unencodable err)
    with op assms(3) show ?thesis
      by (simp add: answer_streaming_def inv o method_wire_simps open_answer_def comp_def)
  next
    case (Returns err)
    show ?thesis
    proof (cases err)
      case None
      with Returns Success_exact [OF op] assms(3) show ?thesis
        by (auto simp: answer_streaming_def inv o handled_def method_wire_simps comp_def success_response_def)
    next
      case (Some e)
      with Returns fails_exact(2) [OF op, of e] assms(3) show ?thesis
        by (auto simp: answer_streaming_def inv o handled_def method_wire_simps comp_def)
    qed
  qed
qed

lemma handleRequest_run:
  assumes "reliable en" "reaches e req m" "run_method m ctx (rq_params req) w = (outs, fin, w1)"
  shows "handleRequest e text_of ctx (Value (encode_request req)) en w =
    (method_end fin, en\<lparr>sk_sent := sk_sent en
       @ map (\<lambda>r. encode_response (stamp (if m_Stream m then req else req\<lparr>rq_version := Version2\<rparr>) r))
           (method_wire (rq_version req) (m_Stream m) outs fin)\<rparr>, w1)"
proof -
  define req' where "req' = (if \<not> m_Stream m then req\<lparr>rq_version := Version2\<rparr> else req)"
  define wr where "wr = newResponseWriter en"
  have id: "CheckID text_of (rq_id req) = None" using assms(2) by (simp add: reaches_def CheckID_None_iff)
  have par: "rq_params req' = rq_params req" by (simp add: req'_def)
  have op: "open_answer req' en [] wr" unfolding wr_def by (rule open_answer_new [OF assms(1)])
  have ans: "answer e text_of ctx req wr w = (if rq_version req' = Version2 then answer_v2 req' m ctx wr w
      else answer_streaming req' m ctx wr w)"
    using assms(2) id by (auto simp: answer_def reaches_def req'_def Let_def)
  have v': "rq_version req' = Version2 \<or> (rq_version req' = Version2Streaming \<and> m_Stream m)"
    using assms(2) by (auto simp: reaches_def req'_def)
  have inv2: "Invoke (Some m) ctx (rq_params req') (\<lambda>result results. results @ [result]) [] w = (fin, outs, w1)"
    using assms(3) by (simp add: Invoke_run_method par fold_snoc)
  have invs: "Invoke (Some m) ctx (rq_params req') (stream_out req') (None, wr) w
      = (fin, fold (stream_out req') outs (None, wr), w1)"
    using assms(3) by (simp add: Invoke_run_method par)
  have one: "\<not> m_Stream m \<longrightarrow> fin = Returns None \<longrightarrow> length outs = 1"
    using run_method_one [of m ctx "rq_params req" w outs w1] assms(3) by auto
  have "method_wire (rq_version req') (m_Stream m) outs fin = method_wire (rq_version req) (m_Stream m) outs fin"
    by (auto simp: method_wire_simps req'_def)
  then obtain wr1 where "answer e text_of ctx req wr w = (method_end fin, wr1, w1)"
    "wrote en (map (stamp req') (method_wire (rq_version req) (m_Stream m) outs fin)) wr1"
    using v' answer_v2_exact [OF op _ inv2 one] answer_streaming_exact [OF op _ _ invs] unfolding ans
    by (metis Version_distinct(2))
  then show ?thesis
    by (auto simp: handleRequest_def decode_encode_request Let_def wrote_def wr_def [symmetric] req'_def comp_def
        split: if_splits)
qed

lemma handleRequest_method:
  assumes "reliable en" "reaches e req m" "run_method m ctx (rq_params req) w = (outs, fin, w1)" "encodable fin"
  shows "handleRequest e text_of ctx (Value (encode_request req)) en w =
    (Handled None, en\<lparr>sk_sent := sk_sent en
       @ map (\<lambda>r. encode_response (stamp (if m_Stream m then req else req\<lparr>rq_version := Version2\<rparr>) r))
           (method_answer (rq_version req) (m_Stream m) outs fin)\<rparr>, w1)"
  using handleRequest_run [OF assms(1-3), of text_of] assms(4) by (simp add: method_wire_def method_end_def)

subsection \<open>Properties\<close>

text \<open>The request the server understood, even when decoding it failed half-way.\<close>

definition understood :: "wire \<Rightarrow> Request" where
  "understood item = (case item of Value j \<Rightarrow> fst (decode_request j) | Garbage _ \<Rightarrow> empty_request)"

definition decodes :: "wire \<Rightarrow> bool" where
  "decodes item \<longleftrightarrow> (\<exists>j. item = Value j \<and> snd (decode_request j) = None)"

text \<open>An answer to a request: complete in the protocol version of the request or in version 2,
  every response stamped with its id and that version.\<close>

definition answers_request :: "wire \<Rightarrow> Response list \<Rightarrow> bool" where
  "answers_request item rs \<longleftrightarrow> (\<exists>v. (v = rq_version (understood item) \<or> v = Version2)
     \<and> complete_answer v rs
     \<and> (\<forall>r \<in> set rs. rs_id r = rq_id (understood item) \<and> rs_version r = v))"

text \<open>The item is a request that reaches no method, or a method all whose outputs can be encoded.\<close>

definition item_encodable :: "('i, 'w) Endpoint \<Rightarrow> Map \<Rightarrow> wire \<Rightarrow> 'w \<Rightarrow> bool" where
  "item_encodable e ctx item w \<longleftrightarrow> (decodes item \<longrightarrow>
     (\<forall>m. reaches e (understood item) m \<longrightarrow> run_encodable m ctx (rq_params (understood item)) w))"

lemma handleRequest_answers:
  assumes "reliable en" "item_encodable e ctx item w"
  obtains rs w' err where
    "handleRequest e text_of ctx item en w =
       (Handled err, en\<lparr>sk_sent := sk_sent en @ map encode_response rs\<rparr>, w')"
    "answers_request item rs" "err = None \<longleftrightarrow> decodes item"
proof (cases "decodes item")
  case True
  then obtain j where j: "item = Value j" "decode_request j = (understood item, None)"
    by (auto simp: decodes_def understood_def) (metis prod.collapse)
  let ?h = "answer e text_of ctx (understood item) (newResponseWriter en) w"
  have "answers_some (understood item) en ?h"
    using assms(2) True by (intro answer_answers [OF open_answer_new [OF assms(1)]]) (simp add: item_encodable_def)
  then obtain v where v: "v = rq_version (understood item) \<or> v = Version2"
    "answers ((understood item)\<lparr>rq_version := v\<rparr>) en ?h"
    unfolding answers_some_def by (elim exE conjE)
  obtain fin wr w1 where h: "?h = (fin, wr, w1)" by (cases ?h) auto
  with v(2) obtain rs where rs: "fin = Handled None" "wrote en rs wr" "complete_answer v rs"
    "\<forall>r \<in> set rs. rs_id r = rq_id (understood item) \<and> rs_version r = v"
    by (cases fin) (auto simp: answers_def completes_def)
  show ?thesis
  proof (rule that [of None rs w1])
    show "handleRequest e text_of ctx item en w =
       (Handled None, en\<lparr>sk_sent := sk_sent en @ map encode_response rs\<rparr>, w1)"
      using h rs(1,2) by (simp add: handleRequest_def j Let_def wrote_def)
    show "answers_request item rs" using v(1) rs(3,4) by (auto simp: answers_request_def)
  qed (simp add: True)
next
  case False
  then obtain err where err: "(case item of Value j \<Rightarrow> decode_request j
       | Garbage err \<Rightarrow> (empty_request, Some err)) = (understood item, Some err)"
    by (cases item) (auto simp: decodes_def understood_def, metis not_Some_eq prod.collapse)
  have c: "completes (understood item) en
      (wr_Error (understood item) ErrorParsing (''error decoding JSON: '' @ err) (newResponseWriter en))"
    by (rule Error_completes [OF open_answer_new [OF assms(1)]])
  then obtain wr rs where w: "wr_Error (understood item) ErrorParsing (''error decoding JSON: '' @ err)
        (newResponseWriter en) = (None, wr)" "wrote en rs wr"
      "complete_answer (rq_version (understood item)) rs"
      "\<forall>r \<in> set rs. rs_id r = rq_id (understood item) \<and> rs_version r = rq_version (understood item)"
    unfolding completes_def by (metis prod.collapse)
  show ?thesis
  proof (rule that [of "Some err" rs w])
    show "handleRequest e text_of ctx item en w =
       (Handled (Some err), en\<lparr>sk_sent := sk_sent en @ map encode_response rs\<rparr>, w)"
      using w(1,2) by (simp add: handleRequest_def err Let_def wrote_def)
    show "answers_request item rs" using w(3,4) by (auto simp: answers_request_def)
  qed (simp add: False)
qed


definition an_endpoint :: "(json, unit) Endpoint" where
  "an_endpoint = [\<lparr>s_Name = ''EchoService'', s_Methods = [echo_impl True]\<rparr>]"

definition a_sink :: sink where "a_sink = \<lparr>sk_sent = [], sk_fail = (\<lambda>n. None)\<rparr>"

definition echo_request :: "string \<Rightarrow> json \<Rightarrow> Request" where
  "echo_request v j = \<lparr>rq_version = v, rq_id = Some (JInt 1), rq_method = ''/EchoService/Echo'',
                       rq_params = Some j\<rparr>"

lemma reliable_a_sink [simp]: "reliable a_sink" by (simp add: reliable_def a_sink_def)


text \<open>Methods whose outputs can all be encoded, whatever they are given.\<close>

definition encodes_all :: "('i, 'w) Endpoint \<Rightarrow> bool" where
  "encodes_all e \<longleftrightarrow> (\<forall>s \<in> set e. \<forall>m \<in> set (s_Methods s). \<forall>ctx inp w. run_encodable m ctx inp w)"

lemma encodes_all_item: "encodes_all e \<Longrightarrow> item_encodable e ctx item w"
  by (fastforce simp: encodes_all_def item_encodable_def reaches_def Resolve_def
      dest: first_such_SomeD Service_Method_SomeD split: option.splits)

text \<open>Serving a stream of requests over a working connection writes one complete answer per
  request, in order, up to and including the first request that does not decode, and stops
  there with its error, or ends normally when there is none.\<close>

theorem ServePipes_answers:
  assumes "reliable en" "encodes_all e"
  shows "\<exists>ans err w'. ServePipes e text_of ctx items en w =
      (Handled err, en\<lparr>sk_sent := sk_sent en @ concat (map (map encode_response) ans)\<rparr>, w')
    \<and> list_all2 answers_request (take (length ans) items) ans
    \<and> length ans = (if list_all decodes items then length items
                        else Suc (length (takeWhile decodes items)))
    \<and> (err = None \<longleftrightarrow> list_all decodes items)"
  using assms(1)
proof (induction items arbitrary: en w)
  case (Cons item items)
  obtain rs w1 err where h: "handleRequest e text_of ctx item en w =
       (Handled err, en\<lparr>sk_sent := sk_sent en @ map encode_response rs\<rparr>, w1)"
      "answers_request item rs" "err = None \<longleftrightarrow> decodes item"
    by (rule handleRequest_answers [OF Cons.prems encodes_all_item [OF assms(2)]])
  show ?case
  proof (cases err)
    case None
    let ?en = "en\<lparr>sk_sent := sk_sent en @ map encode_response rs\<rparr>"
    have "reliable ?en" using Cons.prems by (simp add: reliable_def)
    from Cons.IH [OF this, of w1] obtain as er w' where
      "ServePipes e text_of ctx items ?en w1 =
        (Handled er, ?en\<lparr>sk_sent := sk_sent ?en @ concat (map (map encode_response) as)\<rparr>, w')"
      "list_all2 answers_request (take (length as) items) as"
      "length as = (if list_all decodes items then length items else Suc (length (takeWhile decodes items)))"
      "er = None \<longleftrightarrow> list_all decodes items" by blast
    with h None show ?thesis by (intro exI [of _ "rs # as"] exI [of _ er] exI [of _ w']) simp
  next
    case (Some e2)
    with h show ?thesis by (intro exI [of _ "[rs]"] exI [of _ err] exI [of _ w1]) simp
  qed
qed (auto intro: exI [of _ "[]"])

theorem ServePipes_answers_witness:
  "\<exists>ans err w'. ServePipes an_endpoint (\<lambda>r. []) []
      [Value (encode_request (echo_request Version2Streaming (JInt 5))), Garbage ''unexpected EOF''] a_sink ()
      = (Handled err, a_sink\<lparr>sk_sent := sk_sent a_sink @ concat (map (map encode_response) ans)\<rparr>, w')
    \<and> length ans = 2 \<and> err \<noteq> None"
proof -
  have "\<not> decodes (Garbage ''unexpected EOF'')"
    "decodes (Value (encode_request (echo_request Version2Streaming (JInt 5))))"
    by (simp_all add: decodes_def decode_encode_request)
  moreover have "encodes_all an_endpoint"
    by (auto simp: encodes_all_def an_endpoint_def run_encodable_def run_method_def Invoke_def decode_input_def echo_impl_def
        split: option.splits)
  ultimately obtain as err w' where
    "ServePipes an_endpoint (\<lambda>r. []) []
      [Value (encode_request (echo_request Version2Streaming (JInt 5))), Garbage ''unexpected EOF''] a_sink ()
      = (Handled err, a_sink\<lparr>sk_sent := sk_sent a_sink @ concat (map (map encode_response) as)\<rparr>, w')"
    "length as = 2" "err \<noteq> None"
    using ServePipes_answers [OF reliable_a_sink, of an_endpoint "\<lambda>r. []" "[]"
      "[Value (encode_request (echo_request Version2Streaming (JInt 5))), Garbage ''unexpected EOF'']" "()"]
    by auto
  then show ?thesis by blast
qed

text \<open>C14: a request that reaches a method is answered with exactly what the method makes of it: in
  the streaming protocol its results in order and then success or its error, otherwise its one
  result, or the array of its results, or its error; a panic of the handler is such an error, and what
  was sent before it was passed on (\<open>StreamCalls\<close> has the other schedules).  After an output of a stream that
  cannot be encoded, nothing more is written, and the process ends.\<close>

theorem handleRequest_exact:
  assumes "reliable en" "reaches e req m" "run_method m ctx (rq_params req) w = (outs, fin, w1)"
  shows "handleRequest e text_of ctx (Value (encode_request req)) en w =
    (if encodable fin then Handled None else Fatal, en\<lparr>sk_sent := sk_sent en
       @ map (\<lambda>r. encode_response (stamp (if m_Stream m then req else req\<lparr>rq_version := Version2\<rparr>) r))
           (if encodable fin then method_answer (rq_version req) (m_Stream m) outs fin
            else if rq_version req = Version2Streaming then map result_response outs else [])\<rparr>, w1)"
proof -
  have "encodable fin \<or> m_Stream m"
    using run_method_plain [of m ctx "rq_params req" w] assms(3) by (auto simp: run_encodable_def)
  then show ?thesis
    using handleRequest_run [OF assms, of text_of] by (auto simp: method_wire_def method_end_def)
qed

lemma echo_reaches:
  "reaches an_endpoint (echo_request Version2Streaming j) (echo_impl True)"
  by (auto simp: reaches_def echo_request_def valid_id_def parseServiceMethod_def Trim_def trim_by_def
      SplitN2_def serverInfoService_def Resolve_def an_endpoint_def Service_Method_def echo_impl_def)

lemma echo_run: "run_method (echo_impl True) ctx (Some j) w = ([j, j], Returns None, w)"
  by (simp add: run_method_def Invoke_def decode_input_def echo_impl_def)

theorem handleRequest_exact_witness:
  "\<exists>en'. handleRequest an_endpoint (\<lambda>r. []) [] (Value (encode_request (echo_request Version2Streaming (JInt 5)))) a_sink ()
    = (Handled None, en', ()) \<and> length (sk_sent en') = 3"
proof -
  have "run_method (echo_impl True) [] (rq_params (echo_request Version2Streaming (JInt 5))) ()
      = ([JInt 5, JInt 5], Returns None, ())"
    by (simp add: echo_request_def echo_run)
  from handleRequest_exact [OF reliable_a_sink echo_reaches this, of "\<lambda>r. []"]
  show ?thesis
    by (simp add: method_answer_def echo_request_def echo_impl_def a_sink_def)
qed

end
