(* ===== verification/Client.thy ===== *)
theory Client
  imports Endpoint "HOL-Library.Word"
begin

text \<open>
  \<open>shipshape/util/rpc/client/client.go\<close>: the client side of the protocol.

  A response stream is the list of what its JSON decoder finds, or a panic when reading it
  panics.  A transport sends a request and returns a stream or an error; \<open>httpTransport\<close> does so
  over HTTP, with the network as a parameter.  The result of a call is unmarshalled by a function
  of the caller, as \<open>json.Unmarshal\<close> does into the value it is given.
\<close>

subsection \<open>Requests\<close>

text \<open>\<open>params\<close> is what \<open>json.Marshal\<close> makes of the parameters, an error or a tree.  The id is
  an unsigned 64-bit counter, incremented before it is used.\<close>

definition encodeRequest ::
  "string \<Rightarrow> 64 word \<Rightarrow> string \<Rightarrow> string + json \<Rightarrow> (string + json) \<times> 64 word" where
  "encodeRequest version i serviceMethod params =
     (case params of
        Inl err \<Rightarrow> (Inl (''error encoding params: '' @ err), i)
      | Inr data \<Rightarrow>
          let i = i + 1
          in (Inr (encode_request \<lparr>rq_version = version, rq_id = Some (JInt (uint i)),
                                   rq_method = serviceMethod, rq_params = Some data\<rparr>), i))"

type_synonym stream = "wire list go"

record 't transport =
  SendRequest :: "string \<Rightarrow> string \<Rightarrow> string + json \<Rightarrow> 't \<Rightarrow> (string + stream) \<times> 't"

subsection \<open>HTTP\<close>

record http_response =
  hp_status :: int
  hp_header :: Map
  hp_body :: contents

record 'n httpTransport =
  ht_host :: string
  ht_id :: "64 word"
  ht_net :: 'n

record 'n network =
  nw_Do :: "string \<Rightarrow> string \<Rightarrow> 'n \<Rightarrow> (string + http_response) \<times> 'n"
  nw_codecs :: codecs

definition send_http ::
  "'n network \<Rightarrow> string \<Rightarrow> string \<Rightarrow> string + json \<Rightarrow> 'n httpTransport
     \<Rightarrow> (string + body_reader) \<times> 'n httpTransport" where
  "send_http nw version serviceMethod params c =
     (case encodeRequest version (ht_id c) serviceMethod params of
        (Inl err, i) \<Rightarrow> (Inl err, c\<lparr>ht_id := i\<rparr>)
      | (Inr req, i) \<Rightarrow>
          (case nw_Do nw (ht_host c) (json_text req) (ht_net c) of (res, net) \<Rightarrow>
             let c = c\<lparr>ht_id := i, ht_net := net\<rparr>
             in case res of
                  Inl err \<Rightarrow> (Inl (''HTTP failure: '' @ err), c)
                | Inr resp \<Rightarrow>
                    if hp_status resp \<noteq> 200 then
                      (case hp_body resp of
                         (message, Some err) \<Rightarrow>
                           (Inl (''error reading rpc/client.Request error response body: '' @ err), c)
                       | (message, None) \<Rightarrow> (Inl (''RPC error: '' @ Quote message), c))
                    else (UncompressData (nw_codecs nw) (hp_header resp) (hp_body resp), c)))"

text \<open>What the JSON decoder the callers put on the body finds in it.\<close>

definition body_values :: "body_reader \<Rightarrow> stream" where
  "body_values body = go_bind (read_body body) (\<lambda>b. Ret (decoded b))"

definition httpTransport_SendRequest ::
  "'n network \<Rightarrow> string \<Rightarrow> string \<Rightarrow> string + json \<Rightarrow> 'n httpTransport
     \<Rightarrow> (string + stream) \<times> 'n httpTransport" where
  "httpTransport_SendRequest nw version serviceMethod params c =
     (case send_http nw version serviceMethod params c of (res, c1) \<Rightarrow> (map_sum id body_values res, c1))"

definition http_transport :: "'n network \<Rightarrow> 'n httpTransport transport" where
  "http_transport nw = \<lparr>SendRequest = httpTransport_SendRequest nw\<rparr>"

definition NewHTTPClient :: "string \<Rightarrow> 'n \<Rightarrow> 'n httpTransport" where
  "NewHTTPClient addr net = \<lparr>ht_host = addr, ht_id = 0, ht_net = net\<rparr>"

text \<open>\<open>^.*:[[:digit:]]+$\<close>: no line break, and digits after the last colon.\<close>

definition ValidHTTPAddr :: "string \<Rightarrow> bool" where
  "ValidHTTPAddr addr \<longleftrightarrow>
     (let port = rev (takeWhile is_digit (rev addr)); host = rev (dropWhile is_digit (rev addr))
      in port \<noteq> [] \<and> host \<noteq> [] \<and> last host = CHR '':'' \<and> CHR 0x0A \<notin> set host)"

subsection \<open>Reading results\<close>

text \<open>\<open>EOF\<close> is \<open>io.EOF\<close>; \<open>Remote\<close> is an error the server sent.\<close>

datatype client_error = EOF | Local string | Remote Error

fun client_error_text :: "client_error \<Rightarrow> string" where
  "client_error_text EOF = ''EOF''"
| "client_error_text (Local err) = err"
| "client_error_text (Remote e) = Error_Error e"

text \<open>One response is read off the stream; a result is unmarshalled into the caller's value.\<close>

definition unmarshal_raw :: "(json \<Rightarrow> string + 'r) \<Rightarrow> raw \<Rightarrow> string + 'r" where
  "unmarshal_raw unm r = (case r of None \<Rightarrow> Inl ''unexpected end of JSON input'' | Some j \<Rightarrow> unm j)"

definition unmarshalResult ::
  "(json \<Rightarrow> string + 'r) \<Rightarrow> wire list \<Rightarrow> (client_error + (Response \<times> 'r option)) \<times> wire list" where
  "unmarshalResult unm dec =
     (let (r, rest) = (case dec of
          [] \<Rightarrow> (Inl ''EOF'', [])
        | Garbage err # rest \<Rightarrow> (Inl err, rest)
        | Value j # rest \<Rightarrow> (case decode_response j of
            (resp, None) \<Rightarrow> (Inr resp, rest) | (_, Some err) \<Rightarrow> (Inl err, rest)))
      in (case r of
            Inl err \<Rightarrow> Inl (Local (''error decoding JSON-RPC response: '' @ err))
          | Inr resp \<Rightarrow>
              (case rs_error resp of
                 Some e \<Rightarrow> Inl (Remote e)
               | None \<Rightarrow>
                   if rs_success resp then Inr (resp, None)
                   else (case unmarshal_raw unm (rs_result resp) of
                           Inl err \<Rightarrow> Inl (Local (''error unmarshalling result: '' @ err))
                         | Inr v \<Rightarrow> Inr (resp, Some v))), rest))"

text \<open>The value \<open>Call\<close> leaves in its result: \<open>Some v\<close> when a result was unmarshalled.\<close>

definition Call ::
  "'t transport \<Rightarrow> (json \<Rightarrow> string + 'r) \<Rightarrow> string \<Rightarrow> string + json \<Rightarrow> 't
     \<Rightarrow> (client_error + 'r option) go \<times> 't" where
  "Call tr unm serviceMethod params t =
     (case SendRequest tr Version2 serviceMethod params t of
        (Inl err, t1) \<Rightarrow> (Ret (Inl (Local err)), t1)
      | (Inr resp, t1) \<Rightarrow>
          (go_bind resp (\<lambda>dec. Ret (case fst (unmarshalResult unm dec) of
             Inl err \<Rightarrow> Inl err | Inr (_, v) \<Rightarrow> Inr v)), t1))"

record Reader =
  rd_dec :: stream
  rd_err :: "client_error option"

text \<open>\<open>NextResult\<close>: the value unmarshalled and the error returned, on the reader it leaves.\<close>

definition NextResult ::
  "(json \<Rightarrow> string + 'r) \<Rightarrow> Reader \<Rightarrow> (('r option \<times> client_error option) \<times> Reader) go" where
  "NextResult unm r =
     (case rd_err r of
        Some err \<Rightarrow> Ret ((None, Some err), r)
      | None \<Rightarrow>
          go_bind (rd_dec r) (\<lambda>dec.
            case unmarshalResult unm dec of (res, rest) \<Rightarrow>
              let r = r\<lparr>rd_dec := Ret rest\<rparr>
              in case res of
                   Inl err \<Rightarrow> Ret ((None, Some err), r\<lparr>rd_err := Some err\<rparr>)
                 | Inr (resp, v) \<Rightarrow>
                     if rs_version resp = Version2 then Ret ((v, None), r\<lparr>rd_err := Some EOF\<rparr>)
                     else if rs_success resp then Ret ((v, Some EOF), r\<lparr>rd_err := Some EOF\<rparr>)
                     else Ret ((v, None), r)))"

definition Stream ::
  "'t transport \<Rightarrow> string \<Rightarrow> string + json \<Rightarrow> 't \<Rightarrow> Reader \<times> 't" where
  "Stream tr serviceMethod params t =
     (case SendRequest tr Version2Streaming serviceMethod params t of
        (Inl err, t1) \<Rightarrow> (\<lparr>rd_dec = Ret [], rd_err = Some (Local err)\<rparr>, t1)
      | (Inr resp, t1) \<Rightarrow> (\<lparr>rd_dec = resp, rd_err = None\<rparr>, t1))"

text \<open>The loop every caller of a \<open>Reader\<close> runs: take results until an error.\<close>

fun drain :: "(json \<Rightarrow> string + 'r) \<Rightarrow> nat \<Rightarrow> Reader \<Rightarrow> ('r option list \<times> client_error option) go" where
  "drain unm 0 r = Ret ([], None)"
| "drain unm (Suc n) r =
     go_bind (NextResult unm r) (\<lambda>((v, err), r1).
       case err of
         Some e \<Rightarrow> Ret ([], Some e)
       | None \<Rightarrow> go_bind (drain unm n r1) (\<lambda>(vs, e). Ret (v # vs, e)))"

text \<open>Each result that is taken makes the stream shorter.\<close>

definition stream_left :: "Reader \<Rightarrow> nat" where
  "stream_left r = (case rd_dec r of Ret dec \<Rightarrow> length dec | Panic _ \<Rightarrow> 0)"

lemma unmarshalResult_rest: "snd (unmarshalResult unm dec) = tl dec"
  by (simp add: unmarshalResult_def Let_def split: list.splits wire.splits prod.splits option.splits)

lemma unmarshalResult_Nil: "\<exists>err. fst (unmarshalResult unm []) = Inl err"
  by (simp add: unmarshalResult_def)

lemma NextResult_consumes:
  assumes "NextResult unm r = Ret ((v, None), r1)"
  shows "stream_left r1 < stream_left r"
proof -
  have e: "rd_err r = None" using assms by (cases "rd_err r") (simp_all add: NextResult_def)
  then obtain dec where d: "rd_dec r = Ret dec"
    using assms by (cases "rd_dec r") (simp_all add: NextResult_def)
  obtain res rest where u: "unmarshalResult unm dec = (res, rest)" by (cases "unmarshalResult unm dec")
  then obtain resp v' where res: "res = Inr (resp, v')"
    using assms e d by (cases res) (auto simp: NextResult_def Let_def)
  then have "dec \<noteq> []" using unmarshalResult_Nil [of unm] u by (metis Inl_Inr_False fst_conv)
  moreover have "rest = tl dec" using unmarshalResult_rest [of unm dec] u by simp
  moreover have "rd_dec r1 = Ret rest"
    using assms e d u res by (auto simp: NextResult_def Let_def split: if_splits)
  ultimately show ?thesis using d by (simp add: stream_left_def)
qed

subsection \<open>Pipes\<close>

text \<open>\<open>Receive\<close> calls \<open>f\<close>, which works on a state \<open>'s\<close> and says whether to go on, with
  the unmarshalled value, the id, the error and the success flag of every response.\<close>

fun Receive ::
  "(raw \<Rightarrow> string) \<Rightarrow> (json \<Rightarrow> string + 'r) \<Rightarrow> ('r option \<Rightarrow> raw \<Rightarrow> Error option \<Rightarrow> bool \<Rightarrow> 's \<Rightarrow> bool \<times> 's)
     \<Rightarrow> wire list \<Rightarrow> 's \<Rightarrow> string option \<times> 's" where
  "Receive text_of unm f [] s = (None, s)"
| "Receive text_of unm f (Garbage err # dec) s = (Some err, s)"
| "Receive text_of unm f (Value j # dec) s =
     (case decode_response j of
        (_, Some err) \<Rightarrow> (Some err, s)
      | (resp, None) \<Rightarrow>
          (case CheckID text_of (rs_id resp) of
             Some err \<Rightarrow> (Some err, s)
           | None \<Rightarrow>
               (case (if rs_error resp = None \<and> \<not> rs_success resp
                      then map_sum id Some (unmarshal_raw unm (rs_result resp)) else Inr None) of
                  Inl err \<Rightarrow> (Some (''error unmarshalling result: '' @ err), s)
                | Inr v \<Rightarrow>
                    (case f v (rs_id resp) (rs_error resp) (rs_success resp) s of
                       (False, s1) \<Rightarrow> (None, s1)
                     | (True, s1) \<Rightarrow> Receive text_of unm f dec s1))))"

text \<open>A \<open>PipeReader\<close> is the decoder on its input.\<close>

definition NewPipeReader :: "contents \<Rightarrow> wire list" where
  "NewPipeReader r = decoded r"

record PipeWriter =
  pw_w :: sink
  pw_id :: "64 word"

definition NewPipeWriter :: "sink \<Rightarrow> PipeWriter" where
  "NewPipeWriter w = \<lparr>pw_w = w, pw_id = 0\<rparr>"

definition Send :: "string \<Rightarrow> string + json \<Rightarrow> PipeWriter \<Rightarrow> string option \<times> PipeWriter" where
  "Send serviceMethod params c =
     (case encodeRequest Version2Streaming (pw_id c) serviceMethod params of
        (Inl err, i) \<Rightarrow> (Some err, c\<lparr>pw_id := i\<rparr>)
      | (Inr req, i) \<Rightarrow>
          (case sink_encode req (pw_w c) of
             (Some err, w) \<Rightarrow> (Some (''error writing request: '' @ err), c\<lparr>pw_w := w, pw_id := i\<rparr>)
           | (None, w) \<Rightarrow> (None, c\<lparr>pw_w := w, pw_id := i\<rparr>)))"

subsection \<open>Waiting for a server\<close>

text \<open>
  The clock and the call to \<open>/ServerInfo/List\<close> work on a world \<open>'w\<close>; times are in
  nanoseconds.  The loop need not end, so it is a partial function: \<open>None\<close> is never returning.
\<close>

record 'w clock =
  Now :: "'w \<Rightarrow> int"
  Sleep :: "int \<Rightarrow> 'w \<Rightarrow> 'w"
  Ping :: "'w \<Rightarrow> string option \<times> 'w"

definition maxInterval :: int where "maxInterval = 25 * 10 ^ 9"
definition firstInterval :: int where "firstInterval = 800 * 10 ^ 3"

definition next_interval :: "int \<Rightarrow> int" where
  "next_interval ival = (if ival \<le> maxInterval then ival * 2 else ival)"

definition timeout_error :: "string option \<Rightarrow> string" where
  "timeout_error lastErr = ''service did not respond before timeout: ''
     @ (case lastErr of None \<Rightarrow> ''<nil>'' | Some e \<Rightarrow> e)"

partial_function (option) wait_loop ::
  "'w clock \<Rightarrow> int \<Rightarrow> int \<Rightarrow> int \<Rightarrow> string option \<Rightarrow> 'w \<Rightarrow> (string option \<times> 'w) option" where
  "wait_loop clk timeout start ival lastErr w =
     (if timeout = 0 \<or> Now clk w - start < timeout then
        (case Ping clk w of
           (None, w1) \<Rightarrow> Some (None, w1)
         | (Some err, w1) \<Rightarrow>
             wait_loop clk timeout start (next_interval ival) (Some err) (Sleep clk ival w1))
      else Some (Some (timeout_error lastErr), w))"

definition WaitUntilReady :: "'w clock \<Rightarrow> int \<Rightarrow> 'w \<Rightarrow> (string option \<times> 'w) option" where
  "WaitUntilReady clk timeout w = wait_loop clk timeout (Now clk w) firstInterval None w"

subsection \<open>The cache of clients\<close>

text \<open>\<open>getHTTPClient\<close> of \<open>shipshape/service/driver.go\<close>.\<close>

definition getHTTPClient ::
  "'n \<Rightarrow> string \<Rightarrow> 'n httpTransport go_map \<Rightarrow> 'n httpTransport \<times> 'n httpTransport go_map" where
  "getHTTPClient net addr clients =
     (case map_of clients addr of
        Some c \<Rightarrow> (c, clients)
      | None \<Rightarrow> let c = NewHTTPClient addr net in (c, AList.update addr c clients))"

lemma getHTTPClient_address:
  assumes "\<And>a c. map_of clients a = Some c \<Longrightarrow> ht_host c = a"
    and "getHTTPClient net addr clients = (c, clients')"
  shows "ht_host c = addr" "\<And>a c. map_of clients' a = Some c \<Longrightarrow> ht_host c = a"
    "map_of clients' addr = Some c"
  using assms by (auto simp: getHTTPClient_def NewHTTPClient_def update_conv' Let_def split: option.splits if_splits)

subsection \<open>A client and a server\<close>

text \<open>
  The network that leads to an endpoint served over HTTP: the request is posted with the headers
  the client sets, the server decodes its body, and the text of the answer is compressed for the way back.
  A server whose process ends takes the connection with it; of what it had written nothing is taken to
  arrive.
\<close>

definition client_header :: Map where
  "client_header = [(''Content-Type'', ''application/json''), (''Accept-Encoding'', ''gzip'')]"

definition no_failure :: "nat \<Rightarrow> string option" where
  "no_failure n = None"

definition server_network ::
  "('i, 'w) Endpoint \<Rightarrow> (raw \<Rightarrow> string) \<Rightarrow> codecs \<Rightarrow> 'w network" where
  "server_network e text_of c =
     \<lparr>nw_Do = (\<lambda>host req w.
        case ServeHTTP e text_of ''POST'' client_header (decoded (req, None)) no_failure w of
          (Fatal, reply, w1) \<Rightarrow> (Inl ''EOF'', w1)
        | (Handled _, reply, w1) \<Rightarrow>
            (Inr \<lparr>hp_status = hr_status reply, hp_header = hr_header reply,
                  hp_body = (compressed c (hr_compressor reply) (encoded (hr_values reply)), None)\<rparr>, w1)),
      nw_codecs = c\<rparr>"

text \<open>The request number \<open>i + 1\<close> of a client.\<close>

definition client_request :: "string \<Rightarrow> 64 word \<Rightarrow> string \<Rightarrow> json \<Rightarrow> Request" where
  "client_request v i path j = \<lparr>rq_version = v, rq_id = Some (JInt (uint (i + 1))), rq_method = path,
                                rq_params = Some j\<rparr>"

lemma decoded_encode_request: "decoded (json_text (encode_request req), None) = [Value (encode_request req)]"
  unfolding encode_request_def by (rule decoded_object)

lemma ServeHTTP_client:
  assumes "reaches e req m" "run_method m client_header (rq_params req) w = (outs, fin, w1)" "encodable fin"
  shows "ServeHTTP e text_of ''POST'' client_header [Value (encode_request req)] no_failure w =
    (Handled None, \<lparr>hr_status = 200,
       hr_header = [(''Content-Encoding'', ''gzip''), (''Content-Type'', ''application/json; charset=utf-8'')],
       hr_compressor = GzipWriter, hr_text = [],
       hr_values = map (\<lambda>r. encode_response (stamp (if m_Stream m then req else req\<lparr>rq_version := Version2\<rparr>) r))
           (method_answer (rq_version req) (m_Stream m) outs fin)\<rparr>, w1)"
proof -
  have "CompressData [] client_header = (GzipWriter, [(''Content-Encoding'', ''gzip'')])"
    by code_simp
  moreover have "Map_Set [(''Content-Encoding'', ''gzip'')] ''Content-Type'' ''application/json; charset=utf-8''
      = [(''Content-Encoding'', ''gzip''), (''Content-Type'', ''application/json; charset=utf-8'')]"
    by (simp add: Map_Set_def)
  moreover have "reliable \<lparr>sk_sent = [], sk_fail = no_failure\<rparr>" by (simp add: reliable_def no_failure_def)
  from handleRequest_method [OF this assms] have
    "handleRequest e text_of client_header (Value (encode_request req)) \<lparr>sk_sent = [], sk_fail = no_failure\<rparr> w
      = (Handled None, \<lparr>sk_sent = map (\<lambda>r. encode_response (stamp (if m_Stream m then req else req\<lparr>rq_version := Version2\<rparr>) r))
           (method_answer (rq_version req) (m_Stream m) outs fin), sk_fail = no_failure\<rparr>, w1)"
    by simp
  ultimately show ?thesis by (simp add: ServeHTTP_def)
qed

text \<open>How a method of a server can end that lives on, with an error whose code fits an \<open>int\<close>.\<close>

definition fin_in_range :: "handler_end \<Rightarrow> bool" where
  "fin_in_range fin \<longleftrightarrow> encodable fin \<and> code_in_range (end_error fin)"

lemma SendRequest_server:
  assumes "codecs_ok c"
    and "reaches e (client_request v (ht_id t) path j) m"
    and "run_method m client_header (Some j) (ht_net t) = (outs, fin, w1)" "encodable fin"
  shows "SendRequest (http_transport (server_network e text_of c)) v path (Inr j) t =
    (Inr (Ret (map (\<lambda>r. Value (encode_response (stamp (if m_Stream m
            then client_request v (ht_id t) path j else client_request Version2 (ht_id t) path j) r)))
         (method_answer v (m_Stream m) outs fin))), t\<lparr>ht_id := ht_id t + 1, ht_net := w1\<rparr>)"
proof -
  have "run_method m client_header (rq_params (client_request v (ht_id t) path j)) (ht_net t) = (outs, fin, w1)"
    using assms(3) by (simp add: client_request_def)
  note s = ServeHTTP_client [OF assms(2) this assms(4), of text_of]
  have "(client_request v i path j)\<lparr>rq_version := Version2\<rparr> = client_request Version2 i path j" for i
    by (simp add: client_request_def)
  moreover have "UncompressData c
      [(''Content-Encoding'', ''gzip''), (''Content-Type'', ''application/json; charset=utf-8'')]
      (compressed c GzipWriter b, None) = Inr (DecodedReader (compressed c GzipWriter b, None) (Some (b, None)))" for b
    using assms(1) by (simp add: UncompressData_def Map_Get_def compressed_def codecs_ok_def Let_def)
  moreover have "encodeRequest v (ht_id t) path (Inr j)
      = (Inr (encode_request (client_request v (ht_id t) path j)), ht_id t + 1)"
    by (simp add: encodeRequest_def client_request_def Let_def)
  moreover have "rq_version (client_request v (ht_id t) path j) = v" by (simp add: client_request_def)
  ultimately show ?thesis
    using s
    by (simp add: decoded_encode_request decoded_encoded http_transport_def httpTransport_SendRequest_def send_http_def body_values_def server_network_def
        read_body_def Let_def comp_def)
qed

lemma decode_stamped:
  "decode_response (encode_response (stamp req (result_response j))) = (stamp req (result_response j), None)"
  "decode_response (encode_response (stamp req success_response)) = (stamp req success_response, None)"
  "code_in_range er \<Longrightarrow>
     decode_response (encode_response (stamp req (error_response er))) = (stamp req (error_response er), None)"
  by (rule decode_encode_response;
      simp add: stamp_def result_response_def success_response_def error_response_def empty_response_def)+

lemma unmarshal_stamped:
  "unmarshalResult Inr (Value (encode_response (stamp req (result_response j))) # dec)
     = (Inr (stamp req (result_response j), Some j), dec)"
  "unmarshalResult unm (Value (encode_response (stamp req success_response)) # dec)
     = (Inr (stamp req success_response, None), dec)"
  "code_in_range er \<Longrightarrow>
     unmarshalResult unm (Value (encode_response (stamp req (error_response er))) # dec) = (Inl (Remote er), dec)"
  by (simp_all add: unmarshalResult_def decode_stamped)
    (simp_all add: stamp_def result_response_def success_response_def error_response_def
      empty_response_def unmarshal_raw_def)

lemma NextResult_stamped:
  assumes "rq_version req = Version2Streaming"
  shows "NextResult Inr \<lparr>rd_dec = Ret (Value (encode_response (stamp req (result_response j))) # dec), rd_err = None\<rparr>
      = Ret ((Some j, None), \<lparr>rd_dec = Ret dec, rd_err = None\<rparr>)"
    and "NextResult unm \<lparr>rd_dec = Ret (Value (encode_response (stamp req success_response)) # dec), rd_err = None\<rparr>
      = Ret ((None, Some EOF), \<lparr>rd_dec = Ret dec, rd_err = Some EOF\<rparr>)"
    and "code_in_range er \<Longrightarrow>
      NextResult unm \<lparr>rd_dec = Ret (Value (encode_response (stamp req (error_response er))) # dec), rd_err = None\<rparr>
      = Ret ((None, Some (Remote er)), \<lparr>rd_dec = Ret dec, rd_err = Some (Remote er)\<rparr>)"
  using assms
  by (simp_all add: NextResult_def unmarshal_stamped Let_def)
    (simp_all add: stamp_def success_response_def result_response_def empty_response_def)

lemma unmarshal_result:
  "unm j = Inr v \<Longrightarrow> unmarshalResult unm (Value (encode_response (stamp req (result_response j))) # dec)
     = (Inr (stamp req (result_response j), Some v), dec)"
  by (simp add: unmarshalResult_def decode_stamped)
    (simp add: stamp_def result_response_def empty_response_def unmarshal_raw_def)

lemma NextResult_decoded:
  assumes "rq_version req = Version2Streaming" "unm j = Inr v"
  shows "NextResult unm \<lparr>rd_dec = Ret (Value (encode_response (stamp req (result_response j))) # dec), rd_err = None\<rparr>
      = Ret ((Some v, None), \<lparr>rd_dec = Ret dec, rd_err = None\<rparr>)"
  using assms by (simp add: NextResult_def unmarshal_result) (simp add: stamp_def result_response_def empty_response_def)

subsection \<open>The contract of a transport\<close>

text \<open>
  What a client relies on: when the server runs a method on the parameters, the transport hands
  back its answer, each response stamped with the version that was used.  \<open>runs v path j t
  streams outs fin t'\<close> says that the call of \<open>path\<close> with the parameters \<open>j\<close> in version \<open>v\<close>
  runs a method, streaming or not, with the outputs \<open>outs\<close> and the end \<open>fin\<close>.
\<close>

locale rpc_transport =
  fixes tr :: "'t transport"
    and runs :: "string \<Rightarrow> string \<Rightarrow> json \<Rightarrow> 't \<Rightarrow> bool \<Rightarrow> json list \<Rightarrow> handler_end \<Rightarrow> 't \<Rightarrow> bool"
  assumes delivers: "runs v path j t streams outs fin t' \<Longrightarrow>
      \<exists>req. rq_version req = (if streams then v else Version2)
        \<and> SendRequest tr v path (Inr j) t =
            (Inr (Ret (map (\<lambda>r. Value (encode_response (stamp req r))) (method_answer v streams outs fin))), t')"
    and in_range: "runs v path j t streams outs fin t' \<Longrightarrow> fin_in_range fin"
    and one_result: "runs v path j t False outs (Returns None) t' \<Longrightarrow> length outs = 1"
begin

lemma call_result:
  assumes "runs Version2 path j t streams outs fin t'"
  shows "Call tr Inr path (Inr j) t =
    (Ret (if fin \<noteq> Returns None then Inl (Remote (end_error fin))
          else Inr (Some (if streams then JArr outs else hd outs))), t')"
proof -
  obtain req where "SendRequest tr Version2 path (Inr j) t =
      (Inr (Ret (map (\<lambda>r. Value (encode_response (stamp req r))) (method_answer Version2 streams outs fin))), t')"
    using delivers [OF assms] by auto
  then show ?thesis
    using in_range [OF assms]
    by (simp add: Call_def method_answer_def unmarshal_stamped fin_in_range_def)
qed

lemma drain_results:
  assumes "rq_version req = Version2Streaming" "code_in_range er"
  shows "drain Inr (length outs + Suc n)
      \<lparr>rd_dec = Ret (map (\<lambda>r. Value (encode_response (stamp req r)))
         (map result_response outs @ [if fine then success_response else error_response er])), rd_err = None\<rparr>
    = Ret (map Some outs, Some (if fine then EOF else Remote er))"
  using assms by (induction outs) (simp_all add: NextResult_stamped)

lemma stream_result:
  assumes "runs Version2Streaming path j t True outs fin t'"
  shows "\<exists>rd. Stream tr path (Inr j) t = (rd, t')
    \<and> drain Inr (length outs + Suc n) rd =
        Ret (map Some outs, Some (if fin = Returns None then EOF else Remote (end_error fin)))"
proof -
  obtain req where req: "rq_version req = Version2Streaming"
    "SendRequest tr Version2Streaming path (Inr j) t =
      (Inr (Ret (map (\<lambda>r. Value (encode_response (stamp req r))) (method_answer Version2Streaming True outs fin))), t')"
    using delivers [OF assms] by auto
  then show ?thesis
    using drain_results [OF req(1) in_range [OF assms, unfolded fin_in_range_def, THEN conjunct2], of outs n "fin = Returns None"]
    by (simp add: Stream_def method_answer_def)
qed

end

definition server_runs ::
  "('i, 'w) Endpoint \<Rightarrow> codecs \<Rightarrow> string \<Rightarrow> string \<Rightarrow> json \<Rightarrow> 'w httpTransport \<Rightarrow> bool \<Rightarrow> json list \<Rightarrow> handler_end \<Rightarrow> 'w httpTransport \<Rightarrow> bool" where
  "server_runs e c v path j t streams outs fin t' \<longleftrightarrow>
     codecs_ok c \<and> fin_in_range fin
     \<and> (\<exists>m w1. reaches e (client_request v (ht_id t) path j) m \<and> streams = m_Stream m
          \<and> run_method m client_header (Some j) (ht_net t) = (outs, fin, w1)
          \<and> t' = t\<lparr>ht_id := ht_id t + 1, ht_net := w1\<rparr>)"

interpretation http: rpc_transport "http_transport (server_network e text_of c)"
  "server_runs e c" for e text_of c
proof unfold_locales
  fix v path j t streams outs fin t'
  assume r: "server_runs e c v path j t streams outs fin t'"
  then obtain m w1 where m: "codecs_ok c"
    "reaches e (client_request v (ht_id t) path j) m" "streams = m_Stream m"
    "run_method m client_header (Some j) (ht_net t) = (outs, fin, w1)"
    "t' = t\<lparr>ht_id := ht_id t + 1, ht_net := w1\<rparr>"
    by (auto simp: server_runs_def)
  show "\<exists>req. rq_version req = (if streams then v else Version2)
        \<and> SendRequest (http_transport (server_network e text_of c)) v path (Inr j) t =
            (Inr (Ret (map (\<lambda>r. Value (encode_response (stamp req r))) (method_answer v streams outs fin))), t')"
    using SendRequest_server [OF m(1,2,4), of text_of] m(3,5) r
    by (intro exI [of _ "if streams then client_request v (ht_id t) path j
          else client_request Version2 (ht_id t) path j"]) (auto simp: client_request_def server_runs_def fin_in_range_def)
  show "fin_in_range fin" using r by (simp add: server_runs_def)
next
  fix v path j t outs t'
  assume "server_runs e c v path j t False outs (Returns None) t'"
  then show "length outs = 1" by (auto simp: server_runs_def dest: run_method_one)
qed

subsection \<open>Properties\<close>

text \<open>C5: a call over HTTP returns what the method returns: its result, or the array of its results
  when it streams, or else the error it ended with, a panic included; the request counter goes
  up by one.\<close>

theorem Call_end_to_end:
  assumes "codecs_ok c" "fin_in_range fin"
    and "reaches e (client_request Version2 (ht_id t) path j) m"
    and "run_method m client_header (Some j) (ht_net t) = (outs, fin, w1)"
  shows "Call (http_transport (server_network e text_of c)) Inr path (Inr j) t =
    (Ret (if fin \<noteq> Returns None then Inl (Remote (end_error fin))
          else Inr (Some (if m_Stream m then JArr outs else hd outs))),
     t\<lparr>ht_id := ht_id t + 1, ht_net := w1\<rparr>)"
  using assms by (intro http.call_result) (auto simp: server_runs_def)

definition fail_impl :: "(json, unit) Method" where
  "fail_impl = \<lparr>m_Name = ''Fail'', m_Params = [], m_Stream = False, m_zero = JNull,
     m_unmarshal = Inr, m_results = 2,
     m_call = (\<lambda>ctx i w. ((i, Panics (PanicOther ''boom'')), w)),
     m_callStream = (\<lambda>ctx i w. (([], Returns None), w))\<rparr>"

definition demo_endpoint :: "(json, unit) Endpoint" where
  "demo_endpoint = [\<lparr>s_Name = ''EchoService'', s_Methods = [echo_impl True, fail_impl]\<rparr>]"

lemma demo_reaches:
  "reaches demo_endpoint (client_request Version2Streaming 0 ''/EchoService/Echo'' j) (echo_impl True)"
  "reaches demo_endpoint (client_request Version2 0 ''/EchoService/Fail'' j) fail_impl"
  by (auto simp: reaches_def client_request_def valid_id_def parseServiceMethod_def Trim_def trim_by_def
      SplitN2_def serverInfoService_def Resolve_def demo_endpoint_def Service_Method_def echo_impl_def fail_impl_def)

lemma demo_run_method:
  "run_method fail_impl client_header (Some j) w = ([], Panics (PanicOther ''boom''), w)"
  by (simp add: run_method_def Invoke_def decode_input_def fail_impl_def)

theorem Call_end_to_end_witness:
  "fst (Call (http_transport (server_network demo_endpoint (\<lambda>r. []) plain_codecs))
      Inr ''/EchoService/Fail'' (Inr JNull) (NewHTTPClient ''localhost:10005'' ()))
   = Ret (Inl (Remote \<lparr>e_code = ErrorInternal, e_message = ''boom'', e_data = None\<rparr>))"
proof -
  have "fin_in_range (Panics (PanicOther ''boom''))"
    by (simp add: fin_in_range_def end_error_def code_in_range_def ErrorInternal_def)
  from Call_end_to_end [OF codecs_ok_plain this, of demo_endpoint
      "NewHTTPClient ''localhost:10005'' ()" "''/EchoService/Fail''" JNull fail_impl]
  show ?thesis by (simp add: NewHTTPClient_def demo_reaches demo_run_method end_error_def)
qed

text \<open>C6: a stream over HTTP delivers every result of a streaming method, in order and nothing
  else, and then \<open>io.EOF\<close> when the method returned without an error, or the error it ended
  with; after a panic that is one of the three answers of \<open>StreamCalls\<close>.\<close>

theorem Stream_end_to_end:
  assumes "codecs_ok c" "fin_in_range fin"
    and "reaches e (client_request Version2Streaming (ht_id t) path j) m" "m_Stream m"
    and "run_method m client_header (Some j) (ht_net t) = (outs, fin, w1)"
  shows "\<exists>rd. Stream (http_transport (server_network e text_of c)) path (Inr j) t
        = (rd, t\<lparr>ht_id := ht_id t + 1, ht_net := w1\<rparr>)
    \<and> drain Inr (length outs + Suc n) rd =
        Ret (map Some outs, Some (if fin = Returns None then EOF else Remote (end_error fin)))"
  using assms by (intro http.stream_result) (auto simp: server_runs_def)

theorem Stream_end_to_end_witness:
  "\<exists>rd t'. Stream (http_transport (server_network demo_endpoint (\<lambda>r. []) plain_codecs))
      ''/EchoService/Echo'' (Inr (JInt 5)) (NewHTTPClient ''localhost:10005'' ()) = (rd, t')
   \<and> drain Inr 4 rd = Ret ([Some (JInt 5), Some (JInt 5)], Some EOF)"
proof -
  have "fin_in_range (Returns None)"
    by (simp add: fin_in_range_def end_error_def code_in_range_def empty_error_def)
  moreover have "m_Stream (echo_impl True)" by (simp add: echo_impl_def)
  moreover have "run_method (echo_impl True) client_header (Some (JInt 5)) () = ([JInt 5, JInt 5], Returns None, ())"
    by (rule echo_run)
  ultimately show ?thesis
    using Stream_end_to_end [OF codecs_ok_plain, of "Returns None" demo_endpoint
        "NewHTTPClient ''localhost:10005'' ()" "''/EchoService/Echo''" "JInt 5" "echo_impl True"
        "[JInt 5, JInt 5]" "()" "\<lambda>r. []" 1]
    by (auto simp: NewHTTPClient_def demo_reaches numeral_eq_Suc)
qed

lemma drain_taken:
  assumes "rq_version req = Version2Streaming"
  shows "drain Inr (length outs + m)
      \<lparr>rd_dec = Ret (map (\<lambda>j. Value (encode_response (stamp req (result_response j)))) outs @ dec), rd_err = None\<rparr>
    = go_bind (drain Inr m \<lparr>rd_dec = Ret dec, rd_err = None\<rparr>) (\<lambda>(vs, e). Ret (map Some outs @ vs, e))"
proof (induction outs)
  case Nil
  show ?case by (cases "drain Inr m \<lparr>rd_dec = Ret dec, rd_err = None\<rparr>") auto
next
  case (Cons j outs)
  then show ?case
    using assms by (cases "drain Inr m \<lparr>rd_dec = Ret dec, rd_err = None\<rparr>") (auto simp: NextResult_stamped)
qed

lemma drain_broken:
  assumes "tail = [] \<or> tail = [Garbage err]"
  shows "\<exists>e. drain Inr (Suc m) \<lparr>rd_dec = Ret tail, rd_err = None\<rparr> = Ret ([], Some (Local e))"
  using assms by (auto simp: NextResult_def unmarshalResult_def)

text \<open>A stream cut off between two results is never taken for a finished one: the reader hands
  out the results that arrived, in order, and then an error that is not \<open>io.EOF\<close>.\<close>

theorem truncated_stream:
  assumes "rq_version req = Version2Streaming"
  shows "drain Inr (length outs + Suc n)
      \<lparr>rd_dec = Ret (map (\<lambda>j. Value (encode_response (stamp req (result_response j)))) outs), rd_err = None\<rparr>
    = Ret (map Some outs, Some (Local ''error decoding JSON-RPC response: EOF''))"
  using drain_taken [OF assms, of outs "Suc n" "[]"] by (simp add: NextResult_def unmarshalResult_def)

theorem truncated_stream_witness:
  "drain Inr (length [JInt 5] + Suc 0)
      \<lparr>rd_dec = Ret (map (\<lambda>j. Value (encode_response
          (stamp (echo_request Version2Streaming JNull) (result_response j)))) [JInt 5]), rd_err = None\<rparr>
    = Ret (map Some [JInt 5], Some (Local ''error decoding JSON-RPC response: EOF''))"
  by (rule truncated_stream) (simp add: echo_request_def)

text \<open>The text a server sends for a streaming request whose method has the results \<open>outs\<close>.\<close>

definition stream_text :: "Request \<Rightarrow> json list \<Rightarrow> Error option \<Rightarrow> string" where
  "stream_text req outs er = encoded (map (\<lambda>r. encode_response (stamp req r)) (map result_response outs
     @ [case er of None \<Rightarrow> success_response | Some e \<Rightarrow> error_response e]))"

lemma is_object_encode_response: "is_object (encode_response r)"
  by (simp add: encode_response_def)

text \<open>C29: a stream that is cut off, at whatever byte of its text and with whatever error, is never taken for
  a finished one: the reader hands out results the server sent, in order and from the first, and when it
  says \<open>io.EOF\<close> or returns an error of the method, then it handed out all of them and that is how the method ended.\<close>

theorem cut_stream:
  assumes "rq_version req = Version2Streaming" "\<forall>e. er = Some e \<longrightarrow> code_in_range e"
    and "stream_text req outs er = p @ q"
  shows "\<exists>k \<le> length outs. \<exists>e. drain Inr (length outs + Suc n) \<lparr>rd_dec = Ret (decoded (p, err)), rd_err = None\<rparr>
        = Ret (map Some (take k outs), Some e)
    \<and> ((\<exists>msg. e = Local msg) \<or> k = length outs \<and> e = (case er of None \<Rightarrow> EOF | Some re \<Rightarrow> Remote re))"
proof -
  let ?result = "\<lambda>j. Value (encode_response (stamp req (result_response j)))"
  let ?fin = "case er of None \<Rightarrow> success_response | Some e \<Rightarrow> error_response e"
  let ?vs = "map (\<lambda>r. encode_response (stamp req r)) (map result_response outs @ [?fin])"
  have "\<forall>v \<in> set ?vs. is_object v" by (simp add: is_object_encode_response)
  from decoded_cut [OF assms(3) [unfolded stream_text_def] this, of err]
  obtain k tail e where k: "decoded (p, err) = map Value (take k ?vs) @ tail" "k \<le> length ?vs"
    and tail: "tail = [] \<or> tail = [Garbage e]" .
  show ?thesis
  proof (cases "k = length ?vs")
    case True
    then have "decoded (p, err) = map ?result outs @ Value (encode_response (stamp req ?fin)) # tail"
      using k(1) by simp
    then have "drain Inr (length outs + Suc n) \<lparr>rd_dec = Ret (decoded (p, err)), rd_err = None\<rparr>
        = Ret (map Some outs, Some (case er of None \<Rightarrow> EOF | Some re \<Rightarrow> Remote re))"
      using drain_taken [OF assms(1), of outs "Suc n"] assms(1,2) by (cases er) (simp_all add: NextResult_stamped)
    then show ?thesis by (intro exI [of _ "length outs"]) auto
  next
    case False
    with k(2) have le: "k \<le> length outs" by simp
    then have d: "decoded (p, err) = map ?result (take k outs) @ tail" using k(1) by (simp add: take_map comp_def)
    have n: "length outs + Suc n = length (take k outs) + Suc (length outs - k + n)" using le by simp
    obtain e1 where "drain Inr (Suc (length outs - k + n)) \<lparr>rd_dec = Ret tail, rd_err = None\<rparr> = Ret ([], Some (Local e1))"
      using drain_broken [OF tail] by blast
    then have "drain Inr (length outs + Suc n) \<lparr>rd_dec = Ret (decoded (p, err)), rd_err = None\<rparr>
        = Ret (map Some (take k outs), Some (Local e1))"
      unfolding n d drain_taken [OF assms(1)] by simp
    then show ?thesis using le by (intro exI [of _ k] exI [of _ "Local e1"]) simp
  qed
qed

text \<open>A stream of two results that is cut after 60 bytes, in the second one.\<close>

theorem cut_stream_witness:
  "\<exists>k \<le> 2. \<exists>e. drain Inr 3 \<lparr>rd_dec = Ret (decoded
        (take 60 (stream_text (echo_request Version2Streaming JNull) [JInt 5, JInt 6] None), None)), rd_err = None\<rparr>
      = Ret (map Some (take k [JInt 5, JInt 6]), Some e) \<and> ((\<exists>msg. e = Local msg) \<or> k = 2 \<and> e = EOF)"
proof -
  have "rq_version (echo_request Version2Streaming JNull) = Version2Streaming" by (simp add: echo_request_def)
  from cut_stream [OF this, of None "[JInt 5, JInt 6]" "take 60 (stream_text (echo_request Version2Streaming JNull) [JInt 5, JInt 6] None)"
      "drop 60 (stream_text (echo_request Version2Streaming JNull) [JInt 5, JInt 6] None)" 0 None]
  show ?thesis by (simp add: numeral_eq_Suc del: drain.simps take_Suc_Cons)
qed

text \<open>What is relied on: sleeping takes at least the time asked for, and a call does not turn the
  clock back.\<close>

definition clock_ok :: "'w clock \<Rightarrow> bool" where
  "clock_ok clk \<longleftrightarrow> (\<forall>w d. Now clk w + d \<le> Now clk (Sleep clk d w))
     \<and> (\<forall>w. Now clk w \<le> Now clk (snd (Ping clk w)))"

lemma wait_loop_returns:
  assumes "clock_ok clk" "timeout > 0" "ival > 0"
  shows "\<exists>r w'. wait_loop clk timeout start ival lastErr w = Some (r, w')
    \<and> (case r of None \<Rightarrow> (\<exists>w0. Ping clk w0 = (None, w')) | Some _ \<Rightarrow> timeout \<le> Now clk w' - start)"
  using assms(3)
proof (induction "nat (timeout - (Now clk w - start))" arbitrary: ival lastErr w rule: less_induct)
  case less
  show ?case
  proof (cases "Now clk w - start < timeout")
    case True
    obtain e w1 where p: "Ping clk w = (e, w1)" by fastforce
    show ?thesis
    proof (cases e)
      case None
      with True p show ?thesis by (subst wait_loop.simps) auto
    next
      case (Some err)
      let ?w2 = "Sleep clk ival w1"
      have "Now clk w1 + ival \<le> Now clk ?w2" "Now clk w \<le> Now clk w1"
        using assms(1) p unfolding clock_ok_def by (blast, metis snd_conv)
      then have "nat (timeout - (Now clk ?w2 - start)) < nat (timeout - (Now clk w - start))"
        using True less.prems by linarith
      moreover have "next_interval ival > 0" using less.prems by (simp add: next_interval_def)
      ultimately obtain r w' where
        "wait_loop clk timeout start (next_interval ival) (Some err) ?w2 = Some (r, w')"
        "case r of None \<Rightarrow> (\<exists>w0. Ping clk w0 = (None, w')) | Some _ \<Rightarrow> timeout \<le> Now clk w' - start"
        using less.hyps by blast
      with True p Some show ?thesis by (subst wait_loop.simps) simp
    qed
  next
    case False
    with assms(2) show ?thesis by (subst wait_loop.simps) auto
  qed
qed

text \<open>C38: with a positive timeout and a clock that moves, \<open>WaitUntilReady\<close> returns: without an error
  right after a call that succeeded, or with one when the timeout has passed.\<close>

theorem WaitUntilReady_returns:
  assumes "clock_ok clk" "timeout > 0"
  shows "\<exists>r w'. WaitUntilReady clk timeout w = Some (r, w')
    \<and> (case r of None \<Rightarrow> (\<exists>w0. Ping clk w0 = (None, w'))
       | Some _ \<Rightarrow> timeout \<le> Now clk w' - Now clk w)"
  using wait_loop_returns [OF assms, of firstInterval "Now clk w" None w]
  by (simp add: WaitUntilReady_def firstInterval_def)

definition dead_clock :: "int clock" where
  "dead_clock = \<lparr>Now = (\<lambda>w. w), Sleep = (\<lambda>d w. w + max d 0), Ping = (\<lambda>w. (Some ''refused'', w))\<rparr>"

theorem WaitUntilReady_returns_witness:
  "\<exists>r w'. WaitUntilReady dead_clock (30 * 10 ^ 9) 0 = Some (r, w') \<and> r \<noteq> None"
proof -
  have "clock_ok dead_clock" by (auto simp: clock_ok_def dead_clock_def)
  from WaitUntilReady_returns [OF this, of "30 * 10 ^ 9" 0] show ?thesis
    by (auto simp: dead_clock_def split: option.splits)
qed

lemma wait_loop_forever:
  assumes "wait_loop clk timeout start ival lastErr w = Some y"
  shows "timeout = 0 \<longrightarrow> (\<exists>w. fst (Ping clk w) = None)"
  using assms
proof (induction rule: wait_loop.raw_induct [rotated 1, consumes 1])
  case (1 f clk timeout start ival lastErr w y)
  obtain e w1 where p: "Ping clk w = (e, w1)" by fastforce
  show ?case
  proof (cases e)
    case None
    with p show ?thesis by (metis fst_conv)
  next
    case (Some err)
    with p 1 show ?thesis by (auto split: if_splits)
  qed
qed

text \<open>With timeout 0 and a server that never answers, \<open>WaitUntilReady\<close> never returns.\<close>

theorem WaitUntilReady_forever:
  assumes "\<And>w. fst (Ping clk w) \<noteq> None"
  shows "WaitUntilReady clk 0 w = None"
proof (rule ccontr)
  assume "WaitUntilReady clk 0 w \<noteq> None"
  then obtain y where "wait_loop clk 0 (Now clk w) firstInterval None w = Some y"
    by (auto simp: WaitUntilReady_def)
  from wait_loop_forever [OF this] assms show False by blast
qed

theorem WaitUntilReady_forever_witness: "WaitUntilReady dead_clock 0 7 = None"
  by (rule WaitUntilReady_forever) (simp add: dead_clock_def)

end
