(* ===== verification/Cli.thy ===== *)
theory Cli
  imports Docker Config Client
begin

text \<open>
  \<open>shipshape/cli/shipshape_lib.go\<close>: the client library, which brings up the containers, sends the
  request to the service and hands the responses to its caller.

  The client works on a world \<open>'w\<close>, which Docker commands, the clock and the RPC transport
  change, and on a state \<open>'s\<close> of its caller, which the response handlers change.  Log output is
  left out.
\<close>

subsection \<open>State and environment\<close>

definition workspace :: string where "workspace = ''/shipshape-workspace''"
definition localLogs :: string where "localLogs = ''/tmp''"
definition service_image :: string where "service_image = ''service''"
definition kytheImage :: string where "kytheImage = ''kythe''"
definition shipping_container :: string where "shipping_container = ''shipping_container''"

record 's Options =
  File :: string
  ThirdPartyAnalyzers :: "string list"
  Build :: string
  TriggerCats :: "string list"
  Dind :: bool
  Event :: string
  Repo :: string
  StayUp :: bool
  Tag :: string
  LocalKythe :: bool
  HandleResponse :: "(ShipshapeResponse \<Rightarrow> string \<Rightarrow> 's \<Rightarrow> (string option \<times> 's) go) option"
  ResponsesDone :: "('s \<Rightarrow> string option \<times> 's) option"

record Paths =
  pa_isDir :: bool
  pa_relativeRoot :: string
  pa_absRoot :: string
  pa_origDir :: string

definition no_paths :: Paths where
  "no_paths = \<lparr>pa_isDir = False, pa_relativeRoot = [], pa_absRoot = [], pa_origDir = []\<rparr>"

text \<open>
  \<open>ce_stat\<close> is \<open>os.Stat\<close>, an error or whether the file is a directory; \<open>ce_home\<close> the variable
  \<open>HOME\<close>; \<open>ce_finish\<close> the order in which the goroutines of one fan-out run; the last four are
  the RPC client of the service: its clock, its transport, and JSON in both directions.
\<close>

record 'w cli_env =
  ce_os :: "'w os"
  ce_docker :: docker_orders
  ce_stat :: "string \<Rightarrow> 'w \<Rightarrow> string + bool"
  ce_home :: "'w \<Rightarrow> string"
  ce_yaml :: "string \<Rightarrow> string + ShipshapeConfig"
  ce_config :: "string list \<Rightarrow> string list"
  ce_finish :: "(nat \<times> string) list \<Rightarrow> (nat \<times> string) list"
  ce_clock :: "'w clock"
  ce_transport :: "'w transport"
  ce_request :: "ShipshapeRequest \<Rightarrow> string + json"
  ce_response :: "json \<Rightarrow> string + ShipshapeResponse"

subsection \<open>Naming and pulling containers\<close>

definition getContainerAndAddress :: "string \<Rightarrow> nat \<Rightarrow> string \<times> int" where
  "getContainerAndAddress fullImage i =
     (let colon = LastIndex fullImage CHR '':''; slash = LastIndex fullImage CHR ''/'';
          stop_at = (if colon = - 1 \<or> colon < slash then int (length fullImage) else colon);
          img = take (nat (stop_at - (slash + 1))) (drop (nat (slash + 1)) fullImage)
      in (img @ ''_'' @ Itoa (int i), 10010 + int i))"

definition pull :: "'w cli_env \<Rightarrow> string \<Rightarrow> 'w \<Rightarrow> 'w" where
  "pull env img w =
     (if HasSuffix img '':local'' \<or> \<not> OutOfDate img then w else snd (Pull (ce_os env) img w))"

definition stop :: "'w cli_env \<Rightarrow> string \<Rightarrow> int \<Rightarrow> 'w \<Rightarrow> 'w" where
  "stop env container timeWait w = snd (Stop (ce_os env) container timeWait True w)"

definition pullAnalyzers :: "'w cli_env \<Rightarrow> string list \<Rightarrow> 'w \<Rightarrow> 'w" where
  "pullAnalyzers env imgs w = fold (\<lambda>(i, img). pull env img) (ce_finish env (enumerate 0 imgs)) w"

subsection \<open>Starting the analyzers\<close>

text \<open>
  One goroutine of \<open>startAnalyzers\<close>: what comes of the container, and what it appends to the
  two slices.  The goroutines share the slices without a lock; here they run one after the other, in
  the order \<open>ce_finish\<close>, and in \<open>Startup\<close> in any interleaving.
\<close>

datatype start_outcome = Reused | Failed string | Started string

definition run_analyzer ::
  "'w cli_env \<Rightarrow> string \<Rightarrow> bool \<Rightarrow> nat \<times> string \<Rightarrow> 'w \<Rightarrow> start_outcome \<times> 'w" where
  "run_analyzer env sourceDir dind job w =
     (case job of (i, img) \<Rightarrow> case getContainerAndAddress img i of (analyzerContainer, port) \<Rightarrow>
        case RunAnalyzer (ce_os env) (ce_docker env) img analyzerContainer sourceDir localLogs port dind w of
          (result, w1) \<Rightarrow> ((case cr_Err result of Some err \<Rightarrow> Failed err | None \<Rightarrow> Started analyzerContainer), w1))"

definition start_container ::
  "'w cli_env \<Rightarrow> string \<Rightarrow> bool \<Rightarrow> nat \<times> string \<Rightarrow> 'w \<Rightarrow> start_outcome \<times> 'w" where
  "start_container env sourceDir dind job w =
     (case job of (i, img) \<Rightarrow> case getContainerAndAddress img i of (analyzerContainer, port) \<Rightarrow>
        case ImageMatches (ce_os env) img analyzerContainer w of (matches, w1) \<Rightarrow>
          if matches then (Reused, w1)
          else case Stop (ce_os env) analyzerContainer 0 True w1 of (_, w2) \<Rightarrow>
            run_analyzer env sourceDir dind job w2)"

definition start_analyzer ::
  "'w cli_env \<Rightarrow> string \<Rightarrow> bool \<Rightarrow> nat \<times> string \<Rightarrow> (string list \<times> string list) \<times> 'w
     \<Rightarrow> (string list \<times> string list) \<times> 'w" where
  "start_analyzer env sourceDir dind job st =
     (case st of ((containers, errs), w) \<Rightarrow> case start_container env sourceDir dind job w of (out, w1) \<Rightarrow>
        ((case out of
            Reused \<Rightarrow> (containers, errs)
          | Failed err \<Rightarrow> (containers, errs @ [err])
          | Started c \<Rightarrow> (containers @ [c], errs)), w1))"

definition startAnalyzers ::
  "'w cli_env \<Rightarrow> string \<Rightarrow> string list \<Rightarrow> bool \<Rightarrow> 'w \<Rightarrow> (string list \<times> string list) \<times> 'w" where
  "startAnalyzers env sourceDir imgs dind w =
     fold (start_analyzer env sourceDir dind) (ce_finish env (enumerate 0 imgs)) (([], []), w)"

subsection \<open>Starting the service\<close>

text \<open>\<open>WaitUntilReady\<close> with ten seconds; a wait that never ends counts as a panic.\<close>

definition wait_ready :: "'w cli_env \<Rightarrow> 'w \<Rightarrow> (string option \<times> 'w) go" where
  "wait_ready env w = (case WaitUntilReady (ce_clock env) (10 * 10 ^ 9) w of
     None \<Rightarrow> Panic ''never ready'' | Some r \<Rightarrow> Ret r)"

definition run_service ::
  "'w cli_env \<Rightarrow> string \<Rightarrow> string \<Rightarrow> string list \<Rightarrow> bool \<Rightarrow> 'w \<Rightarrow> string option \<times> 'w" where
  "run_service env img absRoot analyzers dind w =
     (case RunService (ce_os env) (ce_docker env) img shipping_container absRoot localLogs analyzers dind w of
        (result, w1) \<Rightarrow> (cr_Err result, w1))"

text \<open>A running container is reused when it maps the directory, runs the current image and is
  linked to the analyzers; the checks stop at the first that fails.\<close>

definition reusable ::
  "'w cli_env \<Rightarrow> string \<Rightarrow> string list \<Rightarrow> bool \<Rightarrow> 'w \<Rightarrow> bool \<times> 'w" where
  "reusable env img analyzers isMapped w =
     (if \<not> isMapped then (False, w)
      else case ImageMatches (ce_os env) img shipping_container w of (matches, w1) \<Rightarrow>
        if \<not> matches then (False, w1) else ContainsLinks (ce_os env) shipping_container analyzers w1)"

definition startShipshapeService ::
  "'w cli_env \<Rightarrow> string \<Rightarrow> string \<Rightarrow> string list \<Rightarrow> bool \<Rightarrow> 'w \<Rightarrow> ((string + string) \<times> 'w) go" where
  "startShipshapeService env img absRoot analyzers dind w =
     (case ContainerExists (ce_os env) shipping_container w of ((exists, err), w1) \<Rightarrow>
        (case err of
           Some e \<Rightarrow> Ret (Inl e, w1)
         | None \<Rightarrow>
             go_bind
               (if \<not> exists then
                  (case run_service env img absRoot analyzers dind w1 of
                     (Some e, w2) \<Rightarrow> Ret (Inl e, w2) | (None, w2) \<Rightarrow> Ret (Inr [], w2))
                else
                  go_bind (MappedVolume (ce_os env) absRoot shipping_container w1) (\<lambda>((isMapped, subPath), w2).
                    case reusable env img analyzers isMapped w2 of (reuse, w3) \<Rightarrow>
                      if reuse then Ret (Inr subPath, w3)
                      else case run_service env img absRoot analyzers dind (stop env shipping_container 0 w3) of
                        (Some e, w4) \<Rightarrow> Ret (Inl e, w4) | (None, w4) \<Rightarrow> Ret (Inr [], w4)))
               (\<lambda>(started, w5).
                  case started of
                    Inl e \<Rightarrow> Ret (Inl e, w5)
                  | Inr subPath \<Rightarrow>
                      go_bind (wait_ready env w5) (\<lambda>(ready, w6).
                        case ready of Some e \<Rightarrow> Ret (Inl e, w6) | None \<Rightarrow> Ret (Inr subPath, w6)))))"

text \<open>
  What \<open>startServices\<close> returns: the error, the paths, whether the function it returns for the way
  out stops the containers or does nothing, and the options, whose analyzers it may have filled in
  from the configuration.
\<close>

record 's started =
  st_err :: "string option"
  st_paths :: Paths
  st_clean :: bool
  st_options :: "'s Options"

definition cleanup :: "'w cli_env \<Rightarrow> 's started \<Rightarrow> 'w \<Rightarrow> 'w" where
  "cleanup env st w =
     (if \<not> st_clean st then w
      else fold (\<lambda>(i, repo). stop env (fst (getContainerAndAddress repo i)) 0)
             (enumerate 0 (ThirdPartyAnalyzers (st_options st)))
             (if StayUp (st_options st) then w else stop env shipping_container 0 w))"

definition absolute_path :: "'w os \<Rightarrow> string \<Rightarrow> 'w \<Rightarrow> string + string" where
  "absolute_path os path w =
     (if IsAbs path then Inr (Clean path)
      else case Getwd os w of Inl err \<Rightarrow> Inl err | Inr wd \<Rightarrow> Inr (Abs wd path))"

definition global_analyzers :: "'w cli_env \<Rightarrow> string \<Rightarrow> 'w \<Rightarrow> string list" where
  "global_analyzers env absRoot w =
     (case GlobalConfig (ce_config env) (\<lambda>p. ReadFile (ce_os env) p w) (ce_yaml env) absRoot of
        Inl err \<Rightarrow> [] | Inr imgs \<Rightarrow> imgs)"

definition services_up :: "Paths \<Rightarrow> 's Options \<Rightarrow> string + string \<Rightarrow> 's started" where
  "services_up paths opts res = (case res of
       Inl err \<Rightarrow> \<lparr>st_err = Some (''HTTP client did not become healthy: '' @ err),
                   st_paths = paths, st_clean = True, st_options = opts\<rparr>
     | Inr relativeRoot \<Rightarrow> \<lparr>st_err = None, st_paths = paths\<lparr>pa_relativeRoot := relativeRoot\<rparr>,
                   st_clean = True, st_options = opts\<rparr>)"

definition startServices :: "'w cli_env \<Rightarrow> 's Options \<Rightarrow> 'w \<Rightarrow> ('s started \<times> 'w) go" where
  "startServices env opts w =
     (let failed = (\<lambda>err paths w. Ret (\<lparr>st_err = Some err, st_paths = paths, st_clean = False, st_options = opts\<rparr>, w))
      in case ce_stat env (File opts) w of
           Inl err \<Rightarrow> failed (File opts @ '' is not a valid file or directory'' @ [CHR_nl]) no_paths w
         | Inr isDir \<Rightarrow>
             let origDir = (if isDir then File opts else Dir (File opts));
                 paths = no_paths\<lparr>pa_isDir := isDir, pa_origDir := origDir\<rparr>
             in case absolute_path (ce_os env) origDir w of
                  Inl err \<Rightarrow> failed (''could not get absolute path for '' @ origDir @ '': '' @ err @ [CHR_nl]) paths w
                | Inr absRoot \<Rightarrow>
                    let paths = paths\<lparr>pa_absRoot := absRoot\<rparr>
                    in case HasDocker (ce_os env) w of (found, w1) \<Rightarrow>
                      if \<not> found
                      then failed ''docker could not be found. Make sure you have docker installed.'' paths w1
                      else
                        let img = FullImageName (Repo opts) service_image (Tag opts);
                            opts = (if ThirdPartyAnalyzers opts = []
                                    then opts\<lparr>ThirdPartyAnalyzers := global_analyzers env absRoot w1\<rparr> else opts);
                            w2 = pullAnalyzers env (ThirdPartyAnalyzers opts) (pull env img w1)
                        in case startAnalyzers env absRoot (ThirdPartyAnalyzers opts) (Dind opts) w2 of
                             ((containers, errs), w3) \<Rightarrow>
                          go_bind (startShipshapeService env img absRoot containers (Dind opts) w3) (\<lambda>(res, w4).
                            Ret (services_up paths opts res, w4)))"

definition StartService :: "'w cli_env \<Rightarrow> 's Options \<Rightarrow> 'w \<Rightarrow> (string option \<times> 'w) go" where
  "StartService env opts w =
     go_bind (startServices env opts w) (\<lambda>(st, w1).
       Ret (map_option (\<lambda>err. ''HTTP client did not become healthy: '' @ err) (st_err st), cleanup env st w1))"

text \<open>\<open>ShowCategories\<close> returns the categories it prints, one per line, or the error.  The response
  is a pointer, nil when the server sent \<open>null\<close> or no result.\<close>

definition ShowCategories ::
  "'w cli_env \<Rightarrow> (json \<Rightarrow> string + string list option) \<Rightarrow> 's Options \<Rightarrow> 'w \<Rightarrow> ((string + string) \<times> 'w) go" where
  "ShowCategories env decode opts w =
     go_bind (startServices env opts w) (\<lambda>(st, w1).
       case st_err st of
         Some err \<Rightarrow> Ret (Inl (''HTTP client did not become healthy: '' @ err), cleanup env st w1)
       | None \<Rightarrow>
           (case Call (ce_transport env) decode ''/ShipshapeService/GetCategory'' (Inr (JObj [])) w1 of (res, w2) \<Rightarrow>
              go_bind res (\<lambda>r. case r of
                  Inl err \<Rightarrow> Ret (Inl (client_error_text err), cleanup env st w2)
                | Inr v \<Rightarrow> go_bind (deref v) (\<lambda>cats. go_bind (deref cats) (\<lambda>cs.
                    Ret (Inr (Join cs [CHR_nl] @ [CHR_nl]), cleanup env st w2))))))"

subsection \<open>Requesting an analysis\<close>

definition createRequest ::
  "string list \<Rightarrow> string list \<Rightarrow> string \<Rightarrow> string \<Rightarrow> Stage \<Rightarrow> ShipshapeRequest" where
  "createRequest triggerCats files event repoRoot stage =
     \<lparr>sreq_context = Some (empty_context\<lparr>ctx_repo_root := Some repoRoot, ctx_file_path := files\<rparr>),
      sreq_triggered_category = triggerCats, sreq_event = Some event, sreq_stage = Some stage\<rparr>"

definition numNotes :: "ShipshapeResponse \<Rightarrow> nat" where
  "numNotes msg = foldl (\<lambda>n analysis. n + length (ar_note analysis)) 0 (sresp_analyze_response msg)"

type_synonym 's handler = "ShipshapeResponse \<Rightarrow> string \<Rightarrow> 's \<Rightarrow> (string option \<times> 's) go"

text \<open>The loop of \<open>analyze\<close>: a message without a result is the empty response.\<close>

function analyze_loop ::
  "(json \<Rightarrow> string + ShipshapeResponse) \<Rightarrow> 's handler \<Rightarrow> string \<Rightarrow> nat \<Rightarrow> Reader \<Rightarrow> 's
     \<Rightarrow> ((nat \<times> string option) \<times> 's) go" where
  "analyze_loop unm handle dir tot r s =
     (case NextResult unm r of
        Panic m \<Rightarrow> Panic m
      | Ret ((v, Some err), r1) \<Rightarrow>
          if err = Client.EOF then Ret ((tot, None), s)
          else Ret ((0, Some (''received an error from calling run: '' @ client_error_text err)), s)
      | Ret ((v, None), r1) \<Rightarrow>
          let msg = (case v of None \<Rightarrow> \<lparr>sresp_analyze_response = []\<rparr> | Some m \<Rightarrow> m)
          in go_bind (handle msg dir s) (\<lambda>(err, s1).
               case err of
                 Some e \<Rightarrow> Ret ((0, Some (''could not parse results: '' @ e)), s1)
               | None \<Rightarrow> analyze_loop unm handle dir (tot + numNotes msg) r1 s1))"
  by pat_completeness auto
termination
  by (relation "measure (\<lambda>(unm, handle, dir, tot, r, s). stream_left r)")
    (auto dest: NextResult_consumes)

declare analyze_loop.simps [simp del]

definition analyze ::
  "'w cli_env \<Rightarrow> ShipshapeRequest \<Rightarrow> string \<Rightarrow> 's handler option \<Rightarrow> 's \<Rightarrow> 'w
     \<Rightarrow> (((nat \<times> string option) \<times> 's) \<times> 'w) go" where
  "analyze env req originalDir handleResponse s w =
     (case Stream (ce_transport env) ''/ShipshapeService/Run'' (ce_request env req) w of (rd, w1) \<Rightarrow>
        go_bind (analyze_loop (ce_response env)
            (\<lambda>msg dir s. go_bind (deref handleResponse) (\<lambda>h. h msg dir s)) originalDir 0 rd s)
          (\<lambda>r. Ret (r, w1)))"

subsection \<open>Running\<close>

text \<open>
  The build step: the images of kythe are pulled, a container of that name is stopped, kythe runs,
  and the request is sent again for the stage after the build.  The flag tells whether the deferred
  stop of kythe was registered.
\<close>

definition call_error :: "nat \<times> string option \<Rightarrow> nat \<times> string option" where
  "call_error r = (case r of (n, err) \<Rightarrow> (n, map_option (\<lambda>e. ''error making service call: '' @ e) err))"

definition run_build ::
  "'w cli_env \<Rightarrow> 's Options \<Rightarrow> Paths \<Rightarrow> ShipshapeRequest \<Rightarrow> nat \<Rightarrow> 's \<Rightarrow> 'w
     \<Rightarrow> ((bool \<times> (nat \<times> string option) \<times> 's) \<times> 'w) go" where
  "run_build env opts paths req notes_so_far s w =
     (let fullKytheImage = FullImageName (Repo opts) kytheImage (Tag opts);
          w1 = (if LocalKythe opts then w else pull env fullKytheImage w)
      in case ContainerExists (ce_os env) fullKytheImage w1 of ((exists, err), w2) \<Rightarrow>
        (case err of
           Some e \<Rightarrow> Ret ((False, call_error (notes_so_far, Some e), s), w2)
         | None \<Rightarrow>
             let w3 = (if exists then stop env fullKytheImage 0 w2 else w2)
             in case RunKythe (ce_os env) (ce_docker env) (ce_home env w3) fullKytheImage ''kythe''
                       (pa_absRoot paths) (Build opts) (Dind opts) w3 of (result, w4) \<Rightarrow>
                  (case cr_Err result of
                     Some e \<Rightarrow> Ret ((True, (notes_so_far, Some (''error from run: '' @ e)), s), w4)
                   | None \<Rightarrow>
                       go_bind (analyze env (req\<lparr>sreq_stage := Some Stage_POST_BUILD\<rparr>) (pa_origDir paths)
                                  (HandleResponse opts) s w4)
                         (\<lambda>(((n, err), s1), w5). Ret ((True, call_error (notes_so_far + n, err), s1), w5)))))"

definition responses_done :: "'s Options \<Rightarrow> nat \<times> string option \<Rightarrow> 's \<Rightarrow> (nat \<times> string option) \<times> 's" where
  "responses_done opts r s =
     (case r of
        (n, Some err) \<Rightarrow> ((n, Some err), s)
      | (n, None) \<Rightarrow> (case ResponsesDone opts of
          None \<Rightarrow> ((n, None), s)
        | Some f \<Rightarrow> (case f s of (err, s1) \<Rightarrow> ((n, err), s1))))"

definition request_files :: "'s Options \<Rightarrow> Paths \<Rightarrow> string list" where
  "request_files opts paths = (if pa_isDir paths then [] else [Base (File opts)])"

definition run_analyses ::
  "'w cli_env \<Rightarrow> 's Options \<Rightarrow> Paths \<Rightarrow> 's \<Rightarrow> 'w \<Rightarrow> (((nat \<times> string option) \<times> 's) \<times> 'w) go" where
  "run_analyses env opts paths s w =
     (let req = createRequest (TriggerCats opts) (request_files opts paths) (Event opts)
                  (path_Join [workspace, pa_relativeRoot paths]) Stage_PRE_BUILD
      in go_bind (analyze env req (pa_origDir paths) (HandleResponse opts) s w) (\<lambda>(((n, err), s1), w1).
         if err \<noteq> None then Ret ((call_error (n, err), s1), w1)
         else go_bind (if Build opts \<noteq> [] then run_build env opts paths req n s1 w1
                       else Ret ((False, (n, None), s1), w1)) (\<lambda>((kythe, r, s2), w2).
              Ret (responses_done opts r s2, if kythe then stop env ''kythe'' (10 * 10 ^ 9) w2 else w2))))"

definition Run ::
  "'w cli_env \<Rightarrow> 's Options \<Rightarrow> 's \<Rightarrow> 'w \<Rightarrow> (((nat \<times> string option) \<times> 's) \<times> 'w) go" where
  "Run env opts s w =
     go_bind (startServices env opts w) (\<lambda>(st, w1).
       case st_err st of
         Some err \<Rightarrow> Ret (((0, Some err), s), cleanup env st w1)
       | None \<Rightarrow> go_bind (run_analyses env (st_options st) (st_paths st) s w1)
                   (\<lambda>(r, w2). Ret (r, cleanup env st w2)))"

subsection \<open>Where the directory is in the container\<close>

lemma workspace_render: "workspace = render True [''shipshape-workspace'']"
  by (simp add: workspace_def render_def)

lemma filter_plain: "list_all plain es \<Longrightarrow> filter (\<lambda>e. e \<noteq> []) es = es"
  by (auto simp: list_all_iff plain_def filter_id_conv)

lemma workspace_Join:
  assumes "normal True fs"
  shows "path_Join [workspace, Join ([] # fs @ [[]]) ''/''] = render True (''shipshape-workspace'' # fs)"
    "path_Join [workspace, Join (fs @ [[]]) ''/''] = render True (''shipshape-workspace'' # fs)"
    "path_Join [workspace, []] = workspace"
proof -
  have pl: "list_all plain fs" using normal_plain [OF assms] by (auto simp: list_all_iff)
  have n: "normal True (''shipshape-workspace'' # fs)"
    using assms pl normal_rooted_no_dots [OF assms] by (auto simp: plain_def list_all_iff)
  have sl: "\<And>x. x \<in> set fs \<Longrightarrow> CHR ''/'' \<notin> set x" using pl by (auto simp: list_all_iff plain_def)
  have c: "Clean (Join ([] # ''shipshape-workspace'' # xs) ''/'') = render True (''shipshape-workspace'' # fs)"
    if "filter (\<lambda>e. e \<noteq> []) xs = fs" "\<And>x. x \<in> set xs \<Longrightarrow> CHR ''/'' \<notin> set x" for xs
  proof -
    have "CHR ''/'' \<notin> set x" if "x \<in> set (''shipshape-workspace'' # xs)" for x
      using that \<open>\<And>x. x \<in> set xs \<Longrightarrow> CHR ''/'' \<notin> set x\<close> by auto
    moreover have "filter (\<lambda>e. e \<noteq> []) (''shipshape-workspace'' # xs) = ''shipshape-workspace'' # fs"
      using that(1) by simp
    ultimately show ?thesis
      using Clean_Join_rooted [of "''shipshape-workspace'' # xs"] n by (metis list.distinct(1))
  qed
  have "Clean (Join ([] # ''shipshape-workspace'' # [] # fs @ [[]]) ''/'') = render True (''shipshape-workspace'' # fs)"
    "Clean (Join ([] # ''shipshape-workspace'' # fs @ [[]]) ''/'') = render True (''shipshape-workspace'' # fs)"
    using sl filter_plain [OF pl] by (intro c; auto)+
  then show "path_Join [workspace, Join ([] # fs @ [[]]) ''/''] = render True (''shipshape-workspace'' # fs)"
    "path_Join [workspace, Join (fs @ [[]]) ''/''] = render True (''shipshape-workspace'' # fs)"
    by (simp_all add: workspace_def Join_Cons)
  show "path_Join [workspace, []] = workspace" by code_simp
qed

text \<open>C20: when the directory to analyze is the mapped directory or lies below it, a reused service
  is told the directory's true place in the container: the same path below
  \<open>/shipshape-workspace\<close> that it has below the mapped directory.\<close>

theorem mapped_root:
  assumes "normal True (es @ fs)"
  shows "fst (mapped_path (render True (es @ fs)) (render True es))
    \<and> path_Join [workspace, snd (mapped_path (render True (es @ fs)) (render True es))]
        = render True (''shipshape-workspace'' # fs)"
proof (cases "fs = []")
  case True
  then show ?thesis using workspace_Join(3) [of "[]"] by (simp add: mapped_path_def workspace_render)
next
  case False
  have fs: "normal True fs"
    using normal_rooted_no_dots [OF assms] normal_plain [OF assms]
    by (intro normal_no_dots) (auto simp: list_all_iff)
  show ?thesis
  proof (cases "es = []")
    case True
    have "Join fs ''/'' @ ''/'' = Join (fs @ [[]]) ''/''" using False by (simp add: Join_append)
    moreover have "hd fs \<noteq> []" using False normal_plain [OF fs] by (simp add: plain_def)
    then obtain c r where cr: "Join fs ''/'' = c # r"
      using False by (cases "Join fs ''/''"; cases fs; cases "tl fs") auto
    ultimately show ?thesis
      using workspace_Join(2) [OF fs] mapped_path_longer [of "''/''" c r] True by (simp add: render_def)
  next
    case es: False
    have "render True (es @ fs) = render True es @ CHR ''/'' # Join fs ''/''"
      using es False by (simp add: render_def Join_append)
    moreover have "CHR ''/'' # Join fs ''/'' @ ''/'' = Join ([] # fs @ [[]]) ''/''"
      using False by (simp add: Join_Cons Join_append)
    ultimately show ?thesis
      using workspace_Join(1) [OF fs] by (simp add: mapped_path_longer)
  qed
qed

theorem mapped_root_witness:
  "fst (mapped_path ''/home/me/src/lib'' ''/home/me'')
   \<and> path_Join [workspace, snd (mapped_path ''/home/me/src/lib'' ''/home/me'')] = ''/shipshape-workspace/src/lib''"
  using mapped_root [of "[''home'', ''me'']" "[''src'', ''lib'']"]
  by (simp add: plain_def render_def)

text \<open>A directory beside the mapped one, whose name only starts alike, is taken for a part of it, and
  the service is sent to a directory that is not there.\<close>

lemma mapped_beside:
  "mapped_path ''/home/me2'' ''/home/me'' = (True, ''2/'')"
  "path_Join [workspace, ''2/''] = ''/shipshape-workspace/2''"
  by code_simp+

subsection \<open>Names and ports\<close>

lemma FullImageName_parts:
  obtains pre suf where "FullImageName repo img tag = pre @ img @ suf"
    "pre = [] \<or> (\<exists>q. pre = q @ ''/'')" "suf = (if tag = [] then [] else CHR '':'' # tag)"
proof -
  define pre where "pre = (if repo \<noteq> [] \<and> \<not> HasSuffix repo ''/'' then repo @ ''/'' else repo)"
  have "FullImageName repo img tag = pre @ img @ (if tag = [] then [] else CHR '':'' # tag)"
    by (simp add: FullImageName_def pre_def Let_def)
  moreover have "pre = [] \<or> (\<exists>q. pre = q @ ''/'')" by (auto simp: pre_def HasSuffix_iff)
  ultimately show thesis using that by blast
qed

lemma LastIndex_less: "LastIndex s d < int (length s)"
proof (cases "d \<in> set s")
  case True
  then obtain p r where "s = p @ d # r" "d \<notin> set r" by (meson split_list_last)
  then show ?thesis by (simp add: LastIndex_cut)
qed (simp add: LastIndex_no)

lemma last_index_from_append:
  "d \<notin> set r \<Longrightarrow> last_index_from i b (p @ r) d = last_index_from i b p d"
  by (induction p arbitrary: i b) (simp_all add: last_index_from_no)

lemma LastIndex_append: "d \<notin> set r \<Longrightarrow> LastIndex (p @ r) d = LastIndex p d"
  by (simp add: LastIndex_def last_index_from_append)

text \<open>Whatever the repository (with a port in its host or not, with a slash at its end or not)
  and the tag (none included), the container of an analyzer image is named after the image and its
  number, and listens at port 10010 plus that number.\<close>

theorem container_of_full_image:
  assumes "CHR ''/'' \<notin> set img" "CHR '':'' \<notin> set img" "CHR ''/'' \<notin> set tag" "CHR '':'' \<notin> set tag"
  shows "getContainerAndAddress (FullImageName repo img tag) i = (img @ ''_'' @ Itoa (int i), 10010 + int i)"
proof -
  obtain pre suf where p: "FullImageName repo img tag = pre @ img @ suf"
    "pre = [] \<or> (\<exists>q. pre = q @ ''/'')" "suf = (if tag = [] then [] else CHR '':'' # tag)"
    by (rule FullImageName_parts)
  have slash: "LastIndex (pre @ img @ suf) CHR ''/'' = int (length pre) - 1"
    using p(2) assms(1,3) p(3) LastIndex_cut [of "CHR ''/''" "img @ suf"] by (auto simp: LastIndex_no)
  have colon: "LastIndex (pre @ img @ suf) CHR '':'' = (if tag = [] then LastIndex pre CHR '':'' else int (length (pre @ img)))"
    using p(3) assms(2,4) LastIndex_cut [of "CHR '':''" tag "pre @ img"] LastIndex_append [of "CHR '':''" img pre] by simp
  have "LastIndex pre CHR '':'' = - 1 \<or> LastIndex pre CHR '':'' < int (length pre) - 1"
    using p(2) LastIndex_less [of _ "CHR '':''"] LastIndex_append [of "CHR '':''" "''/''"]
    by (auto simp: LastIndex_no)
  then show ?thesis using p slash colon by (auto simp: getContainerAndAddress_def Let_def)
qed

theorem container_of_full_image_witness:
  "getContainerAndAddress (FullImageName ''localhost:5000/team'' ''lint'' ''prod'') 2 = (''lint_2'', 10012)"
  using container_of_full_image [of "''lint''" "''prod''" "''localhost:5000/team''" 2]
  by (simp add: Itoa_def itoa_nat.simps digit_chars)

lemma container_name_inj:
  assumes "fst (getContainerAndAddress a i) = fst (getContainerAndAddress b j)"
  shows "i = j"
proof -
  obtain x y where "x @ ''_'' @ itoa_nat i = y @ ''_'' @ itoa_nat j"
    using assms by (auto simp: getContainerAndAddress_def Let_def Itoa_def)
  then have e: "rev (itoa_nat i) @ CHR ''_'' # rev x = rev (itoa_nat j) @ CHR ''_'' # rev y"
    by (metis append.simps(1,2) append_assoc rev.simps(2) rev_append rev_rev_ident)
  have "takeWhile is_digit (rev (itoa_nat n) @ CHR ''_'' # z) = rev (itoa_nat n)" for n z
    using itoa_nat_digits [of n] by (subst takeWhile_append2) (auto simp: is_digit_def)
  then have "itoa_nat i = itoa_nat j" using e by (metis rev_rev_ident)
  then show ?thesis by (rule itoa_nat_inj)
qed

definition finish_ok :: "'w cli_env \<Rightarrow> bool" where
  "finish_ok env \<longleftrightarrow> (\<forall>jobs. mset (ce_finish env jobs) = mset jobs)"

lemma start_analyzers_fold:
  assumes "distinct (map fst jobs)" "distinct cs"
    and "\<forall>(i, img) \<in> set jobs. fst (getContainerAndAddress img i) \<notin> set cs"
    and "fold (start_analyzer env d p) jobs ((cs, es), w) = ((cs', es'), w')"
  shows "distinct cs' \<and> set cs' \<subseteq> set cs \<union> (\<lambda>(i, img). fst (getContainerAndAddress img i)) ` set jobs
    \<and> length cs' + length es' \<le> length cs + length es + length jobs"
  using assms
proof (induction jobs arbitrary: cs es w)
  case (Cons job jobs)
  obtain i img where job: "job = (i, img)" by (cases job)
  obtain cs1 es1 w1 where s: "start_analyzer env d p job ((cs, es), w) = ((cs1, es1), w1)"
    by (metis prod.collapse)
  have cs1: "cs1 = cs \<or> cs1 = cs @ [fst (getContainerAndAddress img i)]"
    "length cs1 + length es1 \<le> length cs + length es + 1"
    using s by (auto simp: start_analyzer_def start_container_def run_analyzer_def job
        split: prod.splits if_splits option.splits)
  have d1: "distinct cs1" using cs1(1) Cons.prems(2,3) job by auto
  have "\<forall>(j, img') \<in> set jobs. fst (getContainerAndAddress img' j) \<notin> set cs1"
  proof clarify
    fix j img'
    assume j: "(j, img') \<in> set jobs" "fst (getContainerAndAddress img' j) \<in> set cs1"
    have "j \<noteq> i" using Cons.prems(1) j(1) job by force
    then show False using cs1(1) j Cons.prems(3) container_name_inj [of img' j img i] by auto
  qed
  moreover have "fold (start_analyzer env d p) jobs ((cs1, es1), w1) = ((cs', es'), w')"
    using Cons.prems(4) s by simp
  moreover have "distinct (map fst jobs)" using Cons.prems(1) by simp
  ultimately have "distinct cs' \<and> set cs' \<subseteq> set cs1 \<union> (\<lambda>(i, img). fst (getContainerAndAddress img i)) ` set jobs
    \<and> length cs' + length es' \<le> length cs1 + length es1 + length jobs"
    using Cons.IH [OF _ d1] by blast
  then show ?case using cs1 job by auto
qed simp_all

lemma finish_jobs:
  assumes "finish_ok env"
  shows "set (ce_finish env jobs) = set jobs" "length (ce_finish env jobs) = length jobs"
    "distinct (map fst jobs) \<Longrightarrow> distinct (map fst (ce_finish env jobs))"
proof -
  have m: "mset (ce_finish env jobs) = mset jobs" using assms by (simp add: finish_ok_def)
  then show "set (ce_finish env jobs) = set jobs" "length (ce_finish env jobs) = length jobs"
    by (metis mset_eq_setD, metis mset_eq_length)
  have "mset (map fst (ce_finish env jobs)) = mset (map fst jobs)" using m by simp
  then show "distinct (map fst jobs) \<Longrightarrow> distinct (map fst (ce_finish env jobs))"
    by (metis mset_eq_imp_distinct_iff)
qed

text \<open>Whatever Docker answers and in whatever order the analyzers come up, the containers the
  service is linked to are pairwise distinct, each is the container of one of the images under its
  own number, and no image is counted twice among them and the errors.\<close>

theorem startAnalyzers_names:
  assumes "finish_ok env" "startAnalyzers env d imgs p w = ((cs, es), w')"
  shows "distinct cs \<and> (\<forall>c \<in> set cs. \<exists>i < length imgs. c = fst (getContainerAndAddress (imgs ! i) i))
    \<and> length cs + length es \<le> length imgs"
proof -
  let ?jobs = "ce_finish env (enumerate 0 imgs)"
  have "distinct cs \<and> set cs \<subseteq> set [] \<union> (\<lambda>(i, img). fst (getContainerAndAddress img i)) ` set ?jobs
    \<and> length cs + length es \<le> length ([] :: string list) + length ([] :: string list) + length ?jobs"
    by (rule start_analyzers_fold [OF _ _ _ assms(2) [unfolded startAnalyzers_def]])
      (simp_all add: finish_jobs(3) [OF assms(1)])
  then show ?thesis
    using finish_jobs(1,2) [OF assms(1), of "enumerate 0 imgs"]
    by (force simp: in_set_enumerate_eq)
qed

lemma services_up_options [simp]: "st_options (services_up paths opts res) = opts"
  by (simp add: services_up_def split: sum.splits)

lemma startServices_handlers:
  assumes "startServices env opts w = Ret (st, w1)"
  shows "HandleResponse (st_options st) = HandleResponse opts \<and> ResponsesDone (st_options st) = ResponsesDone opts"
  using assms
  by (auto simp: startServices_def Let_def go_bind_Ret_iff split: sum.splits prod.splits if_splits)

definition quiet_env :: "string cli_env" where
  "quiet_env = \<lparr>ce_os = plain_os\<lparr>Exec := (\<lambda>argv w. (\<lparr>xr_stdout = [], xr_stderr = [], xr_err = None\<rparr>, w))\<rparr>,
     ce_docker = docker_plain, ce_stat = (\<lambda>f w. Inr True), ce_home = (\<lambda>w. ''/root''),
     ce_yaml = (\<lambda>t. Inl ''not read''), ce_config = (\<lambda>xs. xs), ce_finish = rev,
     ce_clock = \<lparr>Now = (\<lambda>w. 0), Sleep = (\<lambda>d w. w), Ping = (\<lambda>w. (None, w))\<rparr>,
     ce_transport = \<lparr>SendRequest = (\<lambda>v m ps w. (Inl ''refused'', w))\<rparr>,
     ce_request = (\<lambda>req. Inr JNull), ce_response = (\<lambda>j. Inl ''not read'')\<rparr>"

lemma finish_quiet: "finish_ok quiet_env"
  by (simp add: finish_ok_def quiet_env_def)

theorem startAnalyzers_names_witness:
  "\<exists>cs es w'. startAnalyzers quiet_env ''/src'' [''repo/lint:v1'', ''repo/lint:v2''] False ''/'' = ((cs, es), w')
     \<and> distinct cs \<and> length cs + length es \<le> 2"
proof -
  obtain cs es w' where r: "startAnalyzers quiet_env ''/src'' [''repo/lint:v1'', ''repo/lint:v2''] False ''/'' = ((cs, es), w')"
    by (metis prod.collapse)
  then show ?thesis using startAnalyzers_names [OF finish_quiet r] by simp
qed

text \<open>Analyzers that already run with the right image are not among the containers: a service that
  is started next to them is not linked to them.\<close>

lemma reused_not_linked:
  assumes "\<And>img i w. fst (ImageMatches (ce_os env) img (fst (getContainerAndAddress img i)) w)"
  shows "fst (startAnalyzers env d imgs p w) = ([], [])"
proof -
  have "fst (fold (start_analyzer env d p) jobs ((cs, es), w)) = (cs, es)" for jobs cs es w
  proof (induction jobs arbitrary: w)
    case (Cons job jobs)
    obtain i img where "job = (i, img)" by (cases job)
    with Cons assms [of img i w] show ?case
      by (auto simp: start_analyzer_def start_container_def split: prod.splits)
  qed simp
  then show ?thesis by (simp add: startAnalyzers_def)
qed

end
