(* ===== verification/MessageJson.thy ===== *)
theory MessageJson
  imports Messages Protocol
begin

text \<open>
  The messages of \<open>shipshape/proto\<close> as JSON, the form in which they are the parameters and results of
  RPCs.  \<open>encoding/json\<close> works through the fields of the generated structs by reflection: a field has
  the name of its tag (\<open>json:"repo_root,omitempty"\<close>), and is left out when it is a nil pointer or an
  empty slice.  So a struct is a list of fields here, and both directions are defined on the list.

  Reading is that of \<open>Protocol\<close>.  A slice is read over the elements it had.  Strings are taken to be
  the valid UTF-8 that \<open>json.Marshal\<close> leaves as it is.  The error of an enumeration names the kind of
  the offending value where Go quotes its text.

  The Go slices of messages are slices of pointers.  The lists here have no nil elements: where a client
  sends \<open>null\<close> as an element of a repeated message, Go keeps a nil pointer, which code like \<open>filterResults\<close>
  dereferences, and \<open>read_elems\<close> reads an empty message.  No encoder of this library writes such an
  element.  So what is shown of decoded messages is about texts without null elements.
\<close>

subsection \<open>Codecs\<close>

type_synonym 'a reading = "json \<Rightarrow> 'a \<times> string option \<Rightarrow> 'a \<times> string option"

record 'a jcodec =
  jc_zero :: 'a
  jc_write :: "'a \<Rightarrow> json"
  jc_read :: "'a reading"

record 'r field =
  fd_name :: string
  fd_write :: "'r \<Rightarrow> raw"
  fd_read :: "'r reading"

text \<open>A field of a struct: what it holds is read by \<open>get\<close> and changed by \<open>upd\<close>.\<close>

definition at_field :: "('r \<Rightarrow> 'a) \<Rightarrow> (('a \<Rightarrow> 'a) \<Rightarrow> 'r \<Rightarrow> 'r) \<Rightarrow> 'a reading \<Rightarrow> 'r reading" where
  "at_field get upd rd j s = (case rd j (get (fst s), snd s) of (v, err) \<Rightarrow> (upd (\<lambda>_. v) (fst s), err))"

definition read_ptr :: "'a jcodec \<Rightarrow> 'a option reading" where
  "read_ptr c j s = (case j of
     JNull \<Rightarrow> (None, snd s)
   | _ \<Rightarrow> (case jc_read c j (case fst s of None \<Rightarrow> jc_zero c | Some v \<Rightarrow> v, snd s) of (v, err) \<Rightarrow> (Some v, err)))"

definition ptr_field ::
  "string \<Rightarrow> ('r \<Rightarrow> 'a option) \<Rightarrow> (('a option \<Rightarrow> 'a option) \<Rightarrow> 'r \<Rightarrow> 'r) \<Rightarrow> 'a jcodec \<Rightarrow> 'r field" where
  "ptr_field name get upd c = \<lparr>fd_name = name, fd_write = (\<lambda>r. map_option (jc_write c) (get r)),
     fd_read = at_field get upd (read_ptr c)\<rparr>"

fun read_elems :: "'a jcodec \<Rightarrow> json list \<Rightarrow> 'a list \<Rightarrow> string option \<Rightarrow> 'a list \<times> string option" where
  "read_elems c [] old err = ([], err)"
| "read_elems c (j # js) old err =
     (case jc_read c j (case old of [] \<Rightarrow> jc_zero c | v # _ \<Rightarrow> v, err) of (v, err1) \<Rightarrow>
        case read_elems c js (tl old) err1 of (vs, err2) \<Rightarrow> (v # vs, err2))"

definition read_slice :: "string \<Rightarrow> 'a jcodec \<Rightarrow> 'a list reading" where
  "read_slice tname c j s = (case j of
     JNull \<Rightarrow> ([], snd s)
   | JArr js \<Rightarrow> read_elems c js (fst s) (snd s)
   | _ \<Rightarrow> (fst s, save_error (snd s) (type_error j tname)))"

definition slice_field ::
  "string \<Rightarrow> string \<Rightarrow> ('r \<Rightarrow> 'a list) \<Rightarrow> (('a list \<Rightarrow> 'a list) \<Rightarrow> 'r \<Rightarrow> 'r) \<Rightarrow> 'a jcodec \<Rightarrow> 'r field" where
  "slice_field name tname get upd c =
     \<lparr>fd_name = name, fd_write = (\<lambda>r. if get r = [] then None else Some (JArr (map (jc_write c) (get r)))),
      fd_read = at_field get upd (read_slice tname c)\<rparr>"

definition write_struct :: "'r field list \<Rightarrow> 'r \<Rightarrow> json" where
  "write_struct fs r = JObj (concat (map (\<lambda>f. raw_member (fd_name f) (fd_write f r)) fs))"

fun read_member :: "'r field list \<Rightarrow> string \<times> json \<Rightarrow> 'r \<times> string option \<Rightarrow> 'r \<times> string option" where
  "read_member [] m s = s"
| "read_member (f # fs) (k, j) s = (if same_name k (fd_name f) then fd_read f j s else read_member fs (k, j) s)"

definition read_struct :: "string \<Rightarrow> 'r field list \<Rightarrow> 'r reading" where
  "read_struct tname fs j s = (case j of
     JObj ms \<Rightarrow> fold (read_member fs) ms s
   | JNull \<Rightarrow> s
   | _ \<Rightarrow> (fst s, save_error (snd s) (type_error j tname)))"

definition struct_codec :: "string \<Rightarrow> 'r field list \<Rightarrow> 'r \<Rightarrow> 'r jcodec" where
  "struct_codec tname fs zero = \<lparr>jc_zero = zero, jc_write = write_struct fs, jc_read = read_struct tname fs\<rparr>"

text \<open>\<open>json.Marshal\<close> and \<open>json.Unmarshal\<close> into a fresh value.\<close>

definition marshal :: "'a jcodec \<Rightarrow> 'a \<Rightarrow> json" where
  "marshal c = jc_write c"

definition unmarshal :: "'a jcodec \<Rightarrow> json \<Rightarrow> string + 'a" where
  "unmarshal c j = (case jc_read c j (jc_zero c, None) of (v, None) \<Rightarrow> Inr v | (_, Some err) \<Rightarrow> Inl err)"

subsection \<open>Basic types\<close>

definition string_codec :: "string jcodec" where
  "string_codec = \<lparr>jc_zero = [], jc_write = JStr, jc_read = read_string\<rparr>"

definition read_signed :: "string \<Rightarrow> 32 word reading" where
  "read_signed tname j s = (case j of
     JInt v \<Rightarrow> if - (2 ^ 31) \<le> v \<and> v < 2 ^ 31 then (word_of_int v, snd s)
               else (fst s, save_error (snd s) (type_error j tname))
   | JNull \<Rightarrow> s | _ \<Rightarrow> (fst s, save_error (snd s) (type_error j tname)))"

definition int32_codec :: "32 word jcodec" where
  "int32_codec = \<lparr>jc_zero = 0, jc_write = (\<lambda>w. JInt (sint w)), jc_read = read_signed ''int32''\<rparr>"

definition read_unsigned :: "string \<Rightarrow> 'l::len word reading" where
  "read_unsigned tname j s = (case j of
     JInt v \<Rightarrow> if 0 \<le> v \<and> v < 2 ^ LENGTH('l) then (word_of_int v, snd s)
               else (fst s, save_error (snd s) (type_error j tname))
   | JNull \<Rightarrow> s | _ \<Rightarrow> (fst s, save_error (snd s) (type_error j tname)))"

definition unsigned_codec :: "string \<Rightarrow> 'l::len word jcodec" where
  "unsigned_codec tname = \<lparr>jc_zero = 0, jc_write = (\<lambda>w. JInt (uint w)), jc_read = read_unsigned tname\<rparr>"

text \<open>\<open>UnmarshalJSON\<close> of an enumeration: a name it knows, or the number.  \<open>null\<close> reads as zero.\<close>

definition read_enum :: "(string \<times> 32 word) list \<Rightarrow> string \<Rightarrow> 32 word reading" where
  "read_enum names tname j s = (case j of
     JStr repr \<Rightarrow> (case map_of names repr of
         Some v \<Rightarrow> (v, snd s)
       | None \<Rightarrow> (fst s, save_error (snd s) (''unrecognized enum '' @ tname @ '' value '' @ Quote repr)))
   | _ \<Rightarrow> (case read_signed ''int32'' j (0, None) of
         (v, None) \<Rightarrow> (v, snd s)
       | (_, Some _) \<Rightarrow> (fst s, save_error (snd s) (''cannot unmarshal '' @ kind j @ '' into enum '' @ tname))))"

definition enum_codec :: "(string \<times> 32 word) list \<Rightarrow> string \<Rightarrow> 32 word jcodec" where
  "enum_codec names tname = \<lparr>jc_zero = 0, jc_write = (\<lambda>w. JInt (sint w)), jc_read = read_enum names tname\<rparr>"

subsection \<open>Reading what was written\<close>

definition codec_ok :: "'a jcodec \<Rightarrow> bool" where
  "codec_ok c \<longleftrightarrow> (\<forall>x. jc_write c x \<noteq> JNull) \<and> (\<forall>x err. jc_read c (jc_write c x) (jc_zero c, err) = (x, err))"

lemma unmarshal_marshal: "codec_ok c \<Longrightarrow> unmarshal c (marshal c x) = Inr x"
  by (simp add: codec_ok_def unmarshal_def marshal_def)

lemma codec_ok_string: "codec_ok string_codec"
  by (simp add: codec_ok_def string_codec_def)

lemma signed_in_range: "- (2 ^ 31) \<le> sint (w :: 32 word) \<and> sint w < 2 ^ 31"
  using sint_range_size [of w] by (simp add: word_size)

lemma codec_ok_int32: "codec_ok int32_codec"
  using signed_in_range by (simp add: codec_ok_def int32_codec_def read_signed_def)

lemma codec_ok_unsigned: "codec_ok (unsigned_codec tname)"
  by (simp add: codec_ok_def unsigned_codec_def read_unsigned_def)

lemma codec_ok_enum: "codec_ok (enum_codec names tname)"
  using signed_in_range by (simp add: codec_ok_def enum_codec_def read_enum_def read_signed_def)

lemma read_elems_write:
  "codec_ok c \<Longrightarrow> read_elems c (map (jc_write c) xs) [] err = (xs, err)"
  by (induction xs arbitrary: err) (auto simp: codec_ok_def)

text \<open>Reading the field of \<open>x\<close> takes the struct \<open>r\<close> to \<open>r'\<close>.\<close>

definition moves :: "'r field \<Rightarrow> 'r \<Rightarrow> 'r \<Rightarrow> 'r \<Rightarrow> bool" where
  "moves f x r r' \<longleftrightarrow> (case fd_write f x of
     None \<Rightarrow> r' = r | Some j \<Rightarrow> \<forall>err. fd_read f j (r, err) = (r', err))"

fun moves_all :: "'r field list \<Rightarrow> 'r \<Rightarrow> 'r \<Rightarrow> 'r \<Rightarrow> bool" where
  "moves_all [] x r r' \<longleftrightarrow> r = r'"
| "moves_all (f # fs) x r r' \<longleftrightarrow> (\<exists>r1. moves f x r r1 \<and> moves_all fs x r1 r')"

lemma moves_allI: "moves f x r r1 \<Longrightarrow> moves_all fs x r1 r' \<Longrightarrow> moves_all (f # fs) x r r'"
  by auto

lemma ptr_moves:
  assumes "codec_ok c" "get r = None" "upd (\<lambda>_. None) r = r"
  shows "moves (ptr_field name get upd c) x r (upd (\<lambda>_. get x) r)"
proof (cases "get x")
  case (Some v)
  have n: "jc_write c v \<noteq> JNull" and rd: "jc_read c (jc_write c v) (jc_zero c, err) = (v, err)" for err
    using assms(1) by (simp_all add: codec_ok_def)
  have "read_ptr c (jc_write c v) (None, err) = (Some v, err)" for err
    using n rd [of err] by (cases "jc_write c v") (simp_all add: read_ptr_def)
  then show ?thesis using Some assms(2) by (simp add: moves_def ptr_field_def at_field_def)
qed (simp add: moves_def ptr_field_def assms(3))

lemma slice_moves:
  assumes "codec_ok c" "get r = []" "upd (\<lambda>_. []) r = r"
  shows "moves (slice_field name tname get upd c) x r (upd (\<lambda>_. get x) r)"
  using assms by (simp add: moves_def slice_field_def at_field_def read_slice_def read_elems_write)

definition names_distinct :: "'r field list \<Rightarrow> bool" where
  "names_distinct fs \<longleftrightarrow> distinct (map (\<lambda>f. ToUpper (fd_name f)) fs)"

lemma read_member_at:
  assumes "names_distinct fs" "f \<in> set fs"
  shows "read_member fs (fd_name f, j) s = fd_read f j s"
  using assms by (induction fs) (auto simp: names_distinct_def same_name_def image_iff)

lemma fold_moves:
  assumes "names_distinct fs" "set gs \<subseteq> set fs" "moves_all gs x r r'"
  shows "fold (read_member fs) (concat (map (\<lambda>f. raw_member (fd_name f) (fd_write f x)) gs)) (r, err) = (r', err)"
  using assms(2,3)
proof (induction gs arbitrary: r)
  case (Cons g gs)
  then obtain r1 where r1: "moves g x r r1" "moves_all gs x r1 r'" by auto
  have "fold (read_member fs) (raw_member (fd_name g) (fd_write g x)) (r, err) = (r1, err)"
    using r1(1) Cons.prems(1) read_member_at [OF assms(1), of g]
    by (auto simp: moves_def raw_member_def split: option.splits)
  then show ?case using Cons.IH [of r1] Cons.prems(1) r1(2) by simp
qed simp

lemma codec_ok_struct:
  assumes "names_distinct fs" "\<And>x. moves_all fs x zero x"
  shows "codec_ok (struct_codec tname fs zero)"
  using fold_moves [OF assms(1) subset_refl assms(2)]
  by (simp add: codec_ok_def struct_codec_def write_struct_def read_struct_def)

subsection \<open>The messages\<close>

named_theorems codec_oks \<open>types that are read as they were written\<close>

lemmas names_distinct_simps = names_distinct_def ptr_field_def slice_field_def ToUpper_def upper_char_def Let_def

declare moves_all.simps(2) [simp del]

lemmas moves_struct = moves_allI [OF ptr_moves] moves_allI [OF slice_moves]

declare codec_ok_string [codec_oks] codec_ok_int32 [codec_oks] codec_ok_unsigned [codec_oks]

definition stage_codec :: "Stage jcodec" where
  "stage_codec = enum_codec [(''PRE_BUILD'', Stage_PRE_BUILD), (''POST_BUILD'', Stage_POST_BUILD)] ''Stage''"

definition severity_codec :: "Note_Severity jcodec" where
  "severity_codec = enum_codec [(''BUILD_ERROR'', BUILD_ERROR), (''WARNING'', WARNING), (''OTHER'', OTHER)] ''Note_Severity''"

definition environment_codec :: "Environment jcodec" where
  "environment_codec = enum_codec [(''CODE_REVIEW'', CODE_REVIEW), (''LOCAL_CLIENT'', LOCAL_CLIENT),
     (''BATCH'', BATCH), (''IDE'', IDE), (''POST_SUBMIT'', POST_SUBMIT)] ''ShipshapeContext_Environment''"

lemma codec_ok_enums [codec_oks]: "codec_ok stage_codec" "codec_ok severity_codec" "codec_ok environment_codec"
  by (simp_all add: stage_codec_def severity_codec_def environment_codec_def codec_ok_enum)

definition ProjectRepoId_fields :: "ProjectRepoId field list" where
  "ProjectRepoId_fields =
     [ptr_field ''project_id'' pr_project_id pr_project_id_update string_codec,
      ptr_field ''repo_name'' pr_repo_name pr_repo_name_update string_codec]"

definition ProjectRepoId_codec :: "ProjectRepoId jcodec" where
  "ProjectRepoId_codec = struct_codec ''source_v1.ProjectRepoId'' ProjectRepoId_fields
     \<lparr>pr_project_id = None, pr_repo_name = None\<rparr>"

lemma codec_ok_ProjectRepoId [codec_oks]: "codec_ok ProjectRepoId_codec"
  unfolding ProjectRepoId_codec_def ProjectRepoId_fields_def
  by (rule codec_ok_struct) (simp add: names_distinct_simps, auto intro!: moves_struct codec_oks)

definition RepoId_fields :: "RepoId field list" where
  "RepoId_fields =
     [ptr_field ''project_repo_id'' ri_project_repo_id ri_project_repo_id_update ProjectRepoId_codec,
      ptr_field ''uid'' ri_uid ri_uid_update string_codec]"

definition RepoId_codec :: "RepoId jcodec" where
  "RepoId_codec = struct_codec ''source_v1.RepoId'' RepoId_fields
     \<lparr>ri_project_repo_id = None, ri_uid = None\<rparr>"

lemma codec_ok_RepoId [codec_oks]: "codec_ok RepoId_codec"
  unfolding RepoId_codec_def RepoId_fields_def
  by (rule codec_ok_struct) (simp add: names_distinct_simps, auto intro!: moves_struct codec_oks)

definition CloudRepoSourceContext_fields :: "CloudRepoSourceContext field list" where
  "CloudRepoSourceContext_fields =
     [ptr_field ''repo_id'' cr_repo_id cr_repo_id_update RepoId_codec,
      ptr_field ''revision_id'' cr_revision_id cr_revision_id_update string_codec,
      ptr_field ''alias_name'' cr_alias_name cr_alias_name_update string_codec]"

definition CloudRepoSourceContext_codec :: "CloudRepoSourceContext jcodec" where
  "CloudRepoSourceContext_codec = struct_codec ''source_v1.CloudRepoSourceContext'' CloudRepoSourceContext_fields
     \<lparr>cr_repo_id = None, cr_revision_id = None, cr_alias_name = None\<rparr>"

lemma codec_ok_CloudRepoSourceContext [codec_oks]: "codec_ok CloudRepoSourceContext_codec"
  unfolding CloudRepoSourceContext_codec_def CloudRepoSourceContext_fields_def
  by (rule codec_ok_struct) (simp add: names_distinct_simps, auto intro!: moves_struct codec_oks)

definition CloudWorkspaceId_fields :: "CloudWorkspaceId field list" where
  "CloudWorkspaceId_fields =
     [ptr_field ''repo_id'' cw_repo_id cw_repo_id_update RepoId_codec,
      ptr_field ''name'' cw_name cw_name_update string_codec]"

definition CloudWorkspaceId_codec :: "CloudWorkspaceId jcodec" where
  "CloudWorkspaceId_codec = struct_codec ''source_v1.CloudWorkspaceId'' CloudWorkspaceId_fields
     \<lparr>cw_repo_id = None, cw_name = None\<rparr>"

lemma codec_ok_CloudWorkspaceId [codec_oks]: "codec_ok CloudWorkspaceId_codec"
  unfolding CloudWorkspaceId_codec_def CloudWorkspaceId_fields_def
  by (rule codec_ok_struct) (simp add: names_distinct_simps, auto intro!: moves_struct codec_oks)

definition CloudWorkspaceSourceContext_fields :: "CloudWorkspaceSourceContext field list" where
  "CloudWorkspaceSourceContext_fields =
     [ptr_field ''workspace_id'' cws_workspace_id cws_workspace_id_update CloudWorkspaceId_codec,
      ptr_field ''snapshot_id'' cws_snapshot_id cws_snapshot_id_update string_codec]"

definition CloudWorkspaceSourceContext_codec :: "CloudWorkspaceSourceContext jcodec" where
  "CloudWorkspaceSourceContext_codec = struct_codec ''source_v1.CloudWorkspaceSourceContext'' CloudWorkspaceSourceContext_fields
     \<lparr>cws_workspace_id = None, cws_snapshot_id = None\<rparr>"

lemma codec_ok_CloudWorkspaceSourceContext [codec_oks]: "codec_ok CloudWorkspaceSourceContext_codec"
  unfolding CloudWorkspaceSourceContext_codec_def CloudWorkspaceSourceContext_fields_def
  by (rule codec_ok_struct) (simp add: names_distinct_simps, auto intro!: moves_struct codec_oks)

definition GerritSourceContext_fields :: "GerritSourceContext field list" where
  "GerritSourceContext_fields =
     [ptr_field ''host_uri'' g_host_uri g_host_uri_update string_codec,
      ptr_field ''gerrit_project'' g_gerrit_project g_gerrit_project_update string_codec,
      ptr_field ''revision_id'' g_revision_id g_revision_id_update string_codec,
      ptr_field ''alias_name'' g_alias_name g_alias_name_update string_codec]"

definition GerritSourceContext_codec :: "GerritSourceContext jcodec" where
  "GerritSourceContext_codec = struct_codec ''source_v1.GerritSourceContext'' GerritSourceContext_fields
     \<lparr>g_host_uri = None, g_gerrit_project = None, g_revision_id = None, g_alias_name = None\<rparr>"

lemma codec_ok_GerritSourceContext [codec_oks]: "codec_ok GerritSourceContext_codec"
  unfolding GerritSourceContext_codec_def GerritSourceContext_fields_def
  by (rule codec_ok_struct) (simp add: names_distinct_simps, auto intro!: moves_struct codec_oks)

definition SourceContext_fields :: "SourceContext field list" where
  "SourceContext_fields =
     [ptr_field ''cloud_repo'' sc_cloud_repo sc_cloud_repo_update CloudRepoSourceContext_codec,
      ptr_field ''cloud_workspace'' sc_cloud_workspace sc_cloud_workspace_update CloudWorkspaceSourceContext_codec,
      ptr_field ''gerrit'' sc_gerrit sc_gerrit_update GerritSourceContext_codec]"

definition SourceContext_codec :: "SourceContext jcodec" where
  "SourceContext_codec = struct_codec ''source_v1.SourceContext'' SourceContext_fields
     \<lparr>sc_cloud_repo = None, sc_cloud_workspace = None, sc_gerrit = None\<rparr>"

lemma codec_ok_SourceContext [codec_oks]: "codec_ok SourceContext_codec"
  unfolding SourceContext_codec_def SourceContext_fields_def
  by (rule codec_ok_struct) (simp add: names_distinct_simps, auto intro!: moves_struct codec_oks)

definition TextRange_fields :: "TextRange field list" where
  "TextRange_fields =
     [ptr_field ''start_line'' tr_start_line tr_start_line_update int32_codec,
      ptr_field ''start_column'' tr_start_column tr_start_column_update int32_codec,
      ptr_field ''end_line'' tr_end_line tr_end_line_update int32_codec,
      ptr_field ''end_column'' tr_end_column tr_end_column_update int32_codec]"

definition TextRange_codec :: "TextRange jcodec" where
  "TextRange_codec = struct_codec ''shipshape_proto.TextRange'' TextRange_fields
     \<lparr>tr_start_line = None, tr_start_column = None, tr_end_line = None, tr_end_column = None\<rparr>"

lemma codec_ok_TextRange [codec_oks]: "codec_ok TextRange_codec"
  unfolding TextRange_codec_def TextRange_fields_def
  by (rule codec_ok_struct) (simp add: names_distinct_simps, auto intro!: moves_struct codec_oks)

definition Location_fields :: "Location field list" where
  "Location_fields =
     [ptr_field ''source_context'' loc_source_context loc_source_context_update SourceContext_codec,
      ptr_field ''path'' loc_path loc_path_update string_codec,
      ptr_field ''range'' loc_range loc_range_update TextRange_codec]"

definition Location_codec :: "Location jcodec" where
  "Location_codec = struct_codec ''shipshape_proto.Location'' Location_fields
     \<lparr>loc_source_context = None, loc_path = None, loc_range = None\<rparr>"

lemma codec_ok_Location [codec_oks]: "codec_ok Location_codec"
  unfolding Location_codec_def Location_fields_def
  by (rule codec_ok_struct) (simp add: names_distinct_simps, auto intro!: moves_struct codec_oks)

definition FixRange_Position_fields :: "FixRange_Position field list" where
  "FixRange_Position_fields =
     [ptr_field ''line'' fp_line fp_line_update (unsigned_codec ''uint32''),
      ptr_field ''byte'' fp_byte fp_byte_update (unsigned_codec ''uint32'')]"

definition FixRange_Position_codec :: "FixRange_Position jcodec" where
  "FixRange_Position_codec = struct_codec ''shipshape_proto.FixRange_Position'' FixRange_Position_fields
     \<lparr>fp_line = None, fp_byte = None\<rparr>"

lemma codec_ok_FixRange_Position [codec_oks]: "codec_ok FixRange_Position_codec"
  unfolding FixRange_Position_codec_def FixRange_Position_fields_def
  by (rule codec_ok_struct) (simp add: names_distinct_simps, auto intro!: moves_struct codec_oks)

definition FixRange_fields :: "FixRange field list" where
  "FixRange_fields =
     [ptr_field ''start'' fr_start fr_start_update FixRange_Position_codec,
      ptr_field ''end'' fr_end fr_end_update FixRange_Position_codec]"

definition FixRange_codec :: "FixRange jcodec" where
  "FixRange_codec = struct_codec ''shipshape_proto.FixRange'' FixRange_fields
     \<lparr>fr_start = None, fr_end = None\<rparr>"

lemma codec_ok_FixRange [codec_oks]: "codec_ok FixRange_codec"
  unfolding FixRange_codec_def FixRange_fields_def
  by (rule codec_ok_struct) (simp add: names_distinct_simps, auto intro!: moves_struct codec_oks)

definition Replacement_fields :: "Replacement field list" where
  "Replacement_fields =
     [ptr_field ''path'' rp_path rp_path_update string_codec,
      ptr_field ''range'' rp_range rp_range_update FixRange_codec,
      ptr_field ''new_content'' rp_new_content rp_new_content_update string_codec]"

definition Replacement_codec :: "Replacement jcodec" where
  "Replacement_codec = struct_codec ''shipshape_proto.Replacement'' Replacement_fields
     \<lparr>rp_path = None, rp_range = None, rp_new_content = None\<rparr>"

lemma codec_ok_Replacement [codec_oks]: "codec_ok Replacement_codec"
  unfolding Replacement_codec_def Replacement_fields_def
  by (rule codec_ok_struct) (simp add: names_distinct_simps, auto intro!: moves_struct codec_oks)

definition Fix_fields :: "Fix field list" where
  "Fix_fields =
     [ptr_field ''description'' fix_description fix_description_update string_codec,
      ptr_field ''source_context'' fix_source_context fix_source_context_update SourceContext_codec,
      slice_field ''replacement'' ''[]*shipshape_proto.Replacement'' fix_replacement fix_replacement_update Replacement_codec]"

definition Fix_codec :: "Fix jcodec" where
  "Fix_codec = struct_codec ''shipshape_proto.Fix'' Fix_fields
     \<lparr>fix_description = None, fix_source_context = None, fix_replacement = []\<rparr>"

lemma codec_ok_Fix [codec_oks]: "codec_ok Fix_codec"
  unfolding Fix_codec_def Fix_fields_def
  by (rule codec_ok_struct) (simp add: names_distinct_simps, auto intro!: moves_struct codec_oks)

definition AdditionalData_fields :: "AdditionalData field list" where
  "AdditionalData_fields =
     [ptr_field ''generation_timestamp_millis'' ad_generation_timestamp_millis ad_generation_timestamp_millis_update (unsigned_codec ''uint64'')]"

definition AdditionalData_codec :: "AdditionalData jcodec" where
  "AdditionalData_codec = struct_codec ''shipshape_proto.AdditionalData'' AdditionalData_fields
     \<lparr>ad_generation_timestamp_millis = None\<rparr>"

lemma codec_ok_AdditionalData [codec_oks]: "codec_ok AdditionalData_codec"
  unfolding AdditionalData_codec_def AdditionalData_fields_def
  by (rule codec_ok_struct) (simp add: names_distinct_simps, auto intro!: moves_struct codec_oks)

definition Note_fields :: "Note field list" where
  "Note_fields =
     [ptr_field ''category'' n_category n_category_update string_codec,
      ptr_field ''subcategory'' n_subcategory n_subcategory_update string_codec,
      ptr_field ''location'' n_location n_location_update Location_codec,
      ptr_field ''description'' n_description n_description_update string_codec,
      ptr_field ''more_info'' n_more_info n_more_info_update string_codec,
      ptr_field ''additional_data'' n_additional_data n_additional_data_update AdditionalData_codec,
      slice_field ''fix'' ''[]*shipshape_proto.Fix'' n_fix n_fix_update Fix_codec,
      ptr_field ''severity'' n_severity n_severity_update severity_codec]"

definition Note_codec :: "Note jcodec" where
  "Note_codec = struct_codec ''shipshape_proto.Note'' Note_fields
     \<lparr>n_category = None, n_subcategory = None, n_location = None, n_description = None, n_more_info = None, n_additional_data = None, n_fix = [], n_severity = None\<rparr>"

lemma codec_ok_Note [codec_oks]: "codec_ok Note_codec"
  unfolding Note_codec_def Note_fields_def
  by (rule codec_ok_struct) (simp add: names_distinct_simps, auto intro!: moves_struct codec_oks)

definition ChangelistDetails_fields :: "ChangelistDetails field list" where
  "ChangelistDetails_fields =
     [ptr_field ''changelist'' cl_changelist cl_changelist_update string_codec,
      ptr_field ''changelist_author'' cl_changelist_author cl_changelist_author_update string_codec,
      slice_field ''changelist_reviewer'' ''[]string'' cl_changelist_reviewer cl_changelist_reviewer_update string_codec,
      slice_field ''changelist_cc'' ''[]string'' cl_changelist_cc cl_changelist_cc_update string_codec,
      ptr_field ''changelist_description'' cl_changelist_description cl_changelist_description_update string_codec,
      slice_field ''deleted_file_path'' ''[]string'' cl_deleted_file_path cl_deleted_file_path_update string_codec,
      ptr_field ''client_name'' cl_client_name cl_client_name_update string_codec]"

definition ChangelistDetails_codec :: "ChangelistDetails jcodec" where
  "ChangelistDetails_codec = struct_codec ''shipshape_proto.ChangelistDetails'' ChangelistDetails_fields
     \<lparr>cl_changelist = None, cl_changelist_author = None, cl_changelist_reviewer = [], cl_changelist_cc = [], cl_changelist_description = None, cl_deleted_file_path = [], cl_client_name = None\<rparr>"

lemma codec_ok_ChangelistDetails [codec_oks]: "codec_ok ChangelistDetails_codec"
  unfolding ChangelistDetails_codec_def ChangelistDetails_fields_def
  by (rule codec_ok_struct) (simp add: names_distinct_simps, auto intro!: moves_struct codec_oks)

definition CompilationDetails_fields :: "CompilationDetails field list" where
  "CompilationDetails_fields =
     [ptr_field ''compilation_description_path'' cd_compilation_description_path cd_compilation_description_path_update string_codec]"

definition CompilationDetails_codec :: "CompilationDetails jcodec" where
  "CompilationDetails_codec = struct_codec ''shipshape_proto.CompilationDetails'' CompilationDetails_fields
     \<lparr>cd_compilation_description_path = None\<rparr>"

lemma codec_ok_CompilationDetails [codec_oks]: "codec_ok CompilationDetails_codec"
  unfolding CompilationDetails_codec_def CompilationDetails_fields_def
  by (rule codec_ok_struct) (simp add: names_distinct_simps, auto intro!: moves_struct codec_oks)

definition ShipshapeContext_fields :: "ShipshapeContext field list" where
  "ShipshapeContext_fields =
     [ptr_field ''environment'' ctx_environment ctx_environment_update environment_codec,
      ptr_field ''source_context'' ctx_source_context ctx_source_context_update SourceContext_codec,
      slice_field ''file_path'' ''[]string'' ctx_file_path ctx_file_path_update string_codec,
      ptr_field ''repo_root'' ctx_repo_root ctx_repo_root_update string_codec,
      ptr_field ''changelist_details'' ctx_changelist_details ctx_changelist_details_update ChangelistDetails_codec,
      ptr_field ''compilation_details'' ctx_compilation_details ctx_compilation_details_update CompilationDetails_codec]"

definition ShipshapeContext_codec :: "ShipshapeContext jcodec" where
  "ShipshapeContext_codec = struct_codec ''shipshape_proto.ShipshapeContext'' ShipshapeContext_fields
     \<lparr>ctx_environment = None, ctx_source_context = None, ctx_file_path = [], ctx_repo_root = None, ctx_changelist_details = None, ctx_compilation_details = None\<rparr>"

lemma codec_ok_ShipshapeContext [codec_oks]: "codec_ok ShipshapeContext_codec"
  unfolding ShipshapeContext_codec_def ShipshapeContext_fields_def
  by (rule codec_ok_struct) (simp add: names_distinct_simps, auto intro!: moves_struct codec_oks)

definition GetCategoryResponse_fields :: "GetCategoryResponse field list" where
  "GetCategoryResponse_fields =
     [slice_field ''category'' ''[]string'' gcr_category gcr_category_update string_codec]"

definition GetCategoryResponse_codec :: "GetCategoryResponse jcodec" where
  "GetCategoryResponse_codec = struct_codec ''shipshape_proto.GetCategoryResponse'' GetCategoryResponse_fields
     \<lparr>gcr_category = []\<rparr>"

lemma codec_ok_GetCategoryResponse [codec_oks]: "codec_ok GetCategoryResponse_codec"
  unfolding GetCategoryResponse_codec_def GetCategoryResponse_fields_def
  by (rule codec_ok_struct) (simp add: names_distinct_simps, auto intro!: moves_struct codec_oks)

definition GetStageResponse_fields :: "GetStageResponse field list" where
  "GetStageResponse_fields =
     [ptr_field ''stage'' gsr_stage gsr_stage_update stage_codec]"

definition GetStageResponse_codec :: "GetStageResponse jcodec" where
  "GetStageResponse_codec = struct_codec ''shipshape_proto.GetStageResponse'' GetStageResponse_fields
     \<lparr>gsr_stage = None\<rparr>"

lemma codec_ok_GetStageResponse [codec_oks]: "codec_ok GetStageResponse_codec"
  unfolding GetStageResponse_codec_def GetStageResponse_fields_def
  by (rule codec_ok_struct) (simp add: names_distinct_simps, auto intro!: moves_struct codec_oks)

definition AnalyzeRequest_fields :: "AnalyzeRequest field list" where
  "AnalyzeRequest_fields =
     [ptr_field ''shipshape_context'' areq_context areq_context_update ShipshapeContext_codec,
      slice_field ''category'' ''[]string'' areq_category areq_category_update string_codec]"

definition AnalyzeRequest_codec :: "AnalyzeRequest jcodec" where
  "AnalyzeRequest_codec = struct_codec ''shipshape_proto.AnalyzeRequest'' AnalyzeRequest_fields
     \<lparr>areq_context = None, areq_category = []\<rparr>"

lemma codec_ok_AnalyzeRequest [codec_oks]: "codec_ok AnalyzeRequest_codec"
  unfolding AnalyzeRequest_codec_def AnalyzeRequest_fields_def
  by (rule codec_ok_struct) (simp add: names_distinct_simps, auto intro!: moves_struct codec_oks)

definition AnalysisFailure_fields :: "AnalysisFailure field list" where
  "AnalysisFailure_fields =
     [ptr_field ''category'' f_category f_category_update string_codec,
      ptr_field ''failure_message'' f_message f_message_update string_codec]"

definition AnalysisFailure_codec :: "AnalysisFailure jcodec" where
  "AnalysisFailure_codec = struct_codec ''shipshape_proto.AnalysisFailure'' AnalysisFailure_fields
     \<lparr>f_category = None, f_message = None\<rparr>"

lemma codec_ok_AnalysisFailure [codec_oks]: "codec_ok AnalysisFailure_codec"
  unfolding AnalysisFailure_codec_def AnalysisFailure_fields_def
  by (rule codec_ok_struct) (simp add: names_distinct_simps, auto intro!: moves_struct codec_oks)

definition AnalyzeResponse_fields :: "AnalyzeResponse field list" where
  "AnalyzeResponse_fields =
     [slice_field ''note'' ''[]*shipshape_proto.Note'' ar_note ar_note_update Note_codec,
      slice_field ''failure'' ''[]*shipshape_proto.AnalysisFailure'' ar_failure ar_failure_update AnalysisFailure_codec]"

definition AnalyzeResponse_codec :: "AnalyzeResponse jcodec" where
  "AnalyzeResponse_codec = struct_codec ''shipshape_proto.AnalyzeResponse'' AnalyzeResponse_fields
     \<lparr>ar_note = [], ar_failure = []\<rparr>"

lemma codec_ok_AnalyzeResponse [codec_oks]: "codec_ok AnalyzeResponse_codec"
  unfolding AnalyzeResponse_codec_def AnalyzeResponse_fields_def
  by (rule codec_ok_struct) (simp add: names_distinct_simps, auto intro!: moves_struct codec_oks)

definition ShipshapeRequest_fields :: "ShipshapeRequest field list" where
  "ShipshapeRequest_fields =
     [ptr_field ''shipshape_context'' sreq_context sreq_context_update ShipshapeContext_codec,
      slice_field ''triggered_category'' ''[]string'' sreq_triggered_category sreq_triggered_category_update string_codec,
      ptr_field ''event'' sreq_event sreq_event_update string_codec,
      ptr_field ''stage'' sreq_stage sreq_stage_update stage_codec]"

definition ShipshapeRequest_codec :: "ShipshapeRequest jcodec" where
  "ShipshapeRequest_codec = struct_codec ''shipshape_proto.ShipshapeRequest'' ShipshapeRequest_fields
     \<lparr>sreq_context = None, sreq_triggered_category = [], sreq_event = None, sreq_stage = None\<rparr>"

lemma codec_ok_ShipshapeRequest [codec_oks]: "codec_ok ShipshapeRequest_codec"
  unfolding ShipshapeRequest_codec_def ShipshapeRequest_fields_def
  by (rule codec_ok_struct) (simp add: names_distinct_simps, auto intro!: moves_struct codec_oks)

definition ShipshapeResponse_fields :: "ShipshapeResponse field list" where
  "ShipshapeResponse_fields =
     [slice_field ''analyze_response'' ''[]*shipshape_proto.AnalyzeResponse'' sresp_analyze_response sresp_analyze_response_update AnalyzeResponse_codec]"

definition ShipshapeResponse_codec :: "ShipshapeResponse jcodec" where
  "ShipshapeResponse_codec = struct_codec ''shipshape_proto.ShipshapeResponse'' ShipshapeResponse_fields
     \<lparr>sresp_analyze_response = []\<rparr>"

lemma codec_ok_ShipshapeResponse [codec_oks]: "codec_ok ShipshapeResponse_codec"
  unfolding ShipshapeResponse_codec_def ShipshapeResponse_fields_def
  by (rule codec_ok_struct) (simp add: names_distinct_simps, auto intro!: moves_struct codec_oks)

subsection \<open>Properties\<close>

text \<open>A member the reader does not know is skipped, wherever it stands.\<close>

definition known :: "'r field list \<Rightarrow> string \<times> json \<Rightarrow> bool" where
  "known fs m \<longleftrightarrow> (\<exists>f \<in> set fs. same_name (fst m) (fd_name f))"

lemma read_member_unknown: "\<not> known fs m \<Longrightarrow> read_member fs m s = s"
  by (induction fs m s rule: read_member.induct) (auto simp: known_def)

lemma fold_known: "fold (read_member fs) ms s = fold (read_member fs) (filter (known fs) ms) s"
  by (induction ms arbitrary: s) (simp_all add: read_member_unknown)

lemma struct_unknown:
  assumes "codec_ok (struct_codec tname fs zero)" "write_struct fs x = JObj (filter (known fs) ms)"
  shows "unmarshal (struct_codec tname fs zero) (JObj ms) = Inr x"
proof -
  have "unmarshal (struct_codec tname fs zero) (JObj ms)
      = unmarshal (struct_codec tname fs zero) (marshal (struct_codec tname fs zero) x)"
    using assms(2) fold_known [of fs ms] by (simp add: unmarshal_def marshal_def struct_codec_def read_struct_def)
  then show ?thesis using unmarshal_marshal [OF assms(1)] by simp
qed

text \<open>C37: every message of the two services is read from JSON as it was written, whatever it holds: absent
  fields stay absent, numbers keep their value, values of enumerations that have no name included,
  and messages inside messages come back whole.\<close>

theorem messages_roundtrip:
  "unmarshal AnalyzeRequest_codec (marshal AnalyzeRequest_codec areq) = Inr areq
   \<and> unmarshal AnalyzeResponse_codec (marshal AnalyzeResponse_codec ar) = Inr ar
   \<and> unmarshal GetCategoryResponse_codec (marshal GetCategoryResponse_codec cat) = Inr cat
   \<and> unmarshal GetStageResponse_codec (marshal GetStageResponse_codec stage) = Inr stage
   \<and> unmarshal ShipshapeRequest_codec (marshal ShipshapeRequest_codec sreq) = Inr sreq
   \<and> unmarshal ShipshapeResponse_codec (marshal ShipshapeResponse_codec sresp) = Inr sresp"
  by (simp add: unmarshal_marshal codec_oks)

text \<open>A request that a newer client sends, with members this program does not know among its own, is
  read as the request without them.\<close>

lemma newer_request_read:
  assumes "marshal ShipshapeRequest_codec sreq = JObj (filter (known ShipshapeRequest_fields) ms)"
  shows "unmarshal ShipshapeRequest_codec (JObj ms) = Inr sreq"
  unfolding ShipshapeRequest_codec_def
  by (rule struct_unknown [OF codec_ok_ShipshapeRequest [unfolded ShipshapeRequest_codec_def]])
    (use assms in \<open>simp add: marshal_def ShipshapeRequest_codec_def struct_codec_def\<close>)

lemma newer_request_read_witness:
  "unmarshal ShipshapeRequest_codec (JObj [(''priority'', JInt 1), (''event'', JStr ''manual''), (''owner'', JNull)])
    = Inr \<lparr>sreq_context = None, sreq_triggered_category = [], sreq_event = Some ''manual'', sreq_stage = None\<rparr>"
  by (rule newer_request_read) code_simp

end
