(* ===== verification/CliMain.thy ===== *)
theory CliMain
  imports Cli MessageJson
begin

text \<open>
  \<open>shipshape/cli/shipshape.go\<close>: the command line client, its output and its exit code.

  The state the handlers work on is what is printed, the responses collected for the JSON file, and
  the file, with its text, once it is written.  \<open>jf\<close> is \<open>ioutil.WriteFile\<close>: it takes the name and the
  text; \<open>None\<close> means that all of it is written, \<open>Some\<close> says why it is not, and what the call leaves in the
  file when it got as far as opening it, which empties it.
\<close>

record main_state =
  ms_stdout :: string
  ms_all :: "AnalyzeResponse list"
  ms_file :: "(string \<times> string) option"

definition blank_state :: main_state where
  "blank_state = \<lparr>ms_stdout = [], ms_all = [], ms_file = None\<rparr>"

subsection \<open>Text output\<close>

definition print_to :: "string \<Rightarrow> main_state \<Rightarrow> main_state" where
  "print_to t s = s\<lparr>ms_stdout := ms_stdout s @ t\<rparr>"

fun failure_lines :: "AnalysisFailure list \<Rightarrow> string go" where
  "failure_lines [] = Ret []"
| "failure_lines (failure # failures) =
     go_bind (deref (f_category failure)) (\<lambda>cat. go_bind (deref (f_message failure)) (\<lambda>message.
     go_bind (failure_lines failures) (\<lambda>rest.
       Ret (''WARNING: Analyzer '' @ cat @ '' failed to run: '' @ message @ [CHR_nl] @ rest))))"

definition note_path :: "string \<Rightarrow> Note \<Rightarrow> string" where
  "note_path directory note = (case n_location note of
     None \<Rightarrow> []
   | Some loc \<Rightarrow> path_Join [directory, case loc_path loc of None \<Rightarrow> [] | Some p \<Rightarrow> p])"

definition add_note :: "string \<Rightarrow> Note \<Rightarrow> Note list go_map \<Rightarrow> Note list go_map" where
  "add_note directory note m =
     (let path = note_path directory note
      in AList.update path ((case map_of m path of None \<Rightarrow> [] | Some ns \<Rightarrow> ns) @ [note]) m)"

text \<open>The place of a note; \<open>note.GetLocation().Range\<close> reads through a nil location.\<close>

definition location_text :: "Note \<Rightarrow> string go" where
  "location_text note = go_bind (deref (n_location note)) (\<lambda>loc. Ret (case loc_range loc of
       None \<Rightarrow> []
     | Some rng \<Rightarrow> (case tr_start_line rng of
         None \<Rightarrow> []
       | Some line \<Rightarrow> (case tr_start_column rng of
           Some col \<Rightarrow> ''Line '' @ Itoa (sint line) @ '', Col '' @ Itoa (sint col) @ '' ''
         | None \<Rightarrow> ''Line '' @ Itoa (sint line) @ '' ''))))"

definition note_text :: "Note \<Rightarrow> string go" where
  "note_text note =
     go_bind (location_text note) (\<lambda>loc. go_bind (deref (n_category note)) (\<lambda>cat.
     go_bind (deref (n_description note)) (\<lambda>description.
       Ret (loc @ ''['' @ cat @ (case n_subcategory note of None \<Rightarrow> [] | Some sub \<Rightarrow> '':'' @ sub) @ '']'' @ [CHR_nl]
            @ [CHR 0x09] @ description @ [CHR_nl]))))"

fun note_texts :: "Note list \<Rightarrow> string go" where
  "note_texts [] = Ret []"
| "note_texts (note # ns) =
     go_bind (note_text note) (\<lambda>t. go_bind (note_texts ns) (\<lambda>ts. Ret (t @ ts)))"

fun file_texts :: "Note list go_map \<Rightarrow> string list \<Rightarrow> string go" where
  "file_texts m [] = Ret []"
| "file_texts m (path # paths) =
     go_bind (note_texts (case map_of m path of None \<Rightarrow> [] | Some ns \<Rightarrow> ns)) (\<lambda>t.
     go_bind (file_texts m paths) (\<lambda>ts.
       Ret ((if path \<noteq> [] then path else ''Global'') @ [CHR_nl] @ t @ [CHR_nl] @ ts)))"

definition file_notes :: "string \<Rightarrow> AnalyzeResponse list \<Rightarrow> Note list go_map" where
  "file_notes directory analyses =
     fold (\<lambda>analysis m. fold (add_note directory) (ar_note analysis) m) analyses []"

definition outputAsText ::
  "(string list \<Rightarrow> string list) \<Rightarrow> ShipshapeResponse \<Rightarrow> string \<Rightarrow> main_state
     \<Rightarrow> (string option \<times> main_state) go" where
  "outputAsText ord msg directory s =
     (let fileNotes = file_notes directory (sresp_analyze_response msg)
      in go_bind (failure_lines (concat (map ar_failure (sresp_analyze_response msg)))) (\<lambda>warnings.
         go_bind (file_texts fileNotes (ord (keys fileNotes))) (\<lambda>t.
           Ret (None, print_to (warnings @ t) s))))"

subsection \<open>The program\<close>

record flags =
  fl_args :: "string list"
  fl_analyzer_images :: string
  fl_build :: string
  fl_categories :: string
  fl_dind :: bool
  fl_event :: string
  fl_json_output :: string
  fl_repo :: string
  fl_stay_up :: bool
  fl_tag :: string
  fl_local_kythe :: bool
  fl_show_categories :: bool
  fl_hot_start :: bool

text \<open>The flags as the program declares them: the name, the default as \<open>flag\<close> prints it, and the help.\<close>

record go_flag =
  gf_name :: string
  gf_default :: string
  gf_usage :: string

definition go_flag :: "string \<Rightarrow> string \<Rightarrow> string \<Rightarrow> go_flag" where
  "go_flag name def usage = \<lparr>gf_name = name, gf_default = def, gf_usage = usage\<rparr>"

definition declared_flags :: "go_flag list" where
  "declared_flags =
     [go_flag ''analyzer_images'' '''' ''Full docker path to images of external analyzers to use (comma-separated)'',
      go_flag ''build'' '''' ''The name of the build system to use to generate compilation units. If empty, will not run the compilation step. Options are maven and go.'',
      go_flag ''categories'' '''' ''Categories to trigger (comma-separated). If none are specified, will use the .shipshape configuration file to decide which categories to run.'',
      go_flag ''inside_docker'' ''false'' ''True if the CLI is run from inside a docker container'',
      go_flag ''event'' DefaultEvent ''The name of the event to use'',
      go_flag ''json_output'' '''' ''When specified, log shipshape results to provided .json file'',
      go_flag ''repo'' DefaultRepo ''The name of the docker repo to use'',
      go_flag ''stay_up'' ''true'' ''True if we should keep the container running, false if we should stop and remove it.'',
      go_flag ''tag'' ''prod'' ''Tag to use for the analysis service image. If this is local, we will not attempt to pull the image.'',
      go_flag ''local_kythe'' ''false'' ''True if we should not pull down the kythe image. This is used for testing a new kythe image.'',
      go_flag ''show_categories'' ''false'' ''Show what categories are available instead of running analyses.'',
      go_flag ''hot_start'' ''false'' ''Just start the service, but do nothing else.'']"

text \<open>The values of the flags when the command line sets none.\<close>

definition default_flags :: flags where
  "default_flags = \<lparr>fl_args = [], fl_analyzer_images = [], fl_build = [], fl_categories = [], fl_dind = False,
     fl_event = DefaultEvent, fl_json_output = [], fl_repo = DefaultRepo, fl_stay_up = True, fl_tag = ''prod'',
     fl_local_kythe = False, fl_show_categories = False, fl_hot_start = False\<rparr>"

definition keyFlags :: "string list" where
  "keyFlags = [''analyzer_images'', ''build'', ''categories'', ''inside_docker'', ''event'', ''json_output'',
     ''repo'', ''stay_up'', ''tag'', ''local_kythe'', ''show_categories'']"

text \<open>\<open>flag.VisitAll\<close> goes through the flags in the order of their names.  The flags of libraries
  have other names, so they are not shown.\<close>

definition usage_line :: "go_flag \<Rightarrow> string" where
  "usage_line f = (let defValue = (if gf_default f = [] then [CHR 0x22, CHR 0x22] else gf_default f)
     in ''  -'' @ gf_name f @ '':'' @ [CHR_nl, CHR 0x09] @ '' '' @ gf_usage f @ '' (default: '' @ defValue @ '')'' @ [CHR_nl])"

definition shipshapeUsage :: "go_flag list \<Rightarrow> string" where
  "shipshapeUsage fs = ''USAGE: shipshape [flags] <directory>'' @ [CHR_nl]
     @ ''Shipshape flags: (for all flags, run shipshape -help)'' @ [CHR_nl]
     @ concat (map usage_line (filter (\<lambda>f. gf_name f \<in> set keyFlags) (sort_key gf_name fs)))"

definition collect_response :: "main_state handler" where
  "collect_response msg directory s = Ret (None, s\<lparr>ms_all := ms_all s @ sresp_analyze_response msg\<rparr>)"

definition responses_text :: "AnalyzeResponse list \<Rightarrow> string" where
  "responses_text rs = json_text (marshal ShipshapeResponse_codec \<lparr>sresp_analyze_response = rs\<rparr>)"

definition write_responses ::
  "(string \<Rightarrow> string \<Rightarrow> (string \<times> string option) option) \<Rightarrow> string \<Rightarrow> main_state \<Rightarrow> string option \<times> main_state" where
  "write_responses jf file s =
     (let b = responses_text (ms_all s)
      in case jf file b of
           None \<Rightarrow> (None, s\<lparr>ms_file := Some (file, b)\<rparr>)
         | Some (err, left) \<Rightarrow> (Some err, case left of None \<Rightarrow> s | Some t \<Rightarrow> s\<lparr>ms_file := Some (file, t)\<rparr>))"

definition split_flag :: "string \<Rightarrow> string list" where
  "split_flag v = (if v \<noteq> [] then Split v '','' else [])"

definition main_options ::
  "(string list \<Rightarrow> string list) \<Rightarrow> (string \<Rightarrow> string \<Rightarrow> (string \<times> string option) option) \<Rightarrow> flags \<Rightarrow> string
     \<Rightarrow> main_state Options" where
  "main_options ord jf fl file =
     \<lparr>File = file, ThirdPartyAnalyzers = split_flag (fl_analyzer_images fl), Build = fl_build fl,
      TriggerCats = split_flag (fl_categories fl), Dind = fl_dind fl, Event = fl_event fl, Repo = fl_repo fl,
      StayUp = fl_stay_up fl, Tag = fl_tag fl, LocalKythe = fl_local_kythe fl,
      HandleResponse = Some (if fl_json_output fl = [] then outputAsText ord else collect_response),
      ResponsesDone = (if fl_json_output fl = [] then None else Some (write_responses jf (fl_json_output fl)))\<rparr>"

definition returnNoFindings :: int where "returnNoFindings = 0"
definition returnFindings :: int where "returnFindings = 1"
definition returnError :: int where "returnError = 2"

definition exit_code :: "nat \<times> string option \<Rightarrow> main_state \<Rightarrow> int \<times> main_state" where
  "exit_code r s = (case r of
     (numResults, Some err) \<Rightarrow> (returnError, print_to (''Error: '' @ err @ [CHR_nl]) s)
   | (numResults, None) \<Rightarrow> (if numResults \<noteq> 0 then returnFindings else returnNoFindings, s))"

text \<open>\<open>main\<close>: the exit code, what was printed and written, and the world.\<close>

definition cli_main ::
  "'w cli_env \<Rightarrow> (json \<Rightarrow> string + string list option) \<Rightarrow> (string list \<Rightarrow> string list)
     \<Rightarrow> (string \<Rightarrow> string \<Rightarrow> (string \<times> string option) option) \<Rightarrow> flags \<Rightarrow> 'w \<Rightarrow> ((int \<times> main_state) \<times> 'w) go" where
  "cli_main env decode ord jf fl w =
     (let s = blank_state
      in if fl_args fl = [] \<and> \<not> fl_show_categories fl then Ret ((returnError, print_to (shipshapeUsage declared_flags) s), w)
         else let opts = main_options ord jf fl (case fl_args fl of [] \<Rightarrow> ''.'' | a # _ \<Rightarrow> a)
              in if fl_show_categories fl then
                   go_bind (ShowCategories env decode opts w) (\<lambda>(res, w1).
                     Ret (case res of
                         Inl err \<Rightarrow> exit_code (0, Some err) s
                       | Inr t \<Rightarrow> exit_code (0, None) (print_to t s), w1))
                 else if fl_hot_start fl then
                   go_bind (StartService env opts w) (\<lambda>(err, w1). Ret (exit_code (0, err) s, w1))
                 else go_bind (Run env opts s w) (\<lambda>((r, s1), w1). Ret (exit_code r s1, w1)))"

subsection \<open>What is printed\<close>

definition all_notes :: "AnalyzeResponse list \<Rightarrow> Note list" where
  "all_notes analyses = concat (map ar_note analyses)"

definition all_failures :: "AnalyzeResponse list \<Rightarrow> AnalysisFailure list" where
  "all_failures analyses = concat (map ar_failure analyses)"

lemma map_of_add_notes:
  "map_of (fold (add_note d) ns m) p =
     (let new = filter (\<lambda>n. note_path d n = p) ns
      in if new = [] then map_of m p else Some ((case map_of m p of None \<Rightarrow> [] | Some old \<Rightarrow> old) @ new))"
  by (induction ns arbitrary: m) (auto simp: add_note_def Let_def update_conv' split: option.splits)

lemma distinct_add_notes: "distinct (keys m) \<Longrightarrow> distinct (keys (fold (add_note d) ns m))"
  by (induction ns arbitrary: m) (simp_all add: add_note_def Let_def distinct_update)

lemma file_notes_all: "file_notes d analyses = fold (add_note d) (all_notes analyses) []"
proof -
  have "fold (\<lambda>analysis m. fold (add_note d) (ar_note analysis) m) analyses m = fold (add_note d) (all_notes analyses) m" for m
    by (induction analyses arbitrary: m) (simp_all add: all_notes_def)
  then show ?thesis by (simp add: file_notes_def)
qed

lemma file_notes_map:
  "(case map_of (file_notes d analyses) p of None \<Rightarrow> [] | Some ns \<Rightarrow> ns)
     = filter (\<lambda>n. note_path d n = p) (all_notes analyses)"
  "distinct (keys (file_notes d analyses))"
  "set (keys (file_notes d analyses)) = note_path d ` set (all_notes analyses)"
proof -
  show m: "(case map_of (file_notes d analyses) p of None \<Rightarrow> [] | Some ns \<Rightarrow> ns)
     = filter (\<lambda>n. note_path d n = p) (all_notes analyses)" for p
    by (simp add: file_notes_all map_of_add_notes Let_def)
  show "distinct (keys (file_notes d analyses))" by (simp add: file_notes_all distinct_add_notes)
  have "p \<in> set (keys (file_notes d analyses)) \<longleftrightarrow> filter (\<lambda>n. note_path d n = p) (all_notes analyses) \<noteq> []" for p
    by (simp add: map_of_eq_None_iff [symmetric] dom_map_of_conv_image_fst [symmetric] file_notes_all
        map_of_add_notes Let_def domIff del: not_None_eq filter_empty_conv)
  then have "p \<in> set (keys (file_notes d analyses)) \<longleftrightarrow> p \<in> note_path d ` set (all_notes analyses)" for p
    by (auto simp: filter_empty_conv)
  then show "set (keys (file_notes d analyses)) = note_path d ` set (all_notes analyses)" by blast
qed

text \<open>The text of a complete note and of a complete failure.\<close>

definition complete_note :: "Note \<Rightarrow> bool" where
  "complete_note n \<longleftrightarrow> n_location n \<noteq> None \<and> n_category n \<noteq> None \<and> n_description n \<noteq> None"

definition complete_failure :: "AnalysisFailure \<Rightarrow> bool" where
  "complete_failure f \<longleftrightarrow> f_category f \<noteq> None \<and> f_message f \<noteq> None"

definition the_text :: "'a go \<Rightarrow> 'a" where
  "the_text r = (case r of Ret t \<Rightarrow> t | Panic _ \<Rightarrow> undefined)"

lemma note_text_panics: "panics (note_text n) \<longleftrightarrow> \<not> complete_note n"
  by (cases "n_location n"; cases "n_category n"; cases "n_description n")
    (simp_all add: note_text_def location_text_def complete_note_def)

lemma note_texts_panics: "panics (note_texts ns) \<longleftrightarrow> (\<exists>n \<in> set ns. \<not> complete_note n)"
  by (induction ns) (auto simp: panics_concat note_text_panics)

lemma failure_lines_panics: "panics (failure_lines fs) \<longleftrightarrow> (\<exists>f \<in> set fs. \<not> complete_failure f)"
proof (induction fs)
  case (Cons f fs)
  then show ?case
    by (cases "f_category f"; cases "f_message f"; cases "failure_lines fs") (auto simp: complete_failure_def)
qed simp

lemma file_texts_panics:
  "panics (file_texts m ps) \<longleftrightarrow> (\<exists>p \<in> set ps. panics (note_texts (case map_of m p of None \<Rightarrow> [] | Some ns \<Rightarrow> ns)))"
  by (induction ps) (auto simp: panics_concat)

text \<open>The text output panics exactly when a failure misses its category or message or a note
  misses its location, category or description; so the heading \<open>Global\<close> for notes without a
  location is never printed for one.\<close>

theorem outputAsText_panics_iff:
  assumes "range_order ord"
  shows "panics (outputAsText ord msg d s) \<longleftrightarrow>
      (\<exists>a \<in> set (sresp_analyze_response msg).
         (\<exists>f \<in> set (ar_failure a). f_category f = None \<or> f_message f = None)
         \<or> (\<exists>n \<in> set (ar_note a). n_location n = None \<or> n_category n = None \<or> n_description n = None))"
proof -
  let ?as = "sresp_analyze_response msg"
  have "set (ord (keys (file_notes d ?as))) = note_path d ` set (all_notes ?as)"
    using assms file_notes_map(2,3) by simp
  then have "panics (file_texts (file_notes d ?as) (ord (keys (file_notes d ?as))))
      \<longleftrightarrow> (\<exists>n \<in> set (all_notes ?as). \<not> complete_note n)"
    by (auto simp: file_texts_panics file_notes_map(1) note_texts_panics)
  moreover have "panics (failure_lines (all_failures ?as)) \<longleftrightarrow> (\<exists>f \<in> set (all_failures ?as). \<not> complete_failure f)"
    by (rule failure_lines_panics)
  ultimately have "panics (outputAsText ord msg d s) \<longleftrightarrow>
      (\<exists>f \<in> set (all_failures ?as). \<not> complete_failure f) \<or> (\<exists>n \<in> set (all_notes ?as). \<not> complete_note n)"
    by (simp add: outputAsText_def Let_def panics_concat all_failures_def)
  then show ?thesis
    by (simp add: all_notes_def all_failures_def complete_note_def complete_failure_def) blast
qed

theorem outputAsText_panics_iff_witness:
  "panics (outputAsText (\<lambda>xs. xs) \<lparr>sresp_analyze_response = [\<lparr>ar_note = [empty_note\<lparr>n_category := Some ''CodeAlert'',
      n_description := Some ''Do not submit''\<rparr>], ar_failure = []\<rparr>]\<rparr> ''.'' blank_state)"
  by (simp add: outputAsText_panics_iff empty_note_def)

definition heading :: "string \<Rightarrow> string" where
  "heading p = (if p \<noteq> [] then p else ''Global'') @ [CHR_nl]"

lemma note_texts_complete:
  "\<forall>n \<in> set ns. complete_note n \<Longrightarrow> note_texts ns = Ret (concat (map (\<lambda>n. the_text (note_text n)) ns))"
proof (induction ns)
  case (Cons n ns)
  then obtain t where "note_text n = Ret t" using note_text_panics [of n] not_panics [of "note_text n"] by auto
  with Cons show ?case by (simp add: the_text_def)
qed simp

lemma file_texts_complete:
  assumes "\<forall>n \<in> set (all_notes as). complete_note n"
  shows "file_texts (file_notes d as) ps = Ret (concat (map (\<lambda>p. heading p
     @ concat (map (\<lambda>n. the_text (note_text n)) (filter (\<lambda>n. note_path d n = p) (all_notes as))) @ [CHR_nl]) ps))"
proof (induction ps)
  case (Cons p ps)
  have "\<forall>n \<in> set (filter (\<lambda>n. note_path d n = p) (all_notes as)). complete_note n" using assms by simp
  with Cons show ?case by (simp add: file_notes_map(1) note_texts_complete heading_def)
qed simp

text \<open>C25: when nothing is missing, the text output is the failures in their order and then one
  section per path that has notes, each path once, with all the notes of that path and no others, in
  the order the responses have them.\<close>

theorem outputAsText_exact:
  assumes "range_order ord" "\<forall>n \<in> set (all_notes (sresp_analyze_response msg)). complete_note n"
    and "failure_lines (all_failures (sresp_analyze_response msg)) = Ret warnings"
  shows "\<exists>paths. distinct paths \<and> set paths = note_path d ` set (all_notes (sresp_analyze_response msg))
    \<and> outputAsText ord msg d s = Ret (None, print_to (warnings @ concat (map (\<lambda>p. heading p
        @ concat (map (\<lambda>n. the_text (note_text n)) (filter (\<lambda>n. note_path d n = p) (all_notes (sresp_analyze_response msg))))
        @ [CHR_nl]) paths)) s)"
proof -
  let ?as = "sresp_analyze_response msg"
  let ?paths = "ord (keys (file_notes d ?as))"
  have "distinct ?paths" "set ?paths = note_path d ` set (all_notes ?as)"
    using assms(1) file_notes_map(2,3) by simp_all
  then show ?thesis
    using assms(3) file_texts_complete [OF assms(2), of d ?paths]
    by (intro exI [of _ ?paths]) (simp add: outputAsText_def Let_def all_failures_def)
qed

definition demo_note :: Note where
  "demo_note = empty_note\<lparr>n_category := Some ''PostMessage'', n_description := Some ''produced'',
                          n_location := Some empty_location\<rparr>"

definition demo_response :: ShipshapeResponse where
  "demo_response = \<lparr>sresp_analyze_response = [\<lparr>ar_note = [demo_note, demo_note], ar_failure = []\<rparr>]\<rparr>"

theorem outputAsText_exact_witness:
  "\<exists>paths. distinct paths \<and> set paths = {''src''}
    \<and> outputAsText rev demo_response ''src'' blank_state = Ret (None, print_to (concat (map (\<lambda>p. heading p
        @ concat (map (\<lambda>n. the_text (note_text n)) (filter (\<lambda>n. note_path ''src'' n = p) [demo_note, demo_note]))
        @ [CHR_nl]) paths)) blank_state)"
proof -
  have n: "all_notes (sresp_analyze_response demo_response) = [demo_note, demo_note]"
    by (simp add: all_notes_def demo_response_def)
  have c: "\<forall>n \<in> set (all_notes (sresp_analyze_response demo_response)). complete_note n"
    unfolding n by (simp add: complete_note_def demo_note_def empty_note_def)
  have f: "failure_lines (all_failures (sresp_analyze_response demo_response)) = Ret []"
    by (simp add: all_failures_def demo_response_def)
  have "note_path ''src'' demo_note = ''src''" by code_simp
  then show ?thesis using outputAsText_exact [OF range_order_rev c f, of "''src''" blank_state] unfolding n by simp
qed

subsection \<open>Counting the notes\<close>

lemma numNotes_all: "numNotes msg = length (all_notes (sresp_analyze_response msg))"
proof -
  have "foldl (\<lambda>n a. n + length (ar_note a)) k as = k + length (all_notes as)" for k as
    by (induction as arbitrary: k) (simp_all add: all_notes_def)
  then show ?thesis by (simp add: numNotes_def)
qed

subsection \<open>What the service sends\<close>

text \<open>The messages a reader gives until it ends or fails.\<close>

function stream_messages :: "(json \<Rightarrow> string + ShipshapeResponse) \<Rightarrow> Reader \<Rightarrow> ShipshapeResponse list" where
  "stream_messages unm r =
     (case NextResult unm r of
        Ret ((v, None), r1) \<Rightarrow>
          (case v of None \<Rightarrow> \<lparr>sresp_analyze_response = []\<rparr> | Some m \<Rightarrow> m) # stream_messages unm r1
      | _ \<Rightarrow> [])"
  by pat_completeness auto
termination
  by (relation "measure (\<lambda>(unm, r). stream_left r)") (auto dest: NextResult_consumes)

declare stream_messages.simps [simp del]

text \<open>The analyzer responses in what the service streams to one request.\<close>

definition service_responses :: "'w cli_env \<Rightarrow> ShipshapeRequest \<Rightarrow> 'w \<Rightarrow> AnalyzeResponse list" where
  "service_responses env req w = concat (map sresp_analyze_response (stream_messages (ce_response env)
     (fst (Stream (ce_transport env) ''/ShipshapeService/Run'' (ce_request env req) w))))"

definition after_analysis :: "'w cli_env \<Rightarrow> ShipshapeRequest \<Rightarrow> 'w \<Rightarrow> 'w" where
  "after_analysis env req w = snd (Stream (ce_transport env) ''/ShipshapeService/Run'' (ce_request env req) w)"

text \<open>The world in which kythe has run, and the second request is sent.\<close>

definition after_kythe :: "'w cli_env \<Rightarrow> 's Options \<Rightarrow> Paths \<Rightarrow> 'w \<Rightarrow> 'w" where
  "after_kythe env opts paths w =
     (let fullKytheImage = FullImageName (Repo opts) kytheImage (Tag opts);
          w1 = (if LocalKythe opts then w else pull env fullKytheImage w);
          ((exists, err), w2) = ContainerExists (ce_os env) fullKytheImage w1;
          w3 = (if exists then stop env fullKytheImage 0 w2 else w2)
      in snd (RunKythe (ce_os env) (ce_docker env) (ce_home env w3) fullKytheImage ''kythe''
                (pa_absRoot paths) (Build opts) (Dind opts) w3))"

text \<open>The request of \<open>Run\<close> before a build, for the flags and the paths the services were started with.\<close>

definition run_request :: "flags \<Rightarrow> string \<Rightarrow> Paths \<Rightarrow> ShipshapeRequest" where
  "run_request fl dir paths = createRequest (split_flag (fl_categories fl)) (if pa_isDir paths then [] else [Base dir])
     (fl_event fl) (path_Join [workspace, pa_relativeRoot paths]) Stage_PRE_BUILD"

text \<open>All the service sends during \<open>Run\<close>: what it answers to that request and, when there is a
  build, to the same request for the stage after it.\<close>

definition sent_responses ::
  "'w cli_env \<Rightarrow> 's Options \<Rightarrow> Paths \<Rightarrow> ShipshapeRequest \<Rightarrow> 'w \<Rightarrow> AnalyzeResponse list" where
  "sent_responses env opts paths req w = service_responses env req w
     @ (if Build opts = [] then []
        else service_responses env (req\<lparr>sreq_stage := Some Stage_POST_BUILD\<rparr>)
               (after_kythe env opts paths (after_analysis env req w)))"

lemma keeps_options: "\<exists>x. opts = opts\<lparr>ThirdPartyAnalyzers := x\<rparr>"
  by (intro exI [of _ "ThirdPartyAnalyzers opts"]) simp

text \<open>Starting the services changes nothing of the options but the analyzers.\<close>

lemma startServices_options:
  assumes "startServices env opts w = Ret (st, w1)"
  shows "\<exists>x. st_options st = opts\<lparr>ThirdPartyAnalyzers := x\<rparr>"
  using assms keeps_options [of opts]
  by (auto simp: startServices_def Let_def go_bind_Ret_iff split: sum.splits prod.splits if_splits)

lemma main_request:
  assumes "st_options st = (main_options ord jf fl dir)\<lparr>ThirdPartyAnalyzers := x\<rparr>"
  shows "createRequest (TriggerCats (st_options st)) (request_files (st_options st) (st_paths st)) (Event (st_options st))
      (path_Join [workspace, pa_relativeRoot (st_paths st)]) Stage_PRE_BUILD = run_request fl dir (st_paths st)"
  by (simp add: assms main_options_def request_files_def run_request_def)

subsection \<open>Collecting it\<close>

text \<open>With the collecting handler the number returned is the number of notes collected.\<close>

definition with_responses :: "AnalyzeResponse list \<Rightarrow> main_state \<Rightarrow> main_state" where
  "with_responses rs s = s\<lparr>ms_all := ms_all s @ rs\<rparr>"

lemma with_responses_append [simp]:
  "with_responses rs2 (with_responses rs1 s) = with_responses (rs1 @ rs2) s"
  "with_responses [] s = s" "ms_all (with_responses rs s) = ms_all s @ rs" "ms_file (with_responses rs s) = ms_file s"
  by (simp_all add: with_responses_def)

lemma all_notes_append [simp]: "all_notes (rs1 @ rs2) = all_notes rs1 @ all_notes rs2" "all_notes [] = []"
  by (simp_all add: all_notes_def)

lemma analyze_loop_collect:
  assumes "analyze_loop unm (\<lambda>msg dir s. go_bind (deref (Some collect_response)) (\<lambda>h. h msg dir s)) d tot r s
      = Ret ((n, err), s')"
  shows "s' = with_responses (concat (map sresp_analyze_response (stream_messages unm r))) s
    \<and> (err = None \<longrightarrow> n = tot + length (all_notes (concat (map sresp_analyze_response (stream_messages unm r)))))"
  using assms
proof (induction unm "\<lambda>msg dir s. go_bind (deref (Some collect_response)) (\<lambda>h. h msg dir s)" d tot r s
    arbitrary: n err s' rule: analyze_loop.induct)
  case (1 unm dir tot r s)
  obtain v e r1 where nx: "NextResult unm r = Ret ((v, e), r1)"
    using "1.prems" by (subst (asm) analyze_loop.simps) (auto split: go.splits)
  show ?case
  proof (cases e)
    case (Some err')
    then have "stream_messages unm r = []" by (simp add: stream_messages.simps [of unm r] nx)
    with Some nx "1.prems" show ?thesis
      by (subst (asm) analyze_loop.simps) (auto split: if_splits)
  next
    case None
    let ?msg = "case v of None \<Rightarrow> \<lparr>sresp_analyze_response = []\<rparr> | Some m \<Rightarrow> m"
    let ?s1 = "with_responses (sresp_analyze_response ?msg) s"
    let ?more = "concat (map sresp_analyze_response (stream_messages unm r1))"
    have m: "stream_messages unm r = ?msg # stream_messages unm r1"
      using None by (simp add: stream_messages.simps [of unm r] nx)
    have step: "analyze_loop unm (\<lambda>msg dir s. go_bind (deref (Some collect_response)) (\<lambda>h. h msg dir s)) dir
        (tot + numNotes ?msg) r1 ?s1 = Ret ((n, err), s')"
      using "1.prems" nx None
      by (subst (asm) analyze_loop.simps) (simp add: collect_response_def with_responses_def Let_def)
    have "s' = with_responses ?more ?s1 \<and> (err = None \<longrightarrow> n = tot + numNotes ?msg + length (all_notes ?more))"
      using "1.hyps" [OF nx refl refl None refl refl step] .
    then show ?thesis by (simp add: m numNotes_all)
  qed
qed

lemma analyze_collect:
  assumes "analyze env req d (Some collect_response) s w = Ret (((n, err), s'), w')"
  shows "s' = with_responses (service_responses env req w) s \<and> w' = after_analysis env req w
    \<and> (err = None \<longrightarrow> n = length (all_notes (service_responses env req w)))"
proof -
  obtain rd where rd: "Stream (ce_transport env) ''/ShipshapeService/Run'' (ce_request env req) w = (rd, w')"
    and l: "analyze_loop (ce_response env) (\<lambda>msg dir s. go_bind (deref (Some collect_response)) (\<lambda>h. h msg dir s)) d 0 rd s
      = Ret ((n, err), s')"
    using assms by (auto simp: analyze_def go_bind_Ret_iff split: prod.splits)
  from analyze_loop_collect [OF l] show ?thesis by (simp add: service_responses_def after_analysis_def rd)
qed

text \<open>Options that collect the responses and write them at the end.\<close>

definition collects :: "(string \<Rightarrow> string \<Rightarrow> (string \<times> string option) option) \<Rightarrow> string \<Rightarrow> main_state Options \<Rightarrow> bool" where
  "collects jf file opts \<longleftrightarrow> HandleResponse opts = Some collect_response
     \<and> ResponsesDone opts = Some (write_responses jf file)"

lemma run_build_collect:
  assumes "collects jf file opts" "run_build env opts paths req m s w = Ret ((k, (n, err), s'), w')"
  shows "ms_file s' = ms_file s \<and> (err = None \<longrightarrow>
    s' = with_responses (service_responses env (req\<lparr>sreq_stage := Some Stage_POST_BUILD\<rparr>) (after_kythe env opts paths w)) s
    \<and> n = m + length (all_notes (service_responses env (req\<lparr>sreq_stage := Some Stage_POST_BUILD\<rparr>) (after_kythe env opts paths w))))"
proof -
  note H = analyze_collect [of env "req\<lparr>sreq_stage := Some Stage_POST_BUILD\<rparr>" "pa_origDir paths" s]
  show ?thesis
    using assms
    by (auto simp: run_build_def collects_def after_kythe_def Let_def go_bind_Ret_iff call_error_def
        split: prod.splits option.splits dest!: H)
qed

text \<open>What is in the file when it could not be written.\<close>

definition unwritten :: "(string \<Rightarrow> string \<Rightarrow> (string \<times> string option) option) \<Rightarrow> string \<Rightarrow> (string \<times> string) option \<Rightarrow> bool" where
  "unwritten jf file left \<longleftrightarrow> left = None
     \<or> (\<exists>text err t. jf file text = Some (err, Some t) \<and> left = Some (file, t))"

lemma responses_done_collect:
  assumes "collects jf file opts" "responses_done opts (m, e) s = ((n, err), s')" "ms_file s = None"
  shows "n = m \<and> (case err of
      None \<Rightarrow> e = None \<and> ms_all s' = ms_all s \<and> ms_file s' = Some (file, responses_text (ms_all s'))
    | Some _ \<Rightarrow> unwritten jf file (ms_file s'))"
  using assms
  by (auto simp: responses_done_def collects_def write_responses_def unwritten_def Let_def split: option.splits prod.splits)

lemma run_analyses_collect:
  assumes c: "collects jf file opts" and r: "run_analyses env opts paths s w = Ret (((n, err), s'), w')"
    and s: "ms_file s = None" "ms_all s = []"
  defines "rs \<equiv> sent_responses env opts paths (createRequest (TriggerCats opts) (request_files opts paths) (Event opts)
                  (path_Join [workspace, pa_relativeRoot paths]) Stage_PRE_BUILD) w"
  shows "case err of None \<Rightarrow> ms_file s' = Some (file, responses_text rs) \<and> n = length (all_notes rs)
    | Some _ \<Rightarrow> unwritten jf file (ms_file s')"
proof -
  define req where "req = createRequest (TriggerCats opts) (request_files opts paths) (Event opts)
                  (path_Join [workspace, pa_relativeRoot paths]) Stage_PRE_BUILD"
  have rs: "rs = sent_responses env opts paths req w" by (simp only: rs_def req_def)
  have h: "HandleResponse opts = Some collect_response" using c by (simp add: collects_def)
  note R = r [unfolded run_analyses_def Let_def h, folded req_def]
  obtain n1 e1 s1 w1 where a: "analyze env req (pa_origDir paths) (Some collect_response) s w = Ret (((n1, e1), s1), w1)"
    using R by (auto simp: go_bind_Ret_iff)
  note A = analyze_collect [OF a]
  show ?thesis
  proof (cases e1)
    case (Some e)
    then show ?thesis using R a A s(1) by (auto simp: call_error_def unwritten_def)
  next
    case None
    obtain k m e2 s2 w2 where b: "(if Build opts \<noteq> [] then run_build env opts paths req n1 s1 w1
        else Ret ((False, (n1, None), s1), w1)) = Ret ((k, (m, e2), s2), w2)"
      and d: "responses_done opts (m, e2) s2 = ((n, err), s')"
      using R a None by (cases "if Build opts \<noteq> [] then run_build env opts paths req n1 s1 w1
        else Ret ((False, (n1, None), s1), w1)") auto
    have B: "ms_file s2 = None \<and> (e2 = None \<longrightarrow> ms_all s2 = rs \<and> m = length (all_notes rs))"
      using b run_build_collect [OF c, of env paths req n1 s1 w1] A None s
      by (auto simp: rs sent_responses_def split: if_splits)
    from responses_done_collect [OF c d] B show ?thesis
      by (auto split: option.splits)
  qed
qed

text \<open>Without an argument the usage is printed and the exit code is that of an error; it says the default of
  each flag it shows, which are all but \<open>hot_start\<close>.\<close>

lemma no_argument:
  assumes "fl_args fl = []" "\<not> fl_show_categories fl"
  shows "cli_main env decode ord jf fl w = Ret ((2, print_to (shipshapeUsage declared_flags) blank_state), w)"
  using assms by (simp add: cli_main_def returnError_def)

lemma usage_shows: "f \<in> set declared_flags \<and> gf_name f \<in> set keyFlags \<longleftrightarrow> f \<in> set declared_flags \<and> gf_name f \<noteq> ''hot_start''"
  by (auto simp: declared_flags_def go_flag_def keyFlags_def)

text \<open>What is written reads back as the responses.\<close>

lemma responses_text_read:
  "\<exists>j. decoded (responses_text rs, None) = [Value j] \<and> unmarshal ShipshapeResponse_codec j = Inr \<lparr>sresp_analyze_response = rs\<rparr>"
proof -
  obtain ms where ms: "marshal ShipshapeResponse_codec \<lparr>sresp_analyze_response = rs\<rparr> = JObj ms"
    by (simp add: marshal_def ShipshapeResponse_codec_def struct_codec_def write_struct_def)
  then have "unmarshal ShipshapeResponse_codec (JObj ms) = Inr \<lparr>sresp_analyze_response = rs\<rparr>"
    using unmarshal_marshal [OF codec_ok_ShipshapeResponse] by metis
  then show ?thesis unfolding responses_text_def ms using decoded_object by blast
qed

text \<open>C9: asked for JSON, the program writes the file and exits with 1 or 0, or it exits with 2.  When it
  does not exit with 2, the text of the file is one JSON value, which reads back as all the service has sent in answer to the
  request of the flags and, after a build, to that request for the next stage, in the order it was sent and failures included; the
  code is 1 when that has a note and 0 when it has none.  When it exits with 2, the file was not written, or it is what
  a failed write leaves.\<close>

theorem json_exit_code:
  assumes "cli_main env decode ord jf fl w = Ret ((code, s), w')"
    and "fl_json_output fl \<noteq> []" "fl_args fl = dir # others" "\<not> fl_show_categories fl" "\<not> fl_hot_start fl"
  shows "code = 2 \<and> unwritten jf (fl_json_output fl) (ms_file s)
    \<or> (\<exists>st w1 text j rs. startServices env (main_options ord jf fl dir) w = Ret (st, w1) \<and> st_err st = None
        \<and> rs = sent_responses env (st_options st) (st_paths st) (run_request fl dir (st_paths st)) w1
        \<and> ms_file s = Some (fl_json_output fl, text) \<and> decoded (text, None) = [Value j]
        \<and> unmarshal ShipshapeResponse_codec j = Inr \<lparr>sresp_analyze_response = rs\<rparr>
        \<and> code = (if all_notes rs = [] then 0 else 1))"
proof -
  let ?opts = "main_options ord jf fl dir"
  obtain n err s1 where run: "Run env ?opts blank_state w = Ret (((n, err), s1), w')"
    and code: "exit_code (n, err) s1 = (code, s)"
    using assms by (auto simp: cli_main_def Let_def go_bind_Ret_iff)
  obtain st w1 where st: "startServices env ?opts w = Ret (st, w1)"
    using run by (auto simp: Run_def go_bind_Ret_iff)
  have blank: "ms_file blank_state = None" "ms_all blank_state = []" by (simp_all add: blank_state_def)
  show ?thesis
  proof (cases "st_err st")
    case (Some e)
    then have "err = Some e \<and> s1 = blank_state" using run st by (simp add: Run_def)
    then show ?thesis
      using code blank by (auto simp: exit_code_def returnError_def print_to_def unwritten_def)
  next
    case None
    let ?rs = "sent_responses env (st_options st) (st_paths st) (run_request fl dir (st_paths st)) w1"
    obtain x where "st_options st = ?opts\<lparr>ThirdPartyAnalyzers := x\<rparr>" using startServices_options [OF st] by blast
    note req = main_request [OF this]
    have c: "collects jf (fl_json_output fl) (st_options st)"
      using startServices_handlers [OF st] assms(2) by (simp add: collects_def main_options_def)
    obtain w2 where "run_analyses env (st_options st) (st_paths st) blank_state w1 = Ret (((n, err), s1), w2)"
      using run st None by (auto simp: Run_def go_bind_Ret_iff)
    note r = run_analyses_collect [OF c this blank, unfolded req]
    show ?thesis
    proof (cases err)
      case (Some e)
      then show ?thesis using code r by (auto simp: exit_code_def returnError_def print_to_def)
    next
      case err: None
      obtain j where "decoded (responses_text ?rs, None) = [Value j]"
        "unmarshal ShipshapeResponse_codec j = Inr \<lparr>sresp_analyze_response = ?rs\<rparr>"
        using responses_text_read by blast
      moreover have "ms_file s = Some (fl_json_output fl, responses_text ?rs)" "code = (if all_notes ?rs = [] then 0 else 1)"
        using code r err by (auto simp: exit_code_def returnFindings_def returnNoFindings_def split: if_splits)
      ultimately show ?thesis using st None by blast
    qed
  qed
qed

definition demo_cli_env :: "string cli_env" where
  "demo_cli_env = quiet_env\<lparr>
     ce_transport := \<lparr>SendRequest = (\<lambda>v m ps w.
       (Inr (Ret [Value (JObj [(''jsonrpc'', JStr Version2), (''result'', JObj [])])]), w))\<rparr>,
     ce_response := (\<lambda>j. Inr demo_response)\<rparr>"

definition demo_flags :: flags where
  "demo_flags = \<lparr>fl_args = [''/src''], fl_analyzer_images = [], fl_build = [], fl_categories = ''PostMessage'',
     fl_dind = False, fl_event = ''manual'', fl_json_output = ''out.json'', fl_repo = [], fl_stay_up = True,
     fl_tag = ''prod'', fl_local_kythe = False, fl_show_categories = False, fl_hot_start = False\<rparr>"

text \<open>A machine whose commands all succeed and print nothing, so no container runs and all can be started.\<close>

definition quiet_machine :: "'w cli_env \<Rightarrow> bool" where
  "quiet_machine env \<longleftrightarrow>
     (\<forall>argv w. Exec (ce_os env) argv w = (\<lparr>xr_stdout = [], xr_stderr = [], xr_err = None\<rparr>, w))
     \<and> (\<forall>f w. ReadFile (ce_os env) f w = NotExist f) \<and> (\<forall>f w. ce_stat env f w = Inr True)
     \<and> ce_finish env [] = [] \<and> (\<forall>w. Now (ce_clock env) w = 0) \<and> (\<forall>w. Ping (ce_clock env) w = (None, w))"

lemma machine_commands:
  assumes "quiet_machine env"
  shows "ContainerExists (ce_os env) c w = ((False, None), w)"
    "HasDocker (ce_os env) w = (True, w)"
    "pull env img w = w"
    "run_service env img root cs dind w = (None, w)"
    "wait_ready env w = Ret (None, w)"
proof -
  have x: "Exec (ce_os env) argv w = (\<lparr>xr_stdout = [], xr_stderr = [], xr_err = None\<rparr>, w)" for argv
    using assms by (simp add: quiet_machine_def)
  have n: "lines_of [] = [[]]" by code_simp
  show "HasDocker (ce_os env) w = (True, w)" by (simp add: HasDocker_def x)
  show "ContainerExists (ce_os env) c w = ((False, None), w)"
    by (simp add: ContainerExists_def x n)
  show "pull env img w = w" by (simp add: pull_def Pull_def run_command_def x)
  show "run_service env img root cs dind w = (None, w)"
    by (simp add: run_service_def RunService_def shipping_container_def run_command_def x)
  show "wait_ready env w = Ret (None, w)"
    using assms by (simp add: wait_ready_def WaitUntilReady_def wait_loop.simps quiet_machine_def)
qed

lemma quiet_started:
  assumes "quiet_machine env" "fl_analyzer_images fl = []" "IsAbs dir" "Clean dir = dir"
  shows "startServices env (main_options ord jf fl dir) w
     = Ret (services_up \<lparr>pa_isDir = True, pa_relativeRoot = [], pa_absRoot = dir, pa_origDir = dir\<rparr>
              (main_options ord jf fl dir) (Inr []), w)"
proof -
  have a: "absolute_path (ce_os env) dir w = Inr dir" using assms(3,4) by (simp add: absolute_path_def)
  have q: "ReadFile (ce_os env) f w = NotExist f" "ce_stat env f w = Inr True" "ce_finish env [] = []" for f
    using assms(1) by (simp_all add: quiet_machine_def)
  have g: "global_analyzers env root w = []" for root
    by (simp add: global_analyzers_def GlobalConfig_def loadConfig_def q)
  have "startShipshapeService env img root cs dind w = Ret (Inr [], w)" for img root cs dind
    by (simp add: startShipshapeService_def machine_commands [OF assms(1)])
  then show ?thesis
    using assms(2) by (simp add: startServices_def a g q machine_commands [OF assms(1)] pullAnalyzers_def startAnalyzers_def
        main_options_def split_flag_def no_paths_def Let_def)
qed

lemma demo_started:
  "startServices demo_cli_env (main_options ord jf demo_flags ''/src'') w
     = Ret (services_up \<lparr>pa_isDir = True, pa_relativeRoot = [], pa_absRoot = ''/src'', pa_origDir = ''/src''\<rparr>
              (main_options ord jf demo_flags ''/src'') (Inr []), w)"
proof -
  have "IsAbs ''/src''" "Clean ''/src'' = ''/src''" by code_simp+
  moreover have "quiet_machine demo_cli_env"
    by (simp add: quiet_machine_def demo_cli_env_def quiet_env_def plain_os_def)
  ultimately show ?thesis by (intro quiet_started) (simp_all add: demo_flags_def)
qed

text \<open>The service answers with one response of two notes.\<close>

lemma demo_analysis:
  "analyze demo_cli_env req d (Some collect_response) blank_state w
     = Ret (((2, None), blank_state\<lparr>ms_all := sresp_analyze_response demo_response\<rparr>), w)"
proof -
  have "decode_response (JObj [(''jsonrpc'', JStr Version2), (''result'', JObj [])])
      = (empty_response\<lparr>rs_version := Version2, rs_result := Some (JObj [])\<rparr>, None)"
    by code_simp
  moreover have "numNotes demo_response = 2"
    by (simp add: numNotes_all all_notes_def demo_response_def)
  ultimately show ?thesis
    by (simp add: analyze_def analyze_loop.simps Stream_def NextResult_def unmarshalResult_def unmarshal_raw_def
        demo_cli_env_def quiet_env_def empty_response_def collect_response_def blank_state_def Let_def)
qed

lemma demo_service: "service_responses demo_cli_env req w = sresp_analyze_response demo_response"
  using analyze_collect [OF demo_analysis [of req "[]" w]] by (simp add: with_responses_def blank_state_def)

theorem json_exit_code_witness:
  "\<exists>s. cli_main demo_cli_env (\<lambda>j. Inl ''not read'') (\<lambda>xs. xs) (\<lambda>f rs. None) demo_flags ''/'' = Ret ((1, s), ''/'')
     \<and> (\<exists>t j. ms_file s = Some (''out.json'', t) \<and> decoded (t, None) = [Value j]
        \<and> unmarshal ShipshapeResponse_codec j = Inr demo_response)"
proof -
  have o: "fl_args demo_flags = [''/src'']" "\<not> fl_show_categories demo_flags" "\<not> fl_hot_start demo_flags"
    "fl_json_output demo_flags = ''out.json''" "fl_json_output demo_flags \<noteq> []"
    by (simp_all add: demo_flags_def)
  have h: "HandleResponse (main_options ord jf demo_flags f) = Some collect_response"
    "Build (main_options ord jf demo_flags f) = []" "StayUp (main_options ord jf demo_flags f)"
    "ThirdPartyAnalyzers (main_options ord jf demo_flags f) = []"
    "ResponsesDone (main_options ord jf demo_flags f) = Some (write_responses jf ''out.json'')" for ord jf f
    by (simp_all add: demo_flags_def main_options_def split_flag_def)
  obtain s where r: "cli_main demo_cli_env (\<lambda>j. Inl ''not read'') (\<lambda>xs. xs) (\<lambda>f rs. None) demo_flags ''/'' = Ret ((1, s), ''/'')"
    by (rule that) (simp add: cli_main_def o Run_def demo_started services_up_def run_analyses_def demo_analysis h
        responses_done_def cleanup_def write_responses_def exit_code_def returnFindings_def Let_def
        del: path_Join.simps)
  obtain st w1 t j rs where "startServices demo_cli_env (main_options (\<lambda>xs. xs) (\<lambda>f rs. None) demo_flags ''/src'') ''/'' = Ret (st, w1)"
    "rs = sent_responses demo_cli_env (st_options st) (st_paths st) (run_request demo_flags ''/src'' (st_paths st)) w1"
    "ms_file s = Some (''out.json'', t)" "decoded (t, None) = [Value j]"
    "unmarshal ShipshapeResponse_codec j = Inr \<lparr>sresp_analyze_response = rs\<rparr>"
    using json_exit_code [OF r o(5,1-3)] o(4) by auto
  note x = this
  have "st = services_up \<lparr>pa_isDir = True, pa_relativeRoot = [], pa_absRoot = ''/src'', pa_origDir = ''/src''\<rparr>
      (main_options (\<lambda>xs. xs) (\<lambda>f rs. None) demo_flags ''/src'') (Inr [])"
    using x(1) by (simp add: demo_started)
  then have "Build (st_options st) = []" by (simp add: services_up_def h)
  then have "rs = sresp_analyze_response demo_response" using x(2) by (simp add: sent_responses_def demo_service)
  then have "unmarshal ShipshapeResponse_codec j = Inr demo_response" using x(5) by simp
  with r x(3,4) show ?thesis by blast
qed

end
