(* ===== verification/Steps.thy ===== *)
theory Steps
  imports Main
begin

text \<open>
  Step relations: what holds in every reachable state, and runs that end.  The goroutines of the
  driver (\<open>Fanout\<close>) and of the client (\<open>Startup\<close>) are such systems.
\<close>

definition stuck :: "('s \<Rightarrow> 's \<Rightarrow> bool) \<Rightarrow> 's \<Rightarrow> bool" where
  "stuck step s \<longleftrightarrow> (\<forall>t. \<not> step s t)"

lemma sum_update_less:
  fixes h :: "'a \<Rightarrow> nat"
  assumes "i < length xs" "h y < h (xs ! i)"
  shows "sum_list (map h (xs[i := y])) < sum_list (map h xs)"
proof -
  have "sum_list (map h xs) = sum_list (map h (take i xs)) + h (xs ! i) + sum_list (map h (drop (Suc i) xs))"
    by (subst id_take_nth_drop [OF assms(1)]) simp
  then show ?thesis using assms by (simp add: upd_conv_take_nth_drop)
qed

text \<open>An invariant, and a weight that falls with every step from a state of the invariant.\<close>

locale step_system =
  fixes step :: "'s \<Rightarrow> 's \<Rightarrow> bool" and start :: 's and inv :: "'s \<Rightarrow> bool" and weight :: "'s \<Rightarrow> nat"
  assumes inv_start: "inv start"
    and inv_step: "inv s \<Longrightarrow> step s t \<Longrightarrow> inv t"
    and weight_step: "inv s \<Longrightarrow> step s t \<Longrightarrow> weight t < weight s"
begin

lemma inv_steps:
  assumes "inv s" "step\<^sup>*\<^sup>* s t"
  shows "inv t"
  using assms(2,1) by (induction rule: rtranclp_induct) (auto intro: inv_step)

lemma reachable_inv: "step\<^sup>*\<^sup>* start s \<Longrightarrow> inv s"
  using inv_steps inv_start by blast

lemma run_length:
  assumes "inv s" "(step ^^ n) s t"
  shows "n + weight t \<le> weight s"
  using assms(2)
proof (induction n arbitrary: t)
  case (Suc n)
  then obtain u where u: "(step ^^ n) s u" "step u t" by auto
  then have "inv u" using assms(1) inv_steps relpowp_imp_rtranclp by metis
  then show ?case using Suc.IH u weight_step by fastforce
qed simp

lemma ends:
  assumes "inv s"
  shows "\<exists>t. step\<^sup>*\<^sup>* s t \<and> stuck step t"
  using assms
proof (induction "weight s" arbitrary: s rule: less_induct)
  case less
  show ?case
  proof (cases "stuck step s")
    case False
    then obtain u where "step s u" by (auto simp: stuck_def)
    with less inv_step weight_step show ?thesis by (meson converse_rtranclp_into_rtranclp)
  qed auto
qed

lemma reachable_ends: "step\<^sup>*\<^sup>* start s \<Longrightarrow> \<exists>t. step\<^sup>*\<^sup>* s t \<and> stuck step t"
  using ends reachable_inv by blast

end

end
