(* ===== verification/Startup.thy ===== *)
theory Startup
  imports Cli Steps
begin

text \<open>
  The goroutines of \<open>startAnalyzers\<close> in \<open>shipshape/cli/shipshape_lib.go\<close>, interleaved.

  A goroutine checks for a container to reuse, stops what is in the way, runs the analyzer, and
  appends to one of the two slices all goroutines share.  Each of the first three is one step on the
  world, although it gives Docker up to two commands; appending is two steps, since nothing keeps
  another goroutine from appending between reading the slice and writing it back.  A slice is its
  value here: the array two slices may share is left out.
\<close>

subsection \<open>The step relation\<close>

datatype goroutine =
    Checking | Stopping | Launching | Appending start_outcome
  | Loaded start_outcome "string list" | Over start_outcome

record 'w startup =
  su_world :: 'w
  su_containers :: "string list"
  su_errs :: "string list"
  su_workers :: "goroutine list"

definition set_worker :: "nat \<Rightarrow> goroutine \<Rightarrow> 'w startup \<Rightarrow> 'w startup" where
  "set_worker i g s = s\<lparr>su_workers := (su_workers s)[i := g]\<rparr>"

definition check_container :: "'w cli_env \<Rightarrow> nat \<times> string \<Rightarrow> 'w \<Rightarrow> bool \<times> 'w" where
  "check_container env job w = (case job of (i, img) \<Rightarrow>
     ImageMatches (ce_os env) img (fst (getContainerAndAddress img i)) w)"

definition stop_container :: "'w cli_env \<Rightarrow> nat \<times> string \<Rightarrow> 'w \<Rightarrow> 'w" where
  "stop_container env job w = (case job of (i, img) \<Rightarrow>
     snd (Stop (ce_os env) (fst (getContainerAndAddress img i)) 0 True w))"

definition slice_of :: "start_outcome \<Rightarrow> 'w startup \<Rightarrow> string list" where
  "slice_of out s = (case out of Started c \<Rightarrow> su_containers s | _ \<Rightarrow> su_errs s)"

definition store_slice :: "start_outcome \<Rightarrow> string list \<Rightarrow> 'w startup \<Rightarrow> 'w startup" where
  "store_slice out xs s = (case out of
     Started c \<Rightarrow> s\<lparr>su_containers := xs @ [c]\<rparr> | Failed err \<Rightarrow> s\<lparr>su_errs := xs @ [err]\<rparr> | Reused \<Rightarrow> s)"

inductive start_step ::
  "'w cli_env \<Rightarrow> string \<Rightarrow> bool \<Rightarrow> (nat \<times> string) list \<Rightarrow> 'w startup \<Rightarrow> 'w startup \<Rightarrow> bool"
  for env d p jobs where
  spawn: "length (su_workers s) < length jobs
    \<Longrightarrow> start_step env d p jobs s (s\<lparr>su_workers := su_workers s @ [Checking]\<rparr>)"
| check: "i < length (su_workers s) \<Longrightarrow> su_workers s ! i = Checking
    \<Longrightarrow> check_container env (jobs ! i) (su_world s) = (matches, w)
    \<Longrightarrow> start_step env d p jobs s (set_worker i (if matches then Over Reused else Stopping) (s\<lparr>su_world := w\<rparr>))"
| stop: "i < length (su_workers s) \<Longrightarrow> su_workers s ! i = Stopping
    \<Longrightarrow> start_step env d p jobs s
          (set_worker i Launching (s\<lparr>su_world := stop_container env (jobs ! i) (su_world s)\<rparr>))"
| launch: "i < length (su_workers s) \<Longrightarrow> su_workers s ! i = Launching
    \<Longrightarrow> run_analyzer env d p (jobs ! i) (su_world s) = (out, w)
    \<Longrightarrow> start_step env d p jobs s (set_worker i (Appending out) (s\<lparr>su_world := w\<rparr>))"
| load: "i < length (su_workers s) \<Longrightarrow> su_workers s ! i = Appending out
    \<Longrightarrow> start_step env d p jobs s (set_worker i (Loaded out (slice_of out s)) s)"
| store: "i < length (su_workers s) \<Longrightarrow> su_workers s ! i = Loaded out xs
    \<Longrightarrow> start_step env d p jobs s (set_worker i (Over out) (store_slice out xs s))"

inductive_cases start_stepE: "start_step env d p jobs s t"

definition startup_start :: "'w \<Rightarrow> 'w startup" where
  "startup_start w = \<lparr>su_world = w, su_containers = [], su_errs = [], su_workers = []\<rparr>"

subsection \<open>Invariant and weight\<close>

definition job_container :: "nat \<times> string \<Rightarrow> string" where
  "job_container job = fst (getContainerAndAddress (snd job) (fst job))"

text \<open>The containers of the goroutines that are over and started one.\<close>

definition finished_containers :: "goroutine list \<Rightarrow> string set" where
  "finished_containers ws = {c. Over (Started c) \<in> set ws}"

definition outcome_ok :: "nat \<times> string \<Rightarrow> start_outcome \<Rightarrow> bool" where
  "outcome_ok job out \<longleftrightarrow> (\<forall>c. out = Started c \<longrightarrow> c = job_container job)"

definition slice_ok :: "goroutine list \<Rightarrow> string list \<Rightarrow> bool" where
  "slice_ok ws cs \<longleftrightarrow> distinct cs \<and> set cs \<subseteq> finished_containers ws"

definition goroutine_ok :: "goroutine list \<Rightarrow> nat \<times> string \<Rightarrow> goroutine \<Rightarrow> bool" where
  "goroutine_ok ws job g = (case g of
     Appending out \<Rightarrow> outcome_ok job out
   | Loaded out xs \<Rightarrow> outcome_ok job out \<and> ((\<exists>c. out = Started c) \<longrightarrow> slice_ok ws xs)
   | Over out \<Rightarrow> outcome_ok job out
   | _ \<Rightarrow> True)"

definition startup_inv :: "(nat \<times> string) list \<Rightarrow> 'w startup \<Rightarrow> bool" where
  "startup_inv jobs s \<longleftrightarrow> length (su_workers s) \<le> length jobs
     \<and> (\<forall>i < length (su_workers s). goroutine_ok (su_workers s) (jobs ! i) (su_workers s ! i))
     \<and> slice_ok (su_workers s) (su_containers s)"

fun goroutine_left :: "goroutine \<Rightarrow> nat" where
  "goroutine_left Checking = 5"
| "goroutine_left Stopping = 4"
| "goroutine_left Launching = 3"
| "goroutine_left (Appending out) = 2"
| "goroutine_left (Loaded out xs) = 1"
| "goroutine_left (Over out) = 0"

definition startup_left :: "(nat \<times> string) list \<Rightarrow> 'w startup \<Rightarrow> nat" where
  "startup_left jobs s = 6 * (length jobs - length (su_workers s)) + sum_list (map goroutine_left (su_workers s))"

lemma finished_update:
  assumes "i < length ws" "\<forall>out. ws ! i \<noteq> Over out"
  shows "finished_containers ws \<subseteq> finished_containers (ws[i := g])"
proof
  fix c assume "c \<in> finished_containers ws"
  then obtain j where "j < length ws" "ws ! j = Over (Started c)" by (auto simp: finished_containers_def in_set_conv_nth)
  moreover from this have "j \<noteq> i" using assms(2) by auto
  ultimately have "j < length (ws[i := g])" "ws[i := g] ! j = Over (Started c)" by simp_all
  then show "c \<in> finished_containers (ws[i := g])" unfolding finished_containers_def by (metis mem_Collect_eq nth_mem)
qed

lemma slice_ok_mono: "slice_ok ws cs \<Longrightarrow> finished_containers ws \<subseteq> finished_containers vs \<Longrightarrow> slice_ok vs cs"
  by (auto simp: slice_ok_def)

lemma goroutine_ok_mono:
  "goroutine_ok ws job g \<Longrightarrow> finished_containers ws \<subseteq> finished_containers vs \<Longrightarrow> goroutine_ok vs job g"
  by (auto simp: goroutine_ok_def intro: slice_ok_mono split: goroutine.splits)

text \<open>Moving one goroutine that is not over keeps the invariant when the goroutine is right where it
  goes and the slice of containers is.\<close>

lemma startup_inv_move:
  assumes "startup_inv jobs s" "i < length (su_workers s)" "\<forall>out. su_workers s ! i \<noteq> Over out"
    and "goroutine_ok ((su_workers s)[i := g]) (jobs ! i) g"
    and "slice_ok ((su_workers s)[i := g]) (su_containers t)" "su_workers t = su_workers s"
  shows "startup_inv jobs (set_worker i g t)"
proof -
  let ?vs = "(su_workers s)[i := g]"
  note up = finished_update [OF assms(2,3), of g]
  have "goroutine_ok ?vs (jobs ! j) (?vs ! j)" if "j < length (su_workers s)" for j
    using assms(1,2,4) that goroutine_ok_mono [OF _ up] by (cases "j = i") (auto simp: startup_inv_def)
  then show ?thesis using assms(1,5,6) by (simp add: startup_inv_def set_worker_def)
qed

lemma run_analyzer_ok: "run_analyzer env d p job w = (out, w') \<Longrightarrow> outcome_ok job out"
  by (auto simp: run_analyzer_def outcome_ok_def job_container_def split: prod.splits option.splits)

lemma finished_owner:
  assumes "startup_inv jobs s" "c \<in> finished_containers (su_workers s)"
  shows "\<exists>j < length (su_workers s). su_workers s ! j = Over (Started c) \<and> c = job_container (jobs ! j)"
proof -
  obtain j where "j < length (su_workers s)" "su_workers s ! j = Over (Started c)"
    using assms(2) by (auto simp: finished_containers_def in_set_conv_nth)
  then show ?thesis using assms(1) by (fastforce simp: startup_inv_def goroutine_ok_def outcome_ok_def)
qed

lemma job_container_inj:
  assumes "distinct (map fst jobs)" "i < length jobs" "j < length jobs" "job_container (jobs ! i) = job_container (jobs ! j)"
  shows "i = j"
proof -
  have "fst (jobs ! i) = fst (jobs ! j)" using assms(4) container_name_inj by (metis job_container_def)
  then show ?thesis using assms(1-3) by (metis length_map nth_eq_iff_index_eq nth_map)
qed

lemma slice_ok_store:
  assumes "startup_inv jobs s" "distinct (map fst jobs)"
    and "i < length (su_workers s)" "su_workers s ! i = Loaded (Started c) xs"
  shows "slice_ok ((su_workers s)[i := Over (Started c)]) (xs @ [c])"
proof -
  have g: "c = job_container (jobs ! i)" "slice_ok (su_workers s) xs"
    using assms(1,3,4) by (fastforce simp: startup_inv_def goroutine_ok_def outcome_ok_def)+
  have len: "length (su_workers s) \<le> length jobs" using assms(1) by (simp add: startup_inv_def)
  have "c \<notin> finished_containers (su_workers s)"
  proof
    assume "c \<in> finished_containers (su_workers s)"
    then obtain j where "j < length (su_workers s)" "su_workers s ! j = Over (Started c)" "c = job_container (jobs ! j)"
      using finished_owner [OF assms(1)] by blast
    then show False using job_container_inj [OF assms(2), of i j] g(1) assms(3,4) len by auto
  qed
  moreover have "c \<in> finished_containers ((su_workers s)[i := Over (Started c)])"
    using set_update_memI [OF assms(3)] by (simp add: finished_containers_def)
  ultimately show ?thesis
    using g(2) finished_update [OF assms(3), of "Over (Started c)"] assms(4) by (auto simp: slice_ok_def)
qed

lemma startup_inv_step:
  assumes "distinct (map fst jobs)" "startup_inv jobs s" "start_step env d p jobs s t"
  shows "startup_inv jobs t"
proof -
  have mono: "slice_ok ((su_workers s)[i := g]) cs"
    if "slice_ok (su_workers s) cs" "i < length (su_workers s)" "\<forall>out. su_workers s ! i \<noteq> Over out" for i g cs
    using slice_ok_mono [OF that(1) finished_update [OF that(2,3)]] .
  have cs: "slice_ok (su_workers s) (su_containers s)" using assms(2) by (simp add: startup_inv_def)
  have ok: "goroutine_ok (su_workers s) (jobs ! i) (su_workers s ! i)" if "i < length (su_workers s)" for i
    using assms(2) that by (simp add: startup_inv_def)
  show ?thesis
    using assms(3)
  proof cases
    case spawn
    have "finished_containers (su_workers s) \<subseteq> finished_containers (su_workers s @ [Checking])"
      by (auto simp: finished_containers_def)
    note up = goroutine_ok_mono [OF _ this] slice_ok_mono [OF _ this]
    show ?thesis
      using assms(2) spawn up(1) up(2) [OF cs]
      by (auto simp: startup_inv_def nth_append less_Suc_eq goroutine_ok_def [of _ _ Checking])
  next
    case (check i matches w)
    show ?thesis
      unfolding check(1)
      by (rule startup_inv_move [OF assms(2) check(2)])
        (use check mono [OF cs check(2)] in \<open>auto simp: goroutine_ok_def outcome_ok_def\<close>)
  next
    case (stop i)
    show ?thesis
      unfolding stop(1)
      by (rule startup_inv_move [OF assms(2) stop(2)])
        (use stop mono [OF cs stop(2)] in \<open>auto simp: goroutine_ok_def\<close>)
  next
    case (launch i out w)
    show ?thesis
      unfolding launch(1)
      by (rule startup_inv_move [OF assms(2) launch(2)])
        (use launch mono [OF cs launch(2)] run_analyzer_ok [OF launch(4)] in \<open>auto simp: goroutine_ok_def\<close>)
  next
    case (load i out)
    show ?thesis
      unfolding load(1)
      by (rule startup_inv_move [OF assms(2) load(2)])
        (use load mono [OF cs load(2)] ok [OF load(2)] in \<open>auto simp: goroutine_ok_def slice_of_def\<close>)
  next
    case (store i out xs)
    have o: "outcome_ok (jobs ! i) out" using ok [OF store(2)] store(3) by (simp add: goroutine_ok_def)
    have "slice_ok ((su_workers s)[i := Over out]) (su_containers (store_slice out xs s))"
      using mono [OF cs store(2)] slice_ok_store [OF assms(2,1) store(2)] store(3)
      by (cases out) (auto simp: store_slice_def)
    then show ?thesis
      unfolding store(1) using store(3) o
      by (intro startup_inv_move [OF assms(2) store(2)])
        (auto simp: goroutine_ok_def store_slice_def split: start_outcome.split)
  qed
qed

lemma startup_left_step:
  assumes "start_step env d p jobs s t"
  shows "startup_left jobs t < startup_left jobs s"
  using assms
  by cases (auto intro!: sum_update_less
      simp: startup_left_def set_worker_def store_slice_def split: start_outcome.split)

lemma enumerate_fst: "distinct (map fst (enumerate 0 xs))" by simp

interpretation startup: step_system "start_step env d p (enumerate 0 imgs)" "startup_start w"
  "startup_inv (enumerate 0 imgs)" "startup_left (enumerate 0 imgs)"
  for env :: "'w cli_env" and d p imgs w
  by unfold_locales (simp add: startup_inv_def startup_start_def slice_ok_def,
      erule (1) startup_inv_step [OF enumerate_fst], erule startup_left_step)

subsection \<open>Every schedule\<close>

text \<open>C16: in every state the goroutines of \<open>startAnalyzers\<close> can get into, the containers listed are
  pairwise distinct, and each belongs to one of the images, under its own number, and was started by
  a goroutine that is through: the service is never linked to a container that is not there.\<close>

theorem startup_containers_started:
  assumes "(start_step env d p (enumerate 0 imgs))\<^sup>*\<^sup>* (startup_start w) s"
  shows "distinct (su_containers s) \<and> (\<forall>c \<in> set (su_containers s). \<exists>i < length imgs.
    c = fst (getContainerAndAddress (imgs ! i) i) \<and> i < length (su_workers s) \<and> su_workers s ! i = Over (Started c))"
proof -
  have I: "startup_inv (enumerate 0 imgs) s" by (rule startup.reachable_inv [OF assms])
  then have "slice_ok (su_workers s) (su_containers s)" "length (su_workers s) \<le> length imgs"
    by (simp_all add: startup_inv_def)
  moreover have "\<exists>i < length imgs. c = fst (getContainerAndAddress (imgs ! i) i) \<and> i < length (su_workers s)
      \<and> su_workers s ! i = Over (Started c)"
    if "c \<in> finished_containers (su_workers s)" "length (su_workers s) \<le> length imgs" for c
  proof -
    note f = finished_owner [OF I that(1)]
    obtain j where "j < length (su_workers s)" "su_workers s ! j = Over (Started c)" "c = job_container (enumerate 0 imgs ! j)"
      using f by blast
    then show ?thesis using that(2) by (intro exI [of _ j]) (simp add: job_container_def nth_enumerate_eq)
  qed
  ultimately show ?thesis by (auto simp: slice_ok_def)
qed

text \<open>A goroutine that is not over can always move.\<close>

lemma startup_stuck:
  assumes "stuck (start_step env d p jobs) s" "length (su_workers s) \<le> length jobs"
  shows "length (su_workers s) = length jobs \<and> (\<forall>g \<in> set (su_workers s). \<exists>out. g = Over out)"
proof -
  have stay: "\<not> start_step env d p jobs s t" for t using assms(1) by (simp add: stuck_def)
  have "length (su_workers s) = length jobs" using stay spawn assms(2) by (metis le_neq_implies_less)
  moreover have "\<exists>out. su_workers s ! i = Over out" if i: "i < length (su_workers s)" for i
  proof (cases "su_workers s ! i")
    case Checking
    with check [OF i] stay show ?thesis by (metis prod.collapse)
  next
    case Launching
    with launch [OF i] stay show ?thesis by (metis prod.collapse)
  qed (use stay stop [OF i] load [OF i] store [OF i] in blast)+
  ultimately show ?thesis by (auto simp: in_set_conv_nth)
qed

text \<open>Whatever the schedule, the goroutines of \<open>startAnalyzers\<close> come to an end, after at most
  six steps each, and then each of them is through.\<close>

theorem startup_ends:
  assumes "(start_step env d p (enumerate 0 imgs) ^^ n) (startup_start w) s"
  shows "n \<le> 6 * length imgs
    \<and> (\<exists>t. (start_step env d p (enumerate 0 imgs))\<^sup>*\<^sup>* s t \<and> stuck (start_step env d p (enumerate 0 imgs)) t)
    \<and> (stuck (start_step env d p (enumerate 0 imgs)) s
         \<longrightarrow> length (su_workers s) = length imgs \<and> (\<forall>g \<in> set (su_workers s). \<exists>out. g = Over out))"
proof -
  note reach = relpowp_imp_rtranclp [OF assms]
  have "length (su_workers s) \<le> length imgs"
    using startup.reachable_inv [OF reach] by (simp add: startup_inv_def)
  then show ?thesis
    using startup.run_length [OF startup.inv_start assms] startup.reachable_ends [OF reach]
      startup_stuck [of env d p "enumerate 0 imgs" s]
    by (simp add: startup_left_def startup_start_def)
qed

subsection \<open>The sequential schedule\<close>

lemma startup_one_job:
  assumes "i < length (su_workers s)" "su_workers s ! i = Checking"
    and "start_analyzer env d p (jobs ! i) ((su_containers s, su_errs s), su_world s) = ((cs, es), w)"
  shows "\<exists>out. (start_step env d p jobs)\<^sup>*\<^sup>* s
    \<lparr>su_world = w, su_containers = cs, su_errs = es, su_workers = (su_workers s)[i := Over out]\<rparr>"
proof -
  let ?step = "start_step env d p jobs" and ?ws = "su_workers s"
  obtain matches w1 where c: "check_container env (jobs ! i) (su_world s) = (matches, w1)" by fastforce
  have s1: "?step s (set_worker i (if matches then Over Reused else Stopping) (s\<lparr>su_world := w1\<rparr>))"
    by (rule check [OF assms(1,2) c])
  show ?thesis
  proof (cases matches)
    case True
    then have "cs = su_containers s" "es = su_errs s" "w = w1"
      using assms(3) c by (auto simp: start_analyzer_def start_container_def check_container_def split: prod.splits)
    then show ?thesis
      using s1 True by (cases s) (auto simp: set_worker_def)
  next
    case False
    let ?w2 = "stop_container env (jobs ! i) w1"
    obtain out w3 where l: "run_analyzer env d p (jobs ! i) ?w2 = (out, w3)" by fastforce
    have res: "w = w3" "((cs, es), w3) = ((case out of Reused \<Rightarrow> (su_containers s, su_errs s)
          | Failed err \<Rightarrow> (su_containers s, su_errs s @ [err]) | Started c \<Rightarrow> (su_containers s @ [c], su_errs s)), w3)"
      using assms(3) c l False
      by (auto simp: start_analyzer_def start_container_def check_container_def stop_container_def split: prod.splits)
    define at where "at = (\<lambda>g w. set_worker i g (s\<lparr>su_world := w\<rparr>))"
    have at: "su_workers (at g w) = ?ws[i := g]" "su_world (at g w) = w" "su_containers (at g w) = su_containers s"
      "su_errs (at g w) = su_errs s" "set_worker i g' (at g w) = at g' w"
      "set_worker i g' ((at g w)\<lparr>su_world := w'\<rparr>) = at g' w'" for g g' w w'
      by (simp_all add: at_def set_worker_def)
    have "?step s (at Stopping w1)" using s1 False by (simp add: at_def)
    moreover have "?step (at Stopping w1) (at Launching ?w2)"
      using stop [of i "at Stopping w1" env d p jobs] assms(1) by (simp add: at)
    moreover have "?step (at Launching ?w2) (at (Appending out) w3)"
      using launch [of i "at Launching ?w2" env d p jobs out w3] assms(1) l by (simp add: at)
    moreover have "?step (at (Appending out) w3) (at (Loaded out (slice_of out s)) w3)"
      using load [of i "at (Appending out) w3" out env d p jobs] assms(1)
      by (simp add: at slice_of_def split: start_outcome.splits)
    moreover have "set_worker i (Over out) (store_slice out (slice_of out s) (at (Loaded out (slice_of out s)) w3))
        = \<lparr>su_world = w, su_containers = cs, su_errs = es, su_workers = ?ws[i := Over out]\<rparr>"
      using res by (cases s; cases out) (simp_all add: at_def set_worker_def store_slice_def slice_of_def)
    then have "?step (at (Loaded out (slice_of out s)) w3)
        \<lparr>su_world = w, su_containers = cs, su_errs = es, su_workers = ?ws[i := Over out]\<rparr>"
      using store [of i "at (Loaded out (slice_of out s)) w3" out "slice_of out s" env d p jobs] assms(1)
      by (simp add: at)
    ultimately show ?thesis by (meson converse_rtranclp_into_rtranclp rtranclp.rtrancl_refl)
  qed
qed

lemma startup_spawn_all:
  "n \<le> length jobs \<Longrightarrow> (start_step env d p jobs)\<^sup>*\<^sup>* (startup_start w) ((startup_start w)\<lparr>su_workers := replicate n Checking\<rparr>)"
proof (induction n)
  case (Suc n)
  have "start_step env d p jobs ((startup_start w)\<lparr>su_workers := replicate n Checking\<rparr>)
      ((startup_start w)\<lparr>su_workers := replicate (Suc n) Checking\<rparr>)"
    using spawn [of "(startup_start w)\<lparr>su_workers := replicate n Checking\<rparr>" jobs env d p] Suc.prems
    by (simp add: replicate_append_same)
  with Suc show ?case by (simp add: rtranclp.rtrancl_into_rtrancl)
qed (simp add: startup_start_def)

lemma startup_jobs:
  assumes "\<forall>(i, img) \<in> set js. i < length (su_workers s) \<and> su_workers s ! i = Checking \<and> jobs ! i = (i, img)"
    and "distinct (map fst js)"
    and "fold (start_analyzer env d p) js ((su_containers s, su_errs s), su_world s) = ((cs, es), w)"
  shows "\<exists>ws. (start_step env d p jobs)\<^sup>*\<^sup>* s \<lparr>su_world = w, su_containers = cs, su_errs = es, su_workers = ws\<rparr>
    \<and> length ws = length (su_workers s) \<and> (\<forall>i < length ws. i \<in> fst ` set js \<longrightarrow> (\<exists>out. ws ! i = Over out))
    \<and> (\<forall>i < length ws. i \<notin> fst ` set js \<longrightarrow> ws ! i = su_workers s ! i)"
  using assms
proof (induction js arbitrary: s)
  case Nil
  then show ?case by (cases s) auto
next
  case (Cons j js)
  obtain i img where j: "j = (i, img)" by fastforce
  have i: "i < length (su_workers s)" "su_workers s ! i = Checking" "jobs ! i = (i, img)"
    using Cons.prems(1) by (auto simp: j)
  obtain cs1 es1 w1 where f: "start_analyzer env d p (i, img) ((su_containers s, su_errs s), su_world s) = ((cs1, es1), w1)"
    by (metis prod.collapse)
  obtain out where one: "(start_step env d p jobs)\<^sup>*\<^sup>* s
      \<lparr>su_world = w1, su_containers = cs1, su_errs = es1, su_workers = (su_workers s)[i := Over out]\<rparr>"
    using startup_one_job [OF i(1,2)] f i(3) by metis
  let ?s1 = "\<lparr>su_world = w1, su_containers = cs1, su_errs = es1, su_workers = (su_workers s)[i := Over out]\<rparr>"
  have "k \<noteq> i" if "(k, img') \<in> set js" for k img' using Cons.prems(2) that by (force simp: j)
  then have "\<forall>(k, img') \<in> set js. k < length (su_workers ?s1) \<and> su_workers ?s1 ! k = Checking \<and> jobs ! k = (k, img')"
    using Cons.prems(1) by fastforce
  moreover have "fold (start_analyzer env d p) js ((su_containers ?s1, su_errs ?s1), su_world ?s1) = ((cs, es), w)"
    using Cons.prems(3) f by (simp add: j)
  moreover have "distinct (map fst js)" using Cons.prems(2) by simp
  ultimately obtain ws where ws: "(start_step env d p jobs)\<^sup>*\<^sup>* ?s1 \<lparr>su_world = w, su_containers = cs, su_errs = es, su_workers = ws\<rparr>"
    "length ws = length (su_workers s)" "\<forall>k < length ws. k \<in> fst ` set js \<longrightarrow> (\<exists>out. ws ! k = Over out)"
    "\<forall>k < length ws. k \<notin> fst ` set js \<longrightarrow> ws ! k = (su_workers s)[i := Over out] ! k"
    using Cons.IH [of ?s1] by auto
  moreover have "i \<notin> fst ` set js" using Cons.prems(2) by (simp add: j)
  ultimately show ?case
    using rtranclp_trans [OF one ws(1)] i(1) by (intro exI [of _ ws]) (auto simp: j nth_list_update)
qed

text \<open>What the model of \<open>startAnalyzers\<close> returns, which runs the goroutines one after the
  other, is what a schedule of the concurrent system ends in.\<close>

theorem startAnalyzers_schedule:
  assumes "finish_ok env" "startAnalyzers env d imgs p w = ((cs, es), w')"
  shows "\<exists>ws. (start_step env d p (enumerate 0 imgs))\<^sup>*\<^sup>* (startup_start w)
      \<lparr>su_world = w', su_containers = cs, su_errs = es, su_workers = ws\<rparr>
    \<and> length ws = length imgs \<and> (\<forall>g \<in> set ws. \<exists>out. g = Over out)"
proof -
  let ?jobs = "enumerate 0 imgs" and ?js = "ce_finish env (enumerate 0 imgs)"
  let ?s = "(startup_start w)\<lparr>su_workers := replicate (length imgs) Checking\<rparr>"
  have js: "set ?js = set ?jobs" "distinct (map fst ?js)"
    using finish_jobs [OF assms(1), of ?jobs] by simp_all
  have "\<forall>(i, img) \<in> set ?js. i < length (su_workers ?s) \<and> su_workers ?s ! i = Checking \<and> ?jobs ! i = (i, img)"
    unfolding js(1) by (auto simp: in_set_enumerate_eq nth_enumerate_eq)
  moreover have "fold (start_analyzer env d p) ?js ((su_containers ?s, su_errs ?s), su_world ?s) = ((cs, es), w')"
    using assms(2) by (simp add: startAnalyzers_def startup_start_def)
  moreover have "i \<in> fst ` set ?js" if "i < length imgs" for i
  proof -
    have "(i, imgs ! i) \<in> set (enumerate 0 imgs)" using that by (simp add: in_set_enumerate_eq)
    then show ?thesis unfolding js(1) by force
  qed
  ultimately obtain ws where ws: "(start_step env d p ?jobs)\<^sup>*\<^sup>* ?s \<lparr>su_world = w', su_containers = cs, su_errs = es, su_workers = ws\<rparr>"
    "length ws = length imgs" "\<forall>i < length ws. \<exists>out. ws ! i = Over out"
    using startup_jobs [OF _ js(2), of ?s ?jobs env d p cs es w'] by auto
  have "(start_step env d p ?jobs)\<^sup>*\<^sup>* (startup_start w) ?s" by (rule startup_spawn_all) simp
  from rtranclp_trans [OF this ws(1)] show ?thesis using ws(2,3) by (intro exI [of _ ws]) (auto simp: in_set_conv_nth)
qed

subsection \<open>Two analyzers\<close>

lemma quiet_commands:
  "check_container quiet_env job w = (False, w)"
  "stop_container quiet_env job w = w"
  "run_analyzer quiet_env d p job w = (Started (job_container job), w)"
proof -
  have x: "Exec (ce_os quiet_env) argv w = (\<lparr>xr_stdout = [], xr_stderr = [], xr_err = None\<rparr>, w)"
    "CombinedOutput (ce_os quiet_env) argv w = (([], Some (ExecError ''not found'')), w)" for argv
    by (simp_all add: quiet_env_def plain_os_def)
  have n: "getContainerAndAddress img i = (c, port) \<Longrightarrow> c \<noteq> []" for img i c port
    by (auto simp: getContainerAndAddress_def Let_def)
  show "check_container quiet_env job w = (False, w)"
    by (simp add: check_container_def ImageMatches_def inspect_def x Let_def split: prod.split)
  show "stop_container quiet_env job w = w"
    by (simp add: stop_container_def Stop_def run_command_def x split: prod.split)
  show "run_analyzer quiet_env d p job w = (Started (job_container job), w)"
    using n by (auto simp: run_analyzer_def RunAnalyzer_def run_command_def x job_container_def split: prod.split)
qed

definition two_images :: "string list" where
  "two_images = [''repo/lint'', ''repo/vet'']"

lemma two_containers:
  "job_container (0, ''repo/lint'') = ''lint_0''" "job_container (1, ''repo/vet'') = ''vet_1''"
  by (simp_all add: job_container_def getContainerAndAddress_def Let_def LastIndex_def Itoa_def
      itoa_nat.simps digit_chars)

text \<open>Both goroutines read the empty slice before either writes its own back.\<close>

definition at_two :: "goroutine \<Rightarrow> goroutine \<Rightarrow> string list \<Rightarrow> string startup" where
  "at_two g h cs = \<lparr>su_world = ''/'', su_containers = cs, su_errs = [], su_workers = [g, h]\<rparr>"

lemma two_steps:
  fixes d p
  defines "step \<equiv> start_step quiet_env d p (enumerate 0 two_images)"
  shows "step\<^sup>*\<^sup>* (startup_start ''/'') (at_two Checking Checking [])"
    "step (at_two Checking h cs) (at_two Stopping h cs)" "step (at_two g Checking cs) (at_two g Stopping cs)"
    "step (at_two Stopping h cs) (at_two Launching h cs)" "step (at_two g Stopping cs) (at_two g Launching cs)"
    "step (at_two Launching h cs) (at_two (Appending (Started ''lint_0'')) h cs)"
    "step (at_two g Launching cs) (at_two g (Appending (Started ''vet_1'')) cs)"
    "step (at_two (Appending (Started c)) h cs) (at_two (Loaded (Started c) cs) h cs)"
    "step (at_two g (Appending (Started c)) cs) (at_two g (Loaded (Started c) cs) cs)"
    "step (at_two (Loaded (Started c) xs) h cs) (at_two (Over (Started c)) h (xs @ [c]))"
    "step (at_two g (Loaded (Started c) xs) cs) (at_two g (Over (Started c)) (xs @ [c]))"
proof -
  have imgs: "enumerate 0 two_images = [(0, ''repo/lint''), (1, ''repo/vet'')]"
    by (simp add: two_images_def)
  have "(startup_start ''/'')\<lparr>su_workers := replicate 2 Checking\<rparr> = at_two Checking Checking []"
    by (simp add: startup_start_def at_two_def numeral_2_eq_2)
  then show "step\<^sup>*\<^sup>* (startup_start ''/'') (at_two Checking Checking [])"
    using startup_spawn_all [of 2 "enumerate 0 two_images" quiet_env d p "''/''"] by (simp add: step_def imgs)
  note S = start_step.intros(2-6) [where env = quiet_env and d = d and p = p and jobs = "enumerate 0 two_images"]
  note U = quiet_commands two_containers imgs set_worker_def slice_of_def store_slice_def step_def at_two_def
  show "step (at_two Checking h cs) (at_two Stopping h cs)" "step (at_two g Checking cs) (at_two g Stopping cs)"
    using S(1) [of 0 "at_two Checking h cs" False "''/''"] S(1) [of 1 "at_two g Checking cs" False "''/''"]
    by (simp_all add: U)
  show "step (at_two Stopping h cs) (at_two Launching h cs)" "step (at_two g Stopping cs) (at_two g Launching cs)"
    using S(2) [of 0 "at_two Stopping h cs"] S(2) [of 1 "at_two g Stopping cs"] by (simp_all add: U)
  show "step (at_two Launching h cs) (at_two (Appending (Started ''lint_0'')) h cs)"
    "step (at_two g Launching cs) (at_two g (Appending (Started ''vet_1'')) cs)"
    using S(3) [of 0 "at_two Launching h cs"] S(3) [of 1 "at_two g Launching cs"] by (simp_all add: U [simplified])
  show "step (at_two (Appending (Started c)) h cs) (at_two (Loaded (Started c) cs) h cs)"
    "step (at_two g (Appending (Started c)) cs) (at_two g (Loaded (Started c) cs) cs)"
    using S(4) [of 0 "at_two (Appending (Started c)) h cs"] S(4) [of 1 "at_two g (Appending (Started c)) cs"]
    by (simp_all add: U)
  show "step (at_two (Loaded (Started c) xs) h cs) (at_two (Over (Started c)) h (xs @ [c]))"
    "step (at_two g (Loaded (Started c) xs) cs) (at_two g (Over (Started c)) (xs @ [c]))"
    using S(5) [of 0 "at_two (Loaded (Started c) xs) h cs"] S(5) [of 1 "at_two g (Loaded (Started c) xs) cs"]
    by (simp_all add: U)
qed

lemma two_raced:
  "(start_step quiet_env d p (enumerate 0 two_images))\<^sup>*\<^sup>* (startup_start ''/'')
     (at_two (Over (Started ''lint_0'')) (Over (Started ''vet_1'')) [''vet_1''])"
proof -
  let ?step = "start_step quiet_env d p (enumerate 0 two_images)"
  note go = two_steps [of d p]
  have "?step\<^sup>*\<^sup>* (at_two Checking Checking []) (at_two Launching Launching [])"
    using go(2) [of Checking "[]"] go(4) [of Checking "[]"] go(3) [of Launching "[]"] go(5) [of Launching "[]"]
    by (meson converse_rtranclp_into_rtranclp rtranclp.rtrancl_refl)
  moreover have "?step\<^sup>*\<^sup>* (at_two Launching Launching [])
      (at_two (Appending (Started ''lint_0'')) (Appending (Started ''vet_1'')) [])"
    using go(6) go(7) by (meson converse_rtranclp_into_rtranclp rtranclp.rtrancl_refl)
  moreover have "?step\<^sup>*\<^sup>* (at_two (Appending (Started ''lint_0'')) (Appending (Started ''vet_1'')) [])
      (at_two (Loaded (Started ''lint_0'') []) (Loaded (Started ''vet_1'') []) [])"
    using go(8) go(9) by (meson converse_rtranclp_into_rtranclp rtranclp.rtrancl_refl)
  moreover have "?step\<^sup>*\<^sup>* (at_two (Loaded (Started ''lint_0'') []) (Loaded (Started ''vet_1'') []) [])
      (at_two (Over (Started ''lint_0'')) (Over (Started ''vet_1'')) [''vet_1''])"
    using go(10) [of "''lint_0''" "[]" "Loaded (Started ''vet_1'') []" "[]"]
      go(11) [of "Over (Started ''lint_0'')" "''vet_1''" "[]" "[''lint_0'']"]
    by (auto intro: converse_rtranclp_into_rtranclp)
  ultimately show ?thesis using go(1) by (meson rtranclp_trans)
qed

text \<open>Two analyzers that both come up can leave only one of them in the list: the service is
  then started without a link to an analyzer that is running.\<close>

theorem startup_lost_update:
  "\<exists>s. (start_step quiet_env d p (enumerate 0 two_images))\<^sup>*\<^sup>* (startup_start ''/'') s
     \<and> stuck (start_step quiet_env d p (enumerate 0 two_images)) s
     \<and> su_workers s = [Over (Started ''lint_0''), Over (Started ''vet_1'')]
     \<and> su_containers s = [''vet_1''] \<and> su_errs s = []"
proof -
  have "stuck (start_step quiet_env d p (enumerate 0 two_images))
      (at_two (Over (Started ''lint_0'')) (Over (Started ''vet_1'')) [''vet_1''])"
    by (auto simp: stuck_def at_two_def two_images_def less_Suc_eq elim!: start_stepE)
  then show ?thesis using two_raced by (intro exI conjI) (auto simp: at_two_def)
qed

theorem startup_containers_started_witness:
  "\<exists>s. (start_step quiet_env ''/src'' False (enumerate 0 two_images))\<^sup>*\<^sup>* (startup_start ''/'') s
     \<and> su_containers s = [''vet_1'']
     \<and> (\<exists>i < 2. ''vet_1'' = fst (getContainerAndAddress (two_images ! i) i) \<and> su_workers s ! i = Over (Started ''vet_1''))"
proof -
  let ?s = "at_two (Over (Started ''lint_0'')) (Over (Started ''vet_1'')) [''vet_1'']"
  have "su_containers ?s = [''vet_1'']" "length two_images = 2" by (simp_all add: at_two_def two_images_def)
  then show ?thesis
    using two_raced [of "''/src''" False] startup_containers_started [OF two_raced [of "''/src''" False]]
    by (intro exI [of _ ?s]) auto
qed

theorem startup_ends_witness:
  "\<exists>t. (start_step quiet_env ''/src'' False (enumerate 0 two_images))\<^sup>*\<^sup>* (startup_start ''/'') t
     \<and> stuck (start_step quiet_env ''/src'' False (enumerate 0 two_images)) t"
  using startup_ends [of 0 quiet_env "''/src''" False two_images "''/''" "startup_start ''/''"] by simp

theorem startAnalyzers_schedule_witness:
  "\<exists>cs es w' ws. startAnalyzers quiet_env ''/src'' two_images False ''/'' = ((cs, es), w')
     \<and> (start_step quiet_env ''/src'' False (enumerate 0 two_images))\<^sup>*\<^sup>* (startup_start ''/'')
      \<lparr>su_world = w', su_containers = cs, su_errs = es, su_workers = ws\<rparr> \<and> length ws = 2"
proof -
  obtain cs es w' where r: "startAnalyzers quiet_env ''/src'' two_images False ''/'' = ((cs, es), w')"
    by (metis prod.collapse)
  from startAnalyzers_schedule [OF finish_quiet r] show ?thesis using r by (auto simp: two_images_def)
qed

end
