(* ===== verification/FileUtil.thy ===== *)
theory FileUtil
  imports Osys Paths Messages
begin

text \<open>
  \<open>shipshape/util/file\<close>: \<open>file_util.go\<close> (changing directory with a way back) and
  \<open>cloud_repo_file_utility.go\<close> (fetching a cloud repository with \<open>curl\<close> and \<open>tar\<close>).
\<close>

subsection \<open>Changing directory\<close>

text \<open>
  \<open>ChangeDir\<close> returns the old directory, the function that goes back (here the directory it
  goes back to, \<open>None\<close> for a nil function) and the error of the change.
\<close>

definition ChangeDir ::
  "'w os \<Rightarrow> string \<Rightarrow> 'w \<Rightarrow> (string \<times> string option \<times> string option) \<times> 'w" where
  "ChangeDir os dir w =
     (case Getwd os w of
        Inl err \<Rightarrow> (([], None, Some err), w)
      | Inr orgDir \<Rightarrow> (case Chdir os dir w of (err, w') \<Rightarrow> ((orgDir, Some orgDir, err), w')))"

text \<open>The deferred call of the returned function.\<close>

definition restore_dir :: "'w os \<Rightarrow> string option \<Rightarrow> 'w \<Rightarrow> string option \<times> 'w" where
  "restore_dir os restore w = (case restore of None \<Rightarrow> (None, w) | Some d \<Rightarrow> Chdir os d w)"

lemma restore_dir_home:
  assumes "returns_home os" "Getwd os w = Inr d" "ChangeDir os dir w = ((org, restore, err), w1)"
  shows "Getwd os (snd (restore_dir os restore w')) = Inr d"
  using assms
  by (auto simp: ChangeDir_def restore_dir_def returns_home_def split: prod.splits)

subsection \<open>Splitting a command line\<close>

text \<open>
  \<open>argSplit\<close> walks over the line with the words found so far, the current word, and the two
  flags: inside quotes, after a backslash.  Only ASCII bytes are special, so walking over the
  bytes of a valid UTF-8 line is the same as walking over its runes.
\<close>

fun argSplit_loop :: "string list \<Rightarrow> string \<Rightarrow> bool \<Rightarrow> bool \<Rightarrow> string \<Rightarrow> string list" where
  "argSplit_loop args arg q e [] = (if length arg > 0 then args @ [arg] else args)"
| "argSplit_loop args arg q e (c # line) =
     (if \<not> q \<and> \<not> e \<and> c = CHR '' '' then
        (if length arg > 0 then argSplit_loop (args @ [arg]) [] q e line
         else argSplit_loop args arg q e line)
      else if \<not> e \<and> c = CHR 0x22 then argSplit_loop args arg (\<not> q) e line
      else if \<not> e \<and> c = CHR 0x5C then argSplit_loop args arg q True line
      else argSplit_loop args (arg @ [c]) q (if e then False else e) line)"

definition argSplit :: "string \<Rightarrow> string list" where
  "argSplit line = argSplit_loop [] [] False False line"

text \<open>Escaping a word for it: a backslash before a space, a quote or a backslash.\<close>

definition special :: "char \<Rightarrow> bool" where
  "special c \<longleftrightarrow> c = CHR '' '' \<or> c = CHR 0x22 \<or> c = CHR 0x5C"

definition escape_arg :: "string \<Rightarrow> string" where
  "escape_arg a = concat (map (\<lambda>c. if special c then [CHR 0x5C, c] else [c]) a)"

lemma argSplit_loop_escaped:
  "argSplit_loop args arg False False (escape_arg a @ rest)
     = argSplit_loop args (arg @ a) False False rest"
proof (induction a arbitrary: arg)
  case (Cons c a)
  then show ?case by (auto simp: escape_arg_def special_def)
qed (simp add: escape_arg_def)

lemma argSplit_loop_quoted:
  assumes "\<And>c. c \<in> set a \<Longrightarrow> c \<noteq> CHR 0x22 \<and> c \<noteq> CHR 0x5C"
  shows "argSplit_loop args arg True False (a @ rest) = argSplit_loop args (arg @ a) True False rest"
  using assms by (induction a arbitrary: arg) auto

lemma argSplit_loop_plain:
  assumes "\<And>c. c \<in> set a \<Longrightarrow> \<not> special c"
  shows "argSplit_loop args arg False False (a @ rest) = argSplit_loop args (arg @ a) False False rest"
  using assms by (induction a arbitrary: arg) (auto simp: special_def)

lemma argSplit_loop_space:
  "arg \<noteq> [] \<Longrightarrow> argSplit_loop args arg False False (CHR '' '' # rest)
                = argSplit_loop (args @ [arg]) [] False False rest"
  by simp

lemma argSplit_loop_escaped_all:
  assumes "\<And>w. w \<in> set ws \<Longrightarrow> w \<noteq> []"
  shows "argSplit_loop args [] False False (Join (map escape_arg ws) '' '') = args @ ws"
  using assms
proof (induction ws arbitrary: args)
  case (Cons w ws)
  show ?case
  proof (cases "ws = []")
    case True
    with Cons.prems show ?thesis
      using argSplit_loop_escaped [of args "[]" w "[]"] by simp
  next
    case False
    with Cons have "argSplit_loop (args @ [w]) [] False False (Join (map escape_arg ws) '' '')
        = (args @ [w]) @ ws" by simp
    with False Cons.prems show ?thesis
      by (simp add: Join_Cons argSplit_loop_escaped)
  qed
qed simp

text \<open>Splitting a command line gives back exactly the words it was built from, when each is
  non-empty and its spaces, quotes and backslashes are escaped.\<close>

theorem argSplit_roundtrip:
  assumes "[] \<notin> set ws"
  shows "argSplit (Join (map escape_arg ws) '' '') = ws"
  using argSplit_loop_escaped_all [of ws "[]"] assms by (auto simp: argSplit_def)

theorem argSplit_roundtrip_witness:
  "argSplit (Join (map escape_arg [''a b'', [CHR 0x22, CHR 0x5C]]) '' '')
     = [''a b'', [CHR 0x22, CHR 0x5C]]"
  by (rule argSplit_roundtrip) simp

subsection \<open>Fetching a cloud repository\<close>

definition oFile :: string where "oFile = ''output.tar.gz''"

definition getToken :: string where
  "getToken = ''curl '' @ [CHR 0x22]
     @ ''http://metadata/computeMetadata/v1/instance/service-accounts/default/token'' @ [CHR 0x22]
     @ '' -H '' @ [CHR 0x22] @ ''X-Google-Metadata-Request: True'' @ [CHR 0x22]"

definition getFiles :: "string \<Rightarrow> string \<Rightarrow> string \<Rightarrow> string" where
  "getFiles token project revision = ''curl -o output.tar.gz -H '' @ [CHR 0x22]
     @ ''Authorization: Bearer '' @ token @ [CHR 0x22]
     @ '' https://source.developers.google.com/p/'' @ project @ ''/archive/'' @ revision @ ''.tar.gz''"

definition unzipFiles :: string where "unzipFiles = ''tar xzf '' @ oFile"

text \<open>\<open>run\<close> returns what the command wrote to its standard output, and its error.\<close>

definition run :: "'w os \<Rightarrow> string \<Rightarrow> 'w \<Rightarrow> ((string \<times> exec_error option) \<times> 'w) go" where
  "run os arg w =
     (case argSplit arg of
        [] \<Rightarrow> Panic ''index out of range''
      | cmd # args \<Rightarrow> (case Exec os (cmd # args) w of (r, w') \<Rightarrow> Ret ((xr_stdout r, xr_err r), w')))"

text \<open>\<open>json\<close> stands for \<open>json.Unmarshal\<close> into an \<open>AccessToken\<close>: its \<open>access_token\<close>.\<close>

definition getAccessToken ::
  "'w os \<Rightarrow> (string \<Rightarrow> string + string) \<Rightarrow> 'w \<Rightarrow> ((string + string) \<times> 'w) go" where
  "getAccessToken os json w =
     go_bind (run os getToken w) (\<lambda>((tokenJSON, err), w1).
       case err of
         Some e \<Rightarrow> Ret (Inl (''error getting token: '' @ exec_error_text e), w1)
       | None \<Rightarrow> (case json tokenJSON of
                   Inl e \<Rightarrow> Ret (Inl (''Could not unmarshal token: '' @ e), w1)
                 | Inr t \<Rightarrow> Ret (Inr t, w1)))"

definition copyRepo ::
  "'w os \<Rightarrow> string \<Rightarrow> string \<Rightarrow> string \<Rightarrow> string \<Rightarrow> 'w \<Rightarrow> ((string + string) \<times> 'w) go" where
  "copyRepo os token project revision workspace w =
     (case TempDir os workspace ''shipshape'' w of
        (Inl err, w1) \<Rightarrow> Ret (Inl (''Could not create tmpdir: '' @ err), w1)
      | (Inr rdir, w1) \<Rightarrow>
     (case Chdir os rdir w1 of
        (Some err, w2) \<Rightarrow> Ret (Inl (''Could not change directory: '' @ err), w2)
      | (None, w2) \<Rightarrow>
     go_bind (run os (getFiles token project revision) w2) (\<lambda>((_, err), w3).
       case err of Some e \<Rightarrow> Ret (Inl (''Could not get files: '' @ exec_error_text e), w3)
       | None \<Rightarrow>
     go_bind (run os unzipFiles w3) (\<lambda>((_, err), w4).
       case err of Some e \<Rightarrow> Ret (Inl (''Could not unzip files: '' @ exec_error_text e), w4)
       | None \<Rightarrow>
     (case RemoveFile os oFile w4 of
        (Some err, w5) \<Rightarrow> Ret (Inl (''Could not remove file: '' @ err), w5)
      | (None, w5) \<Rightarrow>
     (case ReadDir os ''./'' w5 of
        Inl err \<Rightarrow> Ret (Inl (''Could not read directory: '' @ err), w5)
      | Inr files \<Rightarrow>
          if length files > 1
          then Ret (Inl ''More than one top level dir for copied over repo'', w5)
          else if length files = 0 then Ret (Inl ''No repo'', w5)
          else (case Getwd os w5 of
                  Inl err \<Rightarrow> Ret (Inl err, w5)
                | Inr wd \<Rightarrow> Ret (Inr (Abs wd (hd files)), w5))))))))"

definition localRoot ::
  "'w os \<Rightarrow> (string \<Rightarrow> string + string) \<Rightarrow> string \<Rightarrow> string \<Rightarrow> string \<Rightarrow> 'w
     \<Rightarrow> ((string + string) \<times> 'w) go" where
  "localRoot os json project revision workspace w =
     go_bind (getAccessToken os json w) (\<lambda>(token, w1).
       case token of Inl err \<Rightarrow> Ret (Inl err, w1)
       | Inr t \<Rightarrow> copyRepo os t project revision workspace w1)"

definition CopyCloudRepo ::
  "'w os \<Rightarrow> (string \<Rightarrow> string + string) \<Rightarrow> string \<Rightarrow> string \<Rightarrow> string \<Rightarrow> 'w
     \<Rightarrow> ((string + string) \<times> 'w) go" where
  "CopyCloudRepo os json project revision workspace w = localRoot os json project revision workspace w"

text \<open>\<open>strings.Replace(s, old, new, 1)\<close>: the first occurrence of \<open>old\<close>.\<close>

fun Replace1 :: "string \<Rightarrow> string \<Rightarrow> string \<Rightarrow> string" where
  "Replace1 [] old new = (if old = [] then new else [])"
| "Replace1 (c # s) old new =
     (if HasPrefix (c # s) old then new @ drop (length old) (c # s) else c # Replace1 s old new)"

definition SetupCloudRepo ::
  "'w os \<Rightarrow> (string \<Rightarrow> string + string) \<Rightarrow> string \<Rightarrow> string \<Rightarrow> string \<Rightarrow> string \<Rightarrow> 'w
     \<Rightarrow> ((SourceContext option \<times> string \<times> string option) \<times> 'w) go" where
  "SetupCloudRepo os json project revision localRepoBase volumeRepoBase w =
     (if project = [] \<or> revision = []
      then Ret ((None, [], Some (''Missing project name or revison needed to copy Cloud repo, project: ''
                  @ project @ '', revision: '' @ revision)), w)
      else
        let sourceContext =
              \<lparr>sc_cloud_repo =
                 Some \<lparr>cr_repo_id =
                         Some \<lparr>ri_project_repo_id =
                                 Some \<lparr>pr_project_id = Some project, pr_repo_name = None\<rparr>,
                               ri_uid = None\<rparr>,
                       cr_revision_id = Some revision, cr_alias_name = None\<rparr>,
               sc_cloud_workspace = None, sc_gerrit = None\<rparr>
        in go_bind (CopyCloudRepo os json project revision localRepoBase w) (\<lambda>(repo, w1).
             case repo of
               Inl err \<Rightarrow> Ret ((Some sourceContext, [], Some (''Could not copy down Cloud repo: '' @ err)), w1)
             | Inr r \<Rightarrow> Ret ((Some sourceContext, Replace1 r localRepoBase volumeRepoBase, None), w1)))"

text \<open>A word fit for a command line as it is, and one fit for the inside of quotes.\<close>

definition plain_word :: "string \<Rightarrow> bool" where
  "plain_word a \<longleftrightarrow> list_all (\<lambda>c. \<not> special c) a"

definition quotable :: "string \<Rightarrow> bool" where
  "quotable a \<longleftrightarrow> list_all (\<lambda>c. c \<noteq> CHR 0x22 \<and> c \<noteq> CHR 0x5C) a"

text \<open>The \<open>curl\<close> line that fetches the archive splits into exactly six arguments, with the
  token inside the header and the project and revision inside the address, for every token
  without quotes or backslashes and every project and revision without special bytes.\<close>

theorem argSplit_getFiles:
  assumes "quotable token" "plain_word project" "plain_word revision"
  shows "argSplit (getFiles token project revision) =
    [''curl'', ''-o'', ''output.tar.gz'', ''-H'', ''Authorization: Bearer '' @ token,
     ''https://source.developers.google.com/p/'' @ project @ ''/archive/'' @ revision @ ''.tar.gz'']"
proof -
  have q: "argSplit_loop args arg True False (token @ rest) = argSplit_loop args (arg @ token) True False rest"
    for args arg rest
    using assms(1) by (intro argSplit_loop_quoted) (auto simp: quotable_def list_all_iff)
  have p: "argSplit_loop args arg False False (w @ rest) = argSplit_loop args (arg @ w) False False rest"
    if "plain_word w" for args arg w rest
    using that by (intro argSplit_loop_plain) (auto simp: plain_word_def list_all_iff)
  show ?thesis
    by (simp add: argSplit_def getFiles_def q p assms(2,3))
qed

theorem argSplit_getFiles_witness:
  "argSplit (getFiles ''t0k'' ''proj'' ''master'') ! 4 = ''Authorization: Bearer t0k''
   \<and> length (argSplit (getFiles ''t0k'' ''proj'' ''master'')) = 6"
proof -
  have "quotable ''t0k''" "plain_word ''proj''" "plain_word ''master''"
    by (simp_all add: quotable_def plain_word_def special_def)
  from argSplit_getFiles [OF this] show ?thesis by simp
qed

end
