(* ===== verification/TestUtil.thy ===== *)
theory TestUtil
  imports Messages FileUtil Endpoint "HOL-Library.Multiset"
begin

text \<open>
  \<open>shipshape/util/test/test_util.go\<close>: what the tests of the analyzers use to compare notes and
  failures with the expected ones.
\<close>

subsection \<open>Matching\<close>

definition match_text :: "string option \<Rightarrow> string option \<Rightarrow> bool go" where
  "match_text expect actual = go_bind (deref actual) (\<lambda>a. go_bind (deref expect) (\<lambda>e. Ret (ContainsSub a e)))"

text \<open>A location is only compared when the expected note has one; a missing actual path is
  dereferenced.\<close>

definition match_location :: "Location option \<Rightarrow> Location option \<Rightarrow> bool go" where
  "match_location expect actual = (case expect of
     None \<Rightarrow> Ret True
   | Some el \<Rightarrow> (case actual of
       None \<Rightarrow> Ret False
     | Some al \<Rightarrow> (case loc_path el of
         None \<Rightarrow> Ret True
       | Some ep \<Rightarrow> go_bind (deref (loc_path al)) (\<lambda>ap. Ret (ep = ap)))))"

definition Match :: "Note \<Rightarrow> Note \<Rightarrow> bool go" where
  "Match expect actual =
     (case n_category actual of
        None \<Rightarrow> Ret False
      | Some ac \<Rightarrow> go_bind (deref (n_category expect)) (\<lambda>ec.
          if ec \<noteq> ac then Ret False
          else if n_subcategory expect = None \<and> n_subcategory actual \<noteq> None then Ret False
          else if n_subcategory expect \<noteq> None
                  \<and> (n_subcategory actual = None \<or> n_subcategory expect \<noteq> n_subcategory actual) then Ret False
          else go_bind (match_location (n_location expect) (n_location actual)) (\<lambda>ok.
               if \<not> ok then Ret False else match_text (n_description expect) (n_description actual))))"

definition MatchFailure :: "AnalysisFailure \<Rightarrow> AnalysisFailure \<Rightarrow> bool go" where
  "MatchFailure expect actual =
     (case f_category actual of
        None \<Rightarrow> Ret False
      | Some ac \<Rightarrow> go_bind (deref (f_category expect)) (\<lambda>ec.
          if ec \<noteq> ac then Ret False else match_text (f_message expect) (f_message actual)))"

subsection \<open>Checking\<close>

text \<open>The inner loop: the elements left when the first match is taken out, or none.\<close>

fun take_match :: "('a \<Rightarrow> 'b \<Rightarrow> bool go) \<Rightarrow> 'a \<Rightarrow> 'b list \<Rightarrow> 'b list option go" where
  "take_match m expect [] = Ret None"
| "take_match m expect (act # acts) =
     go_bind (m expect act) (\<lambda>ok. if ok then Ret (Some acts)
       else go_bind (take_match m expect acts) (\<lambda>r. Ret (map_option ((#) act) r)))"

fun match_all :: "('a \<Rightarrow> 'b \<Rightarrow> bool go) \<Rightarrow> 'a list \<Rightarrow> 'b list \<Rightarrow> 'a list \<Rightarrow> ('a list \<times> 'b list) go" where
  "match_all m [] remaining unmatched = Ret (unmatched, remaining)"
| "match_all m (expect # expected) remaining unmatched =
     go_bind (take_match m expect remaining) (\<lambda>r. case r of
         Some rest \<Rightarrow> match_all m expected rest unmatched
       | None \<Rightarrow> match_all m expected remaining (unmatched @ [expect]))"

text \<open>The result with the unmatched notes on both sides, which the message lists.\<close>

definition check_content :: "('a \<Rightarrow> 'b \<Rightarrow> bool go) \<Rightarrow> 'a list \<Rightarrow> 'b list \<Rightarrow> (bool \<times> 'a list \<times> 'b list) go" where
  "check_content m expected actual = go_bind (match_all m expected actual []) (\<lambda>(unmatched, remaining).
     Ret (length unmatched = 0 \<and> length remaining = 0, unmatched, remaining))"

definition CheckNoteContainsContent :: "Note list \<Rightarrow> Note list \<Rightarrow> (bool \<times> Note list \<times> Note list) go" where
  "CheckNoteContainsContent expected actual = check_content Match expected actual"

definition CheckFailureContainsContent ::
  "AnalysisFailure list \<Rightarrow> AnalysisFailure list \<Rightarrow> (bool \<times> AnalysisFailure list \<times> AnalysisFailure list) go" where
  "CheckFailureContainsContent expected actual = check_content MatchFailure expected actual"

subsection \<open>Running an analyzer in a test\<close>

definition CreateContext :: "string \<Rightarrow> string list \<Rightarrow> ShipshapeContext" where
  "CreateContext testDir filepaths = empty_context\<lparr>ctx_file_path := filepaths, ctx_repo_root := Some testDir\<rparr>"

definition CreateLocation :: "string \<Rightarrow> Location" where
  "CreateLocation path = empty_location\<lparr>loc_path := Some path\<rparr>"

definition ChangeIntoTestDir :: "'w os \<Rightarrow> string \<Rightarrow> 'w \<Rightarrow> (string + string) \<times> 'w" where
  "ChangeIntoTestDir os testDir w = (case Getwd os w of
     Inl err \<Rightarrow> (Inl err, w)
   | Inr oDir \<Rightarrow> (case Chdir os testDir w of
       (Some err, w1) \<Rightarrow> (Inl err, w1) | (None, w1) \<Rightarrow> (Inr oDir, w1)))"

text \<open>A fatal error of the test is \<open>Inl\<close>.\<close>

definition RunAnalyzer ::
  "'w os \<Rightarrow> ShipshapeContext \<Rightarrow> (ShipshapeContext \<Rightarrow> 'w \<Rightarrow> ('r \<times> 'w) go) \<Rightarrow> 'w \<Rightarrow> ((string + 'r) \<times> 'w) go" where
  "RunAnalyzer os ctx analyze w = (case Getwd os w of
     Inl err \<Rightarrow> Ret (Inl (''Could not get the current directory: '' @ err), w)
   | Inr oDir \<Rightarrow> go_bind (deref (ctx_repo_root ctx)) (\<lambda>root. case Chdir os root w of
       (Some err, w1) \<Rightarrow> Ret (Inl (''Could not change into test directory '' @ root @ '': '' @ err), w1)
     | (None, w1) \<Rightarrow> go_bind (analyze ctx w1) (\<lambda>(r, w2). Ret (Inr r, snd (Chdir os oDir w2)))))"

subsection \<open>One-to-one mappings\<close>

definition matched :: "('a \<Rightarrow> 'b \<Rightarrow> bool go) \<Rightarrow> 'a list \<Rightarrow> 'b list \<Rightarrow> bool" where
  "matched m expected actual \<longleftrightarrow>
     (\<exists>ps. mset ps = mset actual \<and> list_all2 (\<lambda>e a. m e a = Ret True) expected ps)"

definition no_panic :: "('a \<Rightarrow> 'b \<Rightarrow> bool go) \<Rightarrow> 'a list \<Rightarrow> 'b list \<Rightarrow> bool" where
  "no_panic m expected actual \<longleftrightarrow> (\<forall>e \<in> set expected. \<forall>a \<in> set actual. \<not> panics (m e a))"

lemma take_match_Some:
  assumes "take_match m e acts = Ret (Some rest)"
  shows "\<exists>a. m e a = Ret True \<and> mset acts = add_mset a (mset rest)"
  using assms
proof (induction acts arbitrary: rest)
  case (Cons a acts)
  then show ?case
    by (cases "m e a = Ret True") (fastforce simp: go_bind_Ret_iff split: if_splits)+
qed simp

lemma take_match_None:
  "take_match m e acts = Ret None \<Longrightarrow> \<forall>a \<in> set acts. m e a = Ret False"
  by (induction acts) (auto simp: go_bind_Ret_iff split: if_splits)

lemma take_match_returns: "no_panic m [e] acts \<Longrightarrow> \<exists>r. take_match m e acts = Ret r"
proof (induction acts)
  case (Cons a acts)
  then obtain b r where "m e a = Ret b" "take_match m e acts = Ret r"
    using not_panics [of "m e a"] by (auto simp: no_panic_def)
  then show ?case by simp
qed simp

lemma match_all_sound:
  assumes "match_all m es acts us = Ret (us', rest)"
  shows "\<exists>out. us' = us @ out \<and> (out = [] \<longrightarrow> (\<exists>ps. mset acts = mset ps + mset rest
     \<and> list_all2 (\<lambda>e a. m e a = Ret True) es ps))"
  using assms
proof (induction es arbitrary: acts us)
  case (Cons e es)
  obtain r where t: "take_match m e acts = Ret r" using Cons.prems by (auto simp: go_bind_Ret_iff)
  show ?case
  proof (cases r)
    case None
    with Cons.prems t have "match_all m es acts (us @ [e]) = Ret (us', rest)" by simp
    from Cons.IH [OF this] show ?thesis by auto
  next
    case (Some acts')
    with Cons.prems t have c: "match_all m es acts' us = Ret (us', rest)" by simp
    obtain a where a: "m e a = Ret True" "mset acts = add_mset a (mset acts')"
      using take_match_Some t Some by metis
    from Cons.IH [OF c] obtain out where out: "us' = us @ out"
      "out = [] \<longrightarrow> (\<exists>ps. mset acts' = mset ps + mset rest \<and> list_all2 (\<lambda>e a. m e a = Ret True) es ps)" by blast
    have "\<exists>ps. mset acts = mset ps + mset rest \<and> list_all2 (\<lambda>e a. m e a = Ret True) (e # es) ps" if o: "out = []"
    proof -
      obtain ps where "mset acts' = mset ps + mset rest" "list_all2 (\<lambda>e a. m e a = Ret True) es ps"
        using out(2) o by blast
      then show ?thesis using a by (intro exI [of _ "a # ps"]) simp
    qed
    then show ?thesis using out(1) by blast
  qed
qed simp

lemma no_panic_mono: "no_panic m es acts \<Longrightarrow> set fs \<subseteq> set es \<Longrightarrow> set bs \<subseteq> set acts \<Longrightarrow> no_panic m fs bs"
  by (auto simp: no_panic_def)

lemma match_all_returns: "no_panic m es acts \<Longrightarrow> \<exists>r. match_all m es acts us = Ret r"
proof (induction es arbitrary: acts us)
  case (Cons e es)
  obtain r where r: "take_match m e acts = Ret r"
    using take_match_returns [OF no_panic_mono [OF Cons.prems, of "[e]" acts]] by auto
  show ?case
  proof (cases r)
    case (Some rest)
    with r obtain a where "mset acts = add_mset a (mset rest)" using take_match_Some by metis
    then have "set rest \<subseteq> set acts" by (metis set_mset_mset set_mset_add_mset_insert subset_insertI)
    then have "no_panic m es rest" using no_panic_mono [OF Cons.prems] by auto
    then show ?thesis using Cons.IH r Some by simp
  next
    case None
    have "no_panic m es acts" using no_panic_mono [OF Cons.prems] by auto
    then show ?thesis using Cons.IH r None by simp
  qed
qed simp

text \<open>Greedy matching finds a one-to-one mapping when two expected elements that share a match share
  all of them.\<close>

definition shares_all :: "('a \<Rightarrow> 'b \<Rightarrow> bool go) \<Rightarrow> 'a list \<Rightarrow> 'b list \<Rightarrow> bool" where
  "shares_all m expected actual \<longleftrightarrow> (\<forall>e \<in> set expected. \<forall>e' \<in> set expected. \<forall>a \<in> set actual. \<forall>b \<in> set actual.
     m e a = Ret True \<longrightarrow> m e' a = Ret True \<longrightarrow> m e b = Ret True \<longrightarrow> m e' b = Ret True)"

lemma matched_swap:
  assumes "shares_all m (e # es) acts" "matched m (e # es) acts" "m e a = Ret True" "mset acts = add_mset a (mset rest)"
  shows "matched m es rest"
proof -
  obtain p ps where ps: "mset (p # ps) = mset acts" "m e p = Ret True" "list_all2 (\<lambda>e a. m e a = Ret True) es ps"
    using assms(2) by (auto simp: matched_def list_all2_Cons1)
  have acts: "set acts = insert a (set rest)" "set acts = insert p (set ps)"
    using assms(4) ps(1) by (metis set_mset_mset set_mset_add_mset_insert, metis list.simps(15) set_mset_mset)
  show ?thesis
  proof (cases "a = p")
    case True
    then show ?thesis using ps assms(4) by (auto simp: matched_def)
  next
    case False
    then obtain j where j: "j < length ps" "ps ! j = a" using acts by (metis in_set_conv_nth insertE insertI1)
    let ?qs = "ps[j := p]"
    have len: "length es = length ps" using ps(3) by (rule list_all2_lengthD)
    have "m (es ! j) a = Ret True" using list_all2_nthD2 [OF ps(3) j(1)] j(2) by simp
    moreover have "es ! j \<in> set (e # es)" using j(1) len by simp
    moreover have "e \<in> set (e # es)" "a \<in> set acts" "p \<in> set acts" using acts by auto
    ultimately have "m (es ! j) p = Ret True"
      using assms(1,3) ps(2) unfolding shares_all_def by blast
    then have "list_all2 (\<lambda>e a. m e a = Ret True) es ?qs"
      using ps(3) j(1) by (auto simp: list_all2_conv_all_nth nth_list_update)
    moreover have "mset ?qs = mset rest"
    proof -
      have "mset rest = mset acts - {#a#}" using assms(4) by simp
      also have "\<dots> = add_mset p (mset ps) - {#a#}" using ps(1) by simp
      also have "\<dots> = add_mset p (mset ps - {#a#})" using False by simp
      finally show ?thesis using j by (simp add: mset_update)
    qed
    ultimately show ?thesis by (auto simp: matched_def)
  qed
qed

lemma match_all_complete:
  assumes "shares_all m es acts" "no_panic m es acts" "matched m es acts"
  shows "match_all m es acts us = Ret (us, [])"
  using assms
proof (induction es arbitrary: acts)
  case Nil
  then show ?case by (simp add: matched_def)
next
  case (Cons e es)
  obtain p ps where ps: "mset (p # ps) = mset acts" "m e p = Ret True"
    using Cons.prems(3) by (auto simp: matched_def list_all2_Cons1)
  have p: "p \<in> set acts" using ps(1) by (metis list.set_intros(1) set_mset_mset)
  obtain r where r: "take_match m e acts = Ret r"
    using take_match_returns [OF no_panic_mono [OF Cons.prems(2), of "[e]" acts]] by auto
  then obtain rest where rest: "r = Some rest"
    using take_match_None [of m e acts] p ps(2) by (cases r) auto
  obtain a where a: "m e a = Ret True" "mset acts = add_mset a (mset rest)"
    using take_match_Some r rest by metis
  then have sub: "set rest \<subseteq> set acts" by (metis set_mset_mset set_mset_add_mset_insert subset_insertI)
  have "shares_all m es rest" using Cons.prems(1) sub unfolding shares_all_def by (meson list.set_intros(2) subsetD)
  moreover have "no_panic m es rest" using no_panic_mono [OF Cons.prems(2) _ sub] by auto
  moreover have "matched m es rest" using matched_swap [OF Cons.prems(1,3) a] .
  ultimately show ?case using Cons.IH r rest by simp
qed

text \<open>Where no comparison panics and expected notes that share a match share all of them, as
  notes with different descriptions for different places do, the check tells exactly whether the
  actual notes can be paired off with the expected ones.\<close>

theorem CheckNoteContainsContent_iff:
  assumes "no_panic Match expected actual" "shares_all Match expected actual"
  shows "\<exists>ok unmatched. CheckNoteContainsContent expected actual = Ret (ok, unmatched)
    \<and> (ok \<longleftrightarrow> matched Match expected actual)"
proof -
  obtain us rest where r: "match_all Match expected actual [] = Ret (us, rest)"
    using match_all_returns [OF assms(1)] by fastforce
  have "matched Match expected actual" if "us = []" "rest = []"
    using match_all_sound [OF r] that by (auto simp: matched_def)
  moreover have "us = [] \<and> rest = []" if "matched Match expected actual"
    using match_all_complete [OF assms(2,1) that, of "[]"] r by simp
  ultimately show ?thesis
    by (auto simp: CheckNoteContainsContent_def check_content_def r)
qed

definition told :: "string \<Rightarrow> Note" where
  "told description = empty_note\<lparr>n_category := Some ''go vet'', n_description := Some description\<rparr>"

theorem CheckNoteContainsContent_iff_witness:
  "\<exists>unmatched. CheckNoteContainsContent [told ''unused'', told ''printf''] [told ''bad printf verb'', told ''unused x'']
     = Ret (True, unmatched)"
proof -
  have m: "Match (told e) (told a) = Ret (ContainsSub a e)" for e a
    by (simp add: Match_def told_def empty_note_def match_location_def match_text_def)
  let ?es = "[told ''unused'', told ''printf'']" and ?as = "[told ''bad printf verb'', told ''unused x'']"
  have c: "ContainsSub ''unused x'' ''unused''" "\<not> ContainsSub ''unused x'' ''printf''"
    "ContainsSub ''bad printf verb'' ''printf''" "\<not> ContainsSub ''bad printf verb'' ''unused''"
    by code_simp+
  have "no_panic Match ?es ?as" "shares_all Match ?es ?as" by (auto simp: no_panic_def shares_all_def m c simp del: ContainsSub.simps)
  moreover have "matched Match ?es ?as"
    unfolding matched_def by (intro exI [of _ "[told ''unused x'', told ''bad printf verb'']"]) (simp add: m c del: ContainsSub.simps)
  ultimately show ?thesis using CheckNoteContainsContent_iff [of ?es ?as] by auto
qed

text \<open>A one-to-one mapping can be missed: the first expected note takes the only match of the second.\<close>

lemma greedy_misses:
  "matched Match [told ''a'', told ''ab''] [told ''ab'', told ''ac'']"
  "\<exists>unmatched. CheckNoteContainsContent [told ''a'', told ''ab''] [told ''ab'', told ''ac''] = Ret (False, unmatched)"
proof -
  have m: "Match (told e) (told a) = Ret (ContainsSub a e)" for e a
    by (simp add: Match_def told_def empty_note_def match_location_def match_text_def)
  have c: "ContainsSub ''ab'' ''a''" "ContainsSub ''ab'' ''ab''" "ContainsSub ''ac'' ''a''" "\<not> ContainsSub ''ac'' ''ab''"
    by code_simp+
  show "matched Match [told ''a'', told ''ab''] [told ''ab'', told ''ac'']"
    unfolding matched_def by (intro exI [of _ "[told ''ac'', told ''ab'']"]) (simp add: m c del: ContainsSub.simps)
  show "\<exists>unmatched. CheckNoteContainsContent [told ''a'', told ''ab''] [told ''ab'', told ''ac''] = Ret (False, unmatched)"
    by (simp add: CheckNoteContainsContent_def check_content_def m c del: ContainsSub.simps)
qed

subsection \<open>A server for tests\<close>

text \<open>The endpoint that \<open>httptest\<close> serves, or why the dispatcher could not be registered.  Closing the
  server is left out.\<close>

definition CreatekRPCTestServer :: "('i, 'w) handler \<Rightarrow> string \<Rightarrow> string + ('i, 'w) Endpoint" where
  "CreatekRPCTestServer dispatcher name =
     (case Register \<lparr>s_Name = name, s_Methods = []\<rparr> dispatcher of
        (Some err, _) \<Rightarrow> Inl err
      | (None, kRPCServer) \<Rightarrow> Inr [kRPCServer])"

text \<open>It serves exactly the methods of the dispatcher that registration accepts.\<close>

lemma test_server_methods:
  assumes "CreatekRPCTestServer dispatcher name = Inr e" "name \<noteq> []"
  shows "Resolve e name n = (case first_such (\<lambda>m. m_Name m = n) (snd (checkInterface dispatcher)) of
      None \<Rightarrow> Inl ''no such method'' | Some m \<Rightarrow> Inr m)"
proof -
  obtain service ms where c: "checkInterface dispatcher = (service, ms)" by fastforce
  then have "e = [\<lparr>s_Name = name, s_Methods = ms\<rparr>]"
    using assms by (auto simp: CreatekRPCTestServer_def Register_def Let_def split: if_splits option.splits)
  then show ?thesis by (simp add: Resolve_def Service_Method_def c)
qed

end
