(* ===== verification/Analyzers.thy ===== *)
theory Analyzers
  imports Osys Messages
begin

text \<open>
  The analyzers of \<open>shipshape/analyzers\<close> that the Go dispatcher serves: \<open>go vet\<close>,
  \<open>JSHint\<close>, \<open>PyLint\<close>, \<open>WordCount\<close>, \<open>CodeAlert\<close> and \<open>PostMessage\<close>.  Each
  returns the notes it found and an optional error, and can return both.

  An analyzer is an \<open>api.Analyzer\<close>: its category and its \<open>Analyze\<close> method.  The tools run
  through the operating system of \<open>Osys\<close>; the combined output is the text a tool writes to its
  two streams, in the order it arrives.
\<close>

type_synonym analysis = "Note list \<times> string option"

record 'w analyzer =
  an_Category :: string
  an_Analyze :: "ShipshapeContext \<Rightarrow> 'w \<Rightarrow> (analysis \<times> 'w) go"

subsection \<open>Shared pieces\<close>

text \<open>The text of the error of \<open>strconv.ParseInt\<close>.\<close>

fun parse_int_error_text :: "parse_int_error \<Rightarrow> string" where
  "parse_int_error_text (ErrSyntax s) = ''strconv.ParseInt: parsing '' @ Quote s @ '': invalid syntax''"
| "parse_int_error_text (ErrRange s) = ''strconv.ParseInt: parsing '' @ Quote s @ '': value out of range''"

text \<open>
  The regular expressions of \<open>go vet\<close> and \<open>JSHint\<close> have the shape \<open>([^:]*):tail\<close>, and
  are searched for anywhere in a line.  The first group ends at a colon; when the tail does not
  match there, no start before that colon matches, so the search goes on behind it.
\<close>

function find_at_colon :: "(string \<Rightarrow> 'a option) \<Rightarrow> string \<Rightarrow> (string \<times> 'a) option" where
  "find_at_colon tail s =
     (case dropWhile (\<lambda>c. c \<noteq> CHR '':'') s of
        [] \<Rightarrow> None
      | _ # r \<Rightarrow> (case tail r of
                    Some x \<Rightarrow> Some (takeWhile (\<lambda>c. c \<noteq> CHR '':'') s, x)
                  | None \<Rightarrow> find_at_colon tail r))"
  by pat_completeness auto
termination
proof (relation "measure (\<lambda>(tail, s). length s)", simp)
  fix tail :: "string \<Rightarrow> 'a option" and s x r
  assume "dropWhile (\<lambda>c. c \<noteq> CHR '':'') s = x # r"
  then have "length (x # r) \<le> length s" by (metis length_dropWhile_le)
  then show "((tail, r), (tail, s)) \<in> measure (\<lambda>(tail, s). length s)" by simp
qed

declare find_at_colon.simps [simp del]

definition digits_prefix :: "string \<Rightarrow> (string \<times> string) option" where
  "digits_prefix s = (let d = takeWhile is_digit s
                      in if d = [] then None else Some (d, dropWhile is_digit s))"

definition skip_prefix :: "string \<Rightarrow> string \<Rightarrow> string option" where
  "skip_prefix p s = (if HasPrefix s p then Some (drop (length p) s) else None)"

subsection \<open>go vet\<close>

definition govet_category :: string where "govet_category = ''go vet''"
definition govet_exitStatus :: string where "govet_exitStatus = ''exit status 1''"

definition isGoFile :: "string \<Rightarrow> bool" where
  "isGoFile path \<longleftrightarrow> Ext path = ''.go''"

text \<open>\<open>([^:]*):([0-9]+): (.*)\<close>: the file, the line number and the description.\<close>

definition govet_issueRE :: "string \<Rightarrow> (string \<times> string \<times> string) option" where
  "govet_issueRE issue = find_at_colon (\<lambda>r. case digits_prefix r of
       None \<Rightarrow> None
     | Some (n, r1) \<Rightarrow> (case skip_prefix '': '' r1 of None \<Rightarrow> None | Some d \<Rightarrow> Some (n, d))) issue"

fun govet_issues :: "ShipshapeContext \<Rightarrow> string list \<Rightarrow> Note list \<Rightarrow> analysis" where
  "govet_issues ctx [] notes = (notes, None)"
| "govet_issues ctx (issue # issues) notes =
     (case govet_issueRE issue of
        None \<Rightarrow> (notes, Some (''`go vet` gave incorrectly formatted issue: '' @ Quote issue))
      | Some (filename, num, description) \<Rightarrow>
          (case ParseInt32 num of
             Inl err \<Rightarrow> (notes, Some (parse_int_error_text err))
           | Inr line \<Rightarrow> govet_issues ctx issues
               (notes @ [empty_note\<lparr>n_category := Some govet_category, n_description := Some description,
                  n_location := Some \<lparr>loc_source_context = ctx_source_context ctx,
                                      loc_path = Some filename,
                                      loc_range = Some (empty_range\<lparr>tr_start_line := Some (word_of_int line)\<rparr>)\<rparr>\<rparr>])))"

definition govet_analyzeOneFile ::
  "'w os \<Rightarrow> ShipshapeContext \<Rightarrow> string \<Rightarrow> 'w \<Rightarrow> analysis \<times> 'w" where
  "govet_analyzeOneFile os ctx path w =
     (case CombinedOutput os [''go'', ''vet'', path] w of ((buf, err), w1) \<Rightarrow>
        ((case err of
            None \<Rightarrow> ([], None)
          | Some (ExitError e) \<Rightarrow>
              if e \<noteq> govet_exitStatus then ([], Some (e @ '': '' @ Quote buf))
              else let issues = lines_of buf
                   in if length issues < 3
                      then ([], Some (''did not get correct output from `go vet`, output was: '' @ buf))
                      else govet_issues ctx (take (length issues - 2) issues) []
          | Some e \<Rightarrow> ([], Some (exec_error_text e))), w1))"

fun govet_files ::
  "'w os \<Rightarrow> ShipshapeContext \<Rightarrow> string list \<Rightarrow> Note list \<Rightarrow> 'w \<Rightarrow> analysis \<times> 'w" where
  "govet_files os ctx [] notes w = ((notes, None), w)"
| "govet_files os ctx (path # paths) notes w =
     (if \<not> isGoFile path then govet_files os ctx paths notes w
      else case govet_analyzeOneFile os ctx path w of ((ourNotes, err), w1) \<Rightarrow>
        (case err of
           Some e \<Rightarrow> ((notes @ ourNotes, Some e), w1)
         | None \<Rightarrow> govet_files os ctx paths (notes @ ourNotes) w1))"

definition GoVetAnalyzer :: "'w os \<Rightarrow> 'w analyzer" where
  "GoVetAnalyzer os = \<lparr>an_Category = govet_category,
     an_Analyze = (\<lambda>ctx w. Ret (govet_files os ctx (ctx_file_path ctx) [] w))\<rparr>"

subsection \<open>JSHint\<close>

definition jshint_category :: string where "jshint_category = ''JSHint''"
definition jshint_exitStatus :: string where "jshint_exitStatus = ''exit status 2''"

definition isJSHintFile :: "string \<Rightarrow> bool" where
  "isJSHintFile path \<longleftrightarrow> Ext path = ''.js''"

text \<open>\<open>([^:]*): line ([0-9]+), col ([0-9]+), (.*)\<close>.\<close>

definition jshint_issueRE :: "string \<Rightarrow> (string \<times> string \<times> string \<times> string) option" where
  "jshint_issueRE issue = find_at_colon (\<lambda>r. case skip_prefix '' line '' r of
       None \<Rightarrow> None
     | Some r1 \<Rightarrow> (case digits_prefix r1 of
         None \<Rightarrow> None
       | Some (l, r2) \<Rightarrow> (case skip_prefix '', col '' r2 of
           None \<Rightarrow> None
         | Some r3 \<Rightarrow> (case digits_prefix r3 of
             None \<Rightarrow> None
           | Some (c, r4) \<Rightarrow> (case skip_prefix '', '' r4 of
               None \<Rightarrow> None | Some d \<Rightarrow> Some (l, c, d)))))) issue"

fun jshint_issues :: "ShipshapeContext \<Rightarrow> string list \<Rightarrow> Note list \<Rightarrow> analysis" where
  "jshint_issues ctx [] notes = (notes, None)"
| "jshint_issues ctx (issue # issues) notes =
     (case jshint_issueRE issue of
        None \<Rightarrow> (notes, Some (''jshint gave incorrectly formatted issue: '' @ Quote issue))
      | Some (filename, l, c, description) \<Rightarrow>
          (case ParseInt32 l of
             Inl err \<Rightarrow> (notes, Some (parse_int_error_text err))
           | Inr line \<Rightarrow> (case ParseInt32 c of
               Inl err \<Rightarrow> (notes, Some (parse_int_error_text err))
             | Inr col \<Rightarrow> jshint_issues ctx issues
               (notes @ [empty_note\<lparr>n_category := Some jshint_category, n_description := Some description,
                  n_more_info := Some ''http://www.jshint.com'',
                  n_location := Some \<lparr>loc_source_context = ctx_source_context ctx,
                                      loc_path = Some filename,
                                      loc_range = Some (empty_range\<lparr>tr_start_line := Some (word_of_int line),
                                        tr_start_column := Some (word_of_int col)\<rparr>)\<rparr>\<rparr>]))))"

fun jshint_files ::
  "'w os \<Rightarrow> ShipshapeContext \<Rightarrow> string list \<Rightarrow> Note list \<Rightarrow> 'w \<Rightarrow> analysis \<times> 'w" where
  "jshint_files os ctx [] notes w = ((notes, None), w)"
| "jshint_files os ctx (path # paths) notes w =
     (if \<not> isJSHintFile path then jshint_files os ctx paths notes w
      else case CombinedOutput os [''jshint'', path] w of ((buf, err), w1) \<Rightarrow>
        (case err of
           None \<Rightarrow> jshint_files os ctx paths notes w1
         | Some (ExitError e) \<Rightarrow>
             if e = jshint_exitStatus then
               (let issues = lines_of buf
                in if length issues \<le> 3
                   then ((notes, Some ''did not get correct output from jshint''), w1)
                   else (case jshint_issues ctx (take (length issues - 3) issues) notes of
                           (notes', Some er) \<Rightarrow> ((notes', Some er), w1)
                         | (notes', None) \<Rightarrow> jshint_files os ctx paths notes' w1))
             else ((notes, Some e), w1)
         | Some e \<Rightarrow> ((notes, Some (exec_error_text e)), w1)))"

definition JSHintAnalyzer :: "'w os \<Rightarrow> 'w analyzer" where
  "JSHintAnalyzer os = \<lparr>an_Category = jshint_category,
     an_Analyze = (\<lambda>ctx w. Ret (jshint_files os ctx (ctx_file_path ctx) [] w))\<rparr>"

subsection \<open>PyLint\<close>

definition pylint_category :: string where "pylint_category = ''PyLint''"
definition usageError :: string where "usageError = ''exit status 32''"
definition modulePrefix :: string where "modulePrefix = ''************* Module''"

definition extractPyFiles :: "string list \<Rightarrow> string list" where
  "extractPyFiles paths = filter (\<lambda>path. Ext path = ''.py'') paths"

fun pylint_issues :: "ShipshapeContext \<Rightarrow> string list \<Rightarrow> Note list \<Rightarrow> analysis" where
  "pylint_issues ctx [] notes = (notes, None)"
| "pylint_issues ctx (issue # issues) notes =
     (if HasPrefix issue modulePrefix then pylint_issues ctx issues notes
      else let parts = Split issue '':::''
           in if length parts \<noteq> 3 then (notes, Some (''Found ill-formated issue: '' @ issue))
              else (case ParseInt32 (parts ! 1) of
                      Inl err \<Rightarrow> (notes, Some (parse_int_error_text err))
                    | Inr line \<Rightarrow> pylint_issues ctx issues
                        (notes @ [empty_note\<lparr>n_category := Some pylint_category,
                           n_description := Some (TrimSpace (parts ! 2)),
                           n_location := Some \<lparr>loc_source_context = ctx_source_context ctx,
                             loc_path = Some (parts ! 0),
                             loc_range = Some (empty_range\<lparr>tr_start_line := Some (word_of_int line)\<rparr>)\<rparr>\<rparr>])))"

fun pylint_files ::
  "'w os \<Rightarrow> ShipshapeContext \<Rightarrow> string list \<Rightarrow> Note list \<Rightarrow> 'w \<Rightarrow> analysis \<times> 'w" where
  "pylint_files os ctx [] notes w = ((notes, None), w)"
| "pylint_files os ctx (pyFile # pyFiles) notes w =
     (case CombinedOutput os [''pylint'', ''--msg-template='' @ [CHR 0x27] @ ''{path}:::{line}:::{msg}'' @ [CHR 0x27],
                              ''--reports=no'', pyFile] w of ((buf, err), w1) \<Rightarrow>
        (case err of
           None \<Rightarrow> pylint_files os ctx pyFiles notes w1
         | Some (ExitError e) \<Rightarrow>
             if e = usageError then ((notes, Some e), w1)
             else (let issues = lines_of buf
                   in if length issues < 2 then ((notes, Some ''Output contains no issues''), w1)
                      else (case pylint_issues ctx (butlast (tl issues)) notes of
                              (notes', Some er) \<Rightarrow> ((notes', Some er), w1)
                            | (notes', None) \<Rightarrow> pylint_files os ctx pyFiles notes' w1))
         | Some e \<Rightarrow> ((notes, Some (exec_error_text e)), w1)))"

definition PyLintAnalyzer :: "'w os \<Rightarrow> 'w analyzer" where
  "PyLintAnalyzer os = \<lparr>an_Category = pylint_category,
     an_Analyze = (\<lambda>ctx w. Ret (pylint_files os ctx (extractPyFiles (ctx_file_path ctx)) [] w))\<rparr>"

subsection \<open>WordCount\<close>

definition wordcount_category :: string where "wordcount_category = ''WordCount''"

definition CountWords :: "string \<Rightarrow> nat" where
  "CountWords content = length (Fields content)"

fun wordcount_files :: "'w os \<Rightarrow> ShipshapeContext \<Rightarrow> string list \<Rightarrow> Note list \<Rightarrow> 'w \<Rightarrow> analysis" where
  "wordcount_files os ctx [] notes w = (notes, None)"
| "wordcount_files os ctx (path # paths) notes w =
     (case read_all (ReadFile os path w) of
        Inl err \<Rightarrow> ([], Some (''could not get file contents for '' @ path @ '': '' @ err))
      | Inr content \<Rightarrow> wordcount_files os ctx paths
          (notes @ [empty_note\<lparr>n_location := Some (empty_location\<lparr>loc_path := Some path,
                                 loc_source_context := ctx_source_context ctx\<rparr>),
              n_category := Some wordcount_category,
              n_description := Some (''Word count: '' @ Itoa (int (CountWords content))),
              n_severity := Some OTHER\<rparr>]) w)"

definition WordCountAnalyzer :: "'w os \<Rightarrow> 'w analyzer" where
  "WordCountAnalyzer os = \<lparr>an_Category = wordcount_category,
     an_Analyze = (\<lambda>ctx w. Ret (wordcount_files os ctx (ctx_file_path ctx) [] w, w))\<rparr>"

subsection \<open>CodeAlert\<close>

definition codealert_category :: string where "codealert_category = ''CodeAlert''"

record CodeAlert =
  ca_Name :: string
  ca_File :: string
  ca_Description :: string
  ca_FindString :: "string \<Rightarrow> string"

text \<open>\<open>.*do not submit.*\<close> matches a line that contains the words, and then all of it.\<close>

definition alerts :: "CodeAlert list" where
  "alerts = [\<lparr>ca_Name = ''DoNotSubmitTxtTest'', ca_File = ''*'',
              ca_Description = ''Do not submit test text check'',
              ca_FindString = (\<lambda>line. if ContainsSub line ''do not submit'' then line else [])\<rparr>]"

definition FindMatches :: "string \<Rightarrow> Note list" where
  "FindMatches content =
     concat (map (\<lambda>line. concat (map (\<lambda>alert.
         if ca_FindString alert line = [] then []
         else [empty_note\<lparr>n_category := Some codealert_category, n_subcategory := Some (ca_Name alert),
                          n_description := Some (ca_Description alert)\<rparr>]) alerts)) (lines_of content))"

fun codealert_files :: "'w os \<Rightarrow> string list \<Rightarrow> Note list \<Rightarrow> 'w \<Rightarrow> analysis" where
  "codealert_files os [] notes w = (notes, None)"
| "codealert_files os (path # paths) notes w =
     (case read_all (ReadFile os path w) of
        Inl err \<Rightarrow> ([], Some err)
      | Inr content \<Rightarrow> codealert_files os paths (notes @ FindMatches content) w)"

definition CodeAlertAnalyzer :: "'w os \<Rightarrow> 'w analyzer" where
  "CodeAlertAnalyzer os = \<lparr>an_Category = codealert_category,
     an_Analyze = (\<lambda>ctx w. Ret (codealert_files os (ctx_file_path ctx) [] w, w))\<rparr>"

subsection \<open>PostMessage\<close>

definition PostMessageAnalyzer :: "'w analyzer" where
  "PostMessageAnalyzer = \<lparr>an_Category = ''PostMessage'',
     an_Analyze = (\<lambda>ctx w. Ret (([empty_note\<lparr>n_category := Some ''PostMessage'',
        n_description := Some ''Shipshape analysis results are being produced from go dispatcher at stage PRE_BUILD'',
        n_location := Some (empty_location\<lparr>loc_source_context := ctx_source_context ctx\<rparr>),
        n_severity := Some OTHER\<rparr>], None), w))\<rparr>"

subsection \<open>The contract of an analyzer\<close>

text \<open>
  What the dispatcher relies on: an analyzer returns, it tags its notes with its own category,
  and a location it gives carries the source context of the request.
\<close>

definition own_notes :: "string \<Rightarrow> ShipshapeContext \<Rightarrow> Note list \<Rightarrow> bool" where
  "own_notes c ctx ns \<longleftrightarrow> (\<forall>n \<in> set ns. n_category n = Some c \<and>
     (\<forall>loc. n_location n = Some loc \<longrightarrow> loc_source_context loc = ctx_source_context ctx))"

lemma own_notes_simps [simp]:
  "own_notes c ctx []"
  "own_notes c ctx (ns @ ms) \<longleftrightarrow> own_notes c ctx ns \<and> own_notes c ctx ms"
  "own_notes c ctx (n # ns) \<longleftrightarrow> n_category n = Some c
     \<and> (\<forall>loc. n_location n = Some loc \<longrightarrow> loc_source_context loc = ctx_source_context ctx)
     \<and> own_notes c ctx ns"
  by (auto simp: own_notes_def)

locale analyzer_contract =
  fixes category :: string
    and analyze :: "ShipshapeContext \<Rightarrow> 'w \<Rightarrow> (analysis \<times> 'w) go"
  assumes returns: "\<exists>r w'. analyze ctx w = Ret (r, w')"
    and own: "analyze ctx w = Ret ((nts, err), w') \<Longrightarrow> own_notes category ctx nts"

lemma govet_issues_own:
  "own_notes govet_category ctx nts \<Longrightarrow> own_notes govet_category ctx (fst (govet_issues ctx issues nts))"
  by (induction ctx issues nts rule: govet_issues.induct) (auto split: option.splits sum.splits)

lemma govet_analyzeOneFile_own:
  "own_notes govet_category ctx (fst (fst (govet_analyzeOneFile os ctx path w)))"
  by (auto simp: govet_analyzeOneFile_def govet_issues_own Let_def
      split: prod.splits option.splits exec_error.splits)

lemma govet_files_own:
  "own_notes govet_category ctx nts \<Longrightarrow>
     own_notes govet_category ctx (fst (fst (govet_files os ctx paths nts w)))"
proof (induction os ctx paths nts w rule: govet_files.induct)
  case (2 os ctx path paths nts w)
  then show ?case
    using govet_analyzeOneFile_own [of ctx os path w] by (auto split: prod.splits option.splits)
qed simp

interpretation govet: analyzer_contract govet_category "an_Analyze (GoVetAnalyzer os)" for os
proof unfold_locales
  fix ctx w nts err w'
  show "\<exists>r w'. an_Analyze (GoVetAnalyzer os) ctx w = Ret (r, w')"
    by (cases "govet_files os ctx (ctx_file_path ctx) [] w") (simp add: GoVetAnalyzer_def)
  show "an_Analyze (GoVetAnalyzer os) ctx w = Ret ((nts, err), w') \<Longrightarrow> own_notes govet_category ctx nts"
    using govet_files_own [of ctx "[]" os "ctx_file_path ctx" w] by (simp add: GoVetAnalyzer_def)
qed

lemma jshint_issues_own:
  "own_notes jshint_category ctx nts \<Longrightarrow> own_notes jshint_category ctx (fst (jshint_issues ctx issues nts))"
  by (induction ctx issues nts rule: jshint_issues.induct) (auto split: option.splits sum.splits)

lemma jshint_files_own:
  "own_notes jshint_category ctx nts \<Longrightarrow>
     own_notes jshint_category ctx (fst (fst (jshint_files os ctx paths nts w)))"
proof (induction os ctx paths nts w rule: jshint_files.induct)
  case (2 os ctx path paths nts w)
  then show ?case
    using jshint_issues_own [of ctx nts] by (auto simp: Let_def split: prod.splits option.splits exec_error.splits)
      (metis fst_conv)+
qed simp

interpretation jshint: analyzer_contract jshint_category "an_Analyze (JSHintAnalyzer os)" for os
proof unfold_locales
  fix ctx w nts err w'
  show "\<exists>r w'. an_Analyze (JSHintAnalyzer os) ctx w = Ret (r, w')"
    by (cases "jshint_files os ctx (ctx_file_path ctx) [] w") (simp add: JSHintAnalyzer_def)
  show "an_Analyze (JSHintAnalyzer os) ctx w = Ret ((nts, err), w') \<Longrightarrow> own_notes jshint_category ctx nts"
    using jshint_files_own [of ctx "[]" os "ctx_file_path ctx" w] by (simp add: JSHintAnalyzer_def)
qed

lemma pylint_issues_own:
  "own_notes pylint_category ctx nts \<Longrightarrow> own_notes pylint_category ctx (fst (pylint_issues ctx issues nts))"
  by (induction ctx issues nts rule: pylint_issues.induct) (auto simp: Let_def split: sum.splits)

lemma pylint_files_own:
  "own_notes pylint_category ctx nts \<Longrightarrow>
     own_notes pylint_category ctx (fst (fst (pylint_files os ctx paths nts w)))"
proof (induction os ctx paths nts w rule: pylint_files.induct)
  case (2 os ctx path paths nts w)
  then show ?case
    using pylint_issues_own [of ctx nts] by (auto simp: Let_def split: prod.splits option.splits exec_error.splits)
      (metis fst_conv)+
qed simp

interpretation pylint: analyzer_contract pylint_category "an_Analyze (PyLintAnalyzer os)" for os
proof unfold_locales
  fix ctx w nts err w'
  show "\<exists>r w'. an_Analyze (PyLintAnalyzer os) ctx w = Ret (r, w')"
    by (cases "pylint_files os ctx (extractPyFiles (ctx_file_path ctx)) [] w") (simp add: PyLintAnalyzer_def)
  show "an_Analyze (PyLintAnalyzer os) ctx w = Ret ((nts, err), w') \<Longrightarrow> own_notes pylint_category ctx nts"
    using pylint_files_own [of ctx "[]" os "extractPyFiles (ctx_file_path ctx)" w] by (simp add: PyLintAnalyzer_def)
qed

lemma wordcount_files_own:
  "own_notes wordcount_category ctx nts \<Longrightarrow>
     own_notes wordcount_category ctx (fst (wordcount_files os ctx paths nts w))"
  by (induction os ctx paths nts w rule: wordcount_files.induct) (auto split: sum.splits)

interpretation wordcount: analyzer_contract wordcount_category "an_Analyze (WordCountAnalyzer os)" for os
proof unfold_locales
  fix ctx w nts err w'
  show "\<exists>r w'. an_Analyze (WordCountAnalyzer os) ctx w = Ret (r, w')" by (simp add: WordCountAnalyzer_def)
  show "an_Analyze (WordCountAnalyzer os) ctx w = Ret ((nts, err), w') \<Longrightarrow> own_notes wordcount_category ctx nts"
    using wordcount_files_own [of ctx "[]" os "ctx_file_path ctx" w] by (auto simp: WordCountAnalyzer_def)
qed

lemma FindMatches_own: "own_notes codealert_category ctx (FindMatches content)"
  by (auto simp: own_notes_def FindMatches_def empty_note_def)

lemma codealert_files_own:
  "own_notes codealert_category ctx nts \<Longrightarrow>
     own_notes codealert_category ctx (fst (codealert_files os paths nts w))"
  by (induction os paths nts w rule: codealert_files.induct) (auto simp: FindMatches_own split: sum.splits)

interpretation codealert: analyzer_contract codealert_category "an_Analyze (CodeAlertAnalyzer os)" for os
proof unfold_locales
  fix ctx w nts err w'
  show "\<exists>r w'. an_Analyze (CodeAlertAnalyzer os) ctx w = Ret (r, w')" by (simp add: CodeAlertAnalyzer_def)
  show "an_Analyze (CodeAlertAnalyzer os) ctx w = Ret ((nts, err), w') \<Longrightarrow> own_notes codealert_category ctx nts"
    using codealert_files_own [of ctx "[]" os "ctx_file_path ctx" w] by (auto simp: CodeAlertAnalyzer_def)
qed

interpretation postmessage: analyzer_contract "''PostMessage''" "an_Analyze PostMessageAnalyzer"
  by unfold_locales (auto simp: PostMessageAnalyzer_def empty_note_def empty_location_def)

text \<open>The notes of \<open>CodeAlert\<close> say no place.\<close>

lemma FindMatches_unplaced: "n \<in> set (FindMatches content) \<Longrightarrow> n_location n = None"
  by (auto simp: FindMatches_def empty_note_def split: if_splits)

lemma codealert_files_unplaced:
  "\<forall>n \<in> set nts. n_location n = None \<Longrightarrow>
     \<forall>n \<in> set (fst (codealert_files os paths nts w)). n_location n = None"
  by (induction os paths nts w rule: codealert_files.induct)
    (auto dest: FindMatches_unplaced split: sum.splits)

lemma codealert_unplaced:
  "an_Analyze (CodeAlertAnalyzer os) ctx w = Ret ((nts, err), w') \<Longrightarrow> n \<in> set nts \<Longrightarrow> n_location n = None"
  using codealert_files_unplaced [of "[]" os "ctx_file_path ctx" w] by (auto simp: CodeAlertAnalyzer_def)

subsection \<open>Reading the output of the tools\<close>

lemma find_at_colon_here:
  assumes "CHR '':'' \<notin> set f" "tail r = Some x"
  shows "find_at_colon tail (f @ CHR '':'' # r) = Some (f, x)"
proof -
  have "\<And>c. c \<in> set f \<Longrightarrow> c \<noteq> CHR '':''" using assms(1) by auto
  then have "dropWhile (\<lambda>c. c \<noteq> CHR '':'') (f @ CHR '':'' # r) = CHR '':'' # r"
    and "takeWhile (\<lambda>c. c \<noteq> CHR '':'') (f @ CHR '':'' # r) = f"
    by (simp_all add: dropWhile_append2 takeWhile_append2)
  with assms(2) show ?thesis by (subst find_at_colon.simps) simp
qed

lemma digits_prefix_itoa:
  assumes "\<not> is_digit c"
  shows "digits_prefix (itoa_nat n @ c # s) = Some (itoa_nat n, c # s)"
  using assms itoa_nat_digits [of n]
  by (simp add: digits_prefix_def takeWhile_append2 dropWhile_append2)

lemma skip_prefix_append [simp]: "skip_prefix p (p @ s) = Some s"
  by (simp add: skip_prefix_def)

text \<open>What a tool has to say about one place: the file, the line, the column and the text.\<close>

record issue =
  is_file :: string
  is_line :: nat
  is_col :: nat
  is_text :: string

definition printable :: "issue \<Rightarrow> bool" where
  "printable i \<longleftrightarrow> CHR '':'' \<notin> set (is_file i) \<and> CHR_nl \<notin> set (is_file i) \<and> CHR_nl \<notin> set (is_text i)
     \<and> is_line i < 2 ^ 31 \<and> is_col i < 2 ^ 31"

definition govet_line :: "issue \<Rightarrow> string" where
  "govet_line i = is_file i @ '':'' @ itoa_nat (is_line i) @ '': '' @ is_text i"

definition govet_note :: "ShipshapeContext \<Rightarrow> issue \<Rightarrow> Note" where
  "govet_note ctx i = empty_note\<lparr>n_category := Some ''go vet'', n_description := Some (is_text i),
     n_location := Some \<lparr>loc_source_context = ctx_source_context ctx, loc_path = Some (is_file i),
       loc_range = Some (empty_range\<lparr>tr_start_line := Some (of_nat (is_line i))\<rparr>)\<rparr>\<rparr>"

lemma is_digit_punct [simp]:
  "\<not> is_digit CHR '':''" "\<not> is_digit CHR '',''" "\<not> is_digit CHR_nl"
  by (simp_all add: is_digit_def CHR_nl_def)

lemma itoa_nat_no: "\<not> is_digit c \<Longrightarrow> c \<notin> set (itoa_nat n)"
  using itoa_nat_digits by blast

lemma CHR_nl_neq [simp]:
  "CHR_nl \<noteq> CHR '':''" "CHR_nl \<noteq> CHR '' ''" "CHR_nl \<notin> set ''exit status 1''"
  by (simp_all add: CHR_nl_def)

lemma govet_issueRE_line:
  assumes "printable i"
  shows "govet_issueRE (govet_line i) = Some (is_file i, itoa_nat (is_line i), is_text i)"
proof -
  let ?r = "itoa_nat (is_line i) @ '': '' @ is_text i"
  have "digits_prefix ?r = Some (itoa_nat (is_line i), '': '' @ is_text i)"
    using digits_prefix_itoa [of "CHR '':''" "is_line i" "'' '' @ is_text i"] by simp
  moreover have "skip_prefix '': '' ('': '' @ is_text i) = Some (is_text i)" by (rule skip_prefix_append)
  moreover have "govet_line i = is_file i @ CHR '':'' # ?r" by (simp add: govet_line_def)
  ultimately show ?thesis
    unfolding govet_issueRE_def using assms
    by (simp add: find_at_colon_here printable_def del: append.simps)
qed

lemma govet_issues_lines:
  assumes "\<forall>i \<in> set iss. printable i"
  shows "govet_issues ctx (map govet_line iss) ns = (ns @ map (govet_note ctx) iss, None)"
  using assms
proof (induction iss arbitrary: ns)
  case (Cons i iss)
  then have i: "printable i" by simp
  then have "ParseInt32 (itoa_nat (is_line i)) = Inr (int (is_line i))"
    by (simp add: ParseInt32_itoa printable_def)
  with Cons govet_issueRE_line [OF i] show ?case
    by (simp add: govet_note_def govet_category_def)
qed simp

text \<open>C28: the output of \<open>go vet\<close> for any list of issues is read back as exactly one note per
  issue, in order, with its file, line and text, and without an error.\<close>

theorem govet_reads_back:
  assumes "CombinedOutput os [''go'', ''vet'', path] w =
      ((Join (map govet_line iss @ [''exit status 1'', '''']) [CHR_nl], Some (ExitError ''exit status 1'')), w1)"
    and "\<forall>i \<in> set iss. printable i" "iss \<noteq> []"
  shows "govet_analyzeOneFile os ctx path w = ((map (govet_note ctx) iss, None), w1)"
proof -
  have nl: "CHR_nl \<notin> set (govet_line i)" if "printable i" for i
    using that itoa_nat_no [of CHR_nl "is_line i"] by (simp add: govet_line_def printable_def)
  have "lines_of (Join (map govet_line iss @ [''exit status 1'', '''']) [CHR_nl])
      = map govet_line iss @ [''exit status 1'', '''']"
    using nl assms(2) by (intro lines_of_Join) (auto simp: CHR_nl_def)
  moreover have "length iss \<noteq> 0" using assms(3) by simp
  ultimately show ?thesis
    using assms(1,2) by (simp add: govet_analyzeOneFile_def govet_exitStatus_def govet_issues_lines Let_def)
qed

definition a_go_issue :: issue where
  "a_go_issue = \<lparr>is_file = ''a.go'', is_line = 12, is_col = 0, is_text = ''unreachable code''\<rparr>"

theorem govet_reads_back_witness:
  "govet_analyzeOneFile (plain_os\<lparr>CombinedOutput := (\<lambda>argv w.
       ((Join (map govet_line [a_go_issue] @ [''exit status 1'', '''']) [CHR_nl],
         Some (ExitError ''exit status 1'')), w))\<rparr>) empty_context ''a.go'' ''/''
   = ((map (govet_note empty_context) [a_go_issue], None), ''/'')"
  by (rule govet_reads_back) (simp_all add: a_go_issue_def printable_def CHR_nl_def)

definition jshint_line :: "issue \<Rightarrow> string" where
  "jshint_line i = is_file i @ '': line '' @ itoa_nat (is_line i) @ '', col '' @ itoa_nat (is_col i)
     @ '', '' @ is_text i"

definition jshint_note :: "ShipshapeContext \<Rightarrow> issue \<Rightarrow> Note" where
  "jshint_note ctx i = empty_note\<lparr>n_category := Some ''JSHint'', n_description := Some (is_text i),
     n_more_info := Some ''http://www.jshint.com'',
     n_location := Some \<lparr>loc_source_context = ctx_source_context ctx, loc_path = Some (is_file i),
       loc_range = Some (empty_range\<lparr>tr_start_line := Some (of_nat (is_line i)),
                                      tr_start_column := Some (of_nat (is_col i))\<rparr>)\<rparr>\<rparr>"

lemma jshint_issueRE_line:
  assumes "printable i"
  shows "jshint_issueRE (jshint_line i)
    = Some (is_file i, itoa_nat (is_line i), itoa_nat (is_col i), is_text i)"
proof -
  let ?r3 = "itoa_nat (is_col i) @ '', '' @ is_text i"
  let ?r1 = "itoa_nat (is_line i) @ '', col '' @ ?r3"
  have "skip_prefix '' line '' ('' line '' @ ?r1) = Some ?r1" by (rule skip_prefix_append)
  moreover have "digits_prefix ?r1 = Some (itoa_nat (is_line i), '', col '' @ ?r3)"
    using digits_prefix_itoa [of "CHR '',''" "is_line i" "'' col '' @ ?r3"] by simp
  moreover have "skip_prefix '', col '' ('', col '' @ ?r3) = Some ?r3" by (rule skip_prefix_append)
  moreover have "digits_prefix ?r3 = Some (itoa_nat (is_col i), '', '' @ is_text i)"
    using digits_prefix_itoa [of "CHR '',''" "is_col i" "'' '' @ is_text i"] by simp
  moreover have "skip_prefix '', '' ('', '' @ is_text i) = Some (is_text i)" by (rule skip_prefix_append)
  moreover have "jshint_line i = is_file i @ CHR '':'' # '' line '' @ ?r1" by (simp add: jshint_line_def)
  ultimately show ?thesis
    unfolding jshint_issueRE_def using assms
    by (simp add: find_at_colon_here printable_def del: append.simps)
qed

lemma jshint_issues_lines:
  assumes "\<forall>i \<in> set iss. printable i"
  shows "jshint_issues ctx (map jshint_line iss) ns = (ns @ map (jshint_note ctx) iss, None)"
  using assms
proof (induction iss arbitrary: ns)
  case (Cons i iss)
  then have i: "printable i" by simp
  then have "ParseInt32 (itoa_nat (is_line i)) = Inr (int (is_line i))"
    "ParseInt32 (itoa_nat (is_col i)) = Inr (int (is_col i))"
    by (simp_all add: ParseInt32_itoa printable_def)
  with Cons jshint_issueRE_line [OF i] show ?case
    by (simp add: jshint_note_def jshint_category_def)
qed simp

text \<open>The output of \<open>jshint\<close> on a JavaScript file, its issues followed by the three
  lines of the summary, is read back as exactly one note per issue, in order, with its file,
  line, column and text, and without an error.\<close>

theorem jshint_reads_back:
  assumes "CombinedOutput os [''jshint'', path] w =
      ((Join (map jshint_line iss @ [s1, s2, s3]) [CHR_nl], Some (ExitError ''exit status 2'')), w1)"
    and "\<forall>i \<in> set iss. printable i" "iss \<noteq> []"
    and "CHR_nl \<notin> set s1 \<union> set s2 \<union> set s3" "isJSHintFile path" "ctx_file_path ctx = [path]"
  shows "an_Analyze (JSHintAnalyzer os) ctx w = Ret ((map (jshint_note ctx) iss, None), w1)"
proof -
  have nl: "CHR_nl \<notin> set (jshint_line i)" if "printable i" for i
    using that itoa_nat_no [of CHR_nl "is_line i"] itoa_nat_no [of CHR_nl "is_col i"]
    by (simp add: jshint_line_def printable_def CHR_nl_def is_digit_def)
  have "lines_of (Join (map jshint_line iss @ [s1, s2, s3]) [CHR_nl]) = map jshint_line iss @ [s1, s2, s3]"
    using nl assms(2,4) by (intro lines_of_Join) auto
  moreover have "\<not> length (map jshint_line iss @ [s1, s2, s3]) \<le> 3" using assms(3) by (cases iss) auto
  ultimately show ?thesis
    using assms(1,2,5,6) jshint_issues_lines [of iss ctx "[]"]
    by (simp add: JSHintAnalyzer_def jshint_exitStatus_def Let_def)
qed

theorem jshint_reads_back_witness:
  "an_Analyze (JSHintAnalyzer (plain_os\<lparr>CombinedOutput := (\<lambda>argv w.
       ((Join (map jshint_line [a_go_issue] @ ['''', ''1 error'', '''']) [CHR_nl],
         Some (ExitError ''exit status 2'')), w))\<rparr>)) (empty_context\<lparr>ctx_file_path := [''a.js'']\<rparr>) ''/''
   = Ret ((map (jshint_note (empty_context\<lparr>ctx_file_path := [''a.js'']\<rparr>)) [a_go_issue], None), ''/'')"
  by (rule jshint_reads_back [where path = "''a.js''" and ?s1.0 = "[]" and ?s2.0 = "''1 error''" and ?s3.0 = "[]"])
    (simp_all add: a_go_issue_def printable_def CHR_nl_def isJSHintFile_def Ext_def empty_context_def)

definition pylint_line :: "issue \<Rightarrow> string" where
  "pylint_line i = is_file i @ '':::'' @ itoa_nat (is_line i) @ '':::'' @ is_text i"

definition pylint_note :: "ShipshapeContext \<Rightarrow> issue \<Rightarrow> Note" where
  "pylint_note ctx i = empty_note\<lparr>n_category := Some ''PyLint'', n_description := Some (TrimSpace (is_text i)),
     n_location := Some \<lparr>loc_source_context = ctx_source_context ctx, loc_path = Some (is_file i),
       loc_range = Some (empty_range\<lparr>tr_start_line := Some (of_nat (is_line i))\<rparr>)\<rparr>\<rparr>"

lemma split_scan_run:
  "CHR '':'' \<notin> set p \<Longrightarrow> split_scan '':::'' acc (p @ s) = split_scan '':::'' (rev p @ acc) s"
  by (induction p arbitrary: acc) (auto simp: HasPrefix_Cons)

lemma Split_colons_Cons:
  "CHR '':'' \<notin> set p \<Longrightarrow> Split (p @ '':::'' @ s) '':::'' = p # Split s '':::''"
  using split_scan_run [of p "[]" "'':::'' @ s"] by (simp add: Split_def HasPrefix_Cons)

lemma split_scan_no_sep: "\<not> ContainsSub s sep \<Longrightarrow> split_scan sep acc s = [rev acc @ s]"
  by (induction s arbitrary: acc) auto

lemma pylint_issues_lines:
  assumes "\<forall>i \<in> set iss. printable i \<and> \<not> ContainsSub (is_text i) '':::''
             \<and> \<not> HasPrefix (pylint_line i) modulePrefix"
  shows "pylint_issues ctx (map pylint_line iss) ns = (ns @ map (pylint_note ctx) iss, None)"
  using assms
proof (induction iss arbitrary: ns)
  case (Cons i iss)
  then have i: "printable i" "\<not> HasPrefix (pylint_line i) modulePrefix"
    and t: "\<not> ContainsSub (is_text i) '':::''" by simp_all
  then have "ParseInt32 (itoa_nat (is_line i)) = Inr (int (is_line i))"
    by (simp add: ParseInt32_itoa printable_def)
  moreover have "Split (pylint_line i) '':::'' = [is_file i, itoa_nat (is_line i), is_text i]"
    using i(1) t itoa_nat_no [of "CHR '':''" "is_line i"]
    by (simp add: pylint_line_def Split_colons_Cons printable_def del: append.simps)
      (simp add: Split_def split_scan_no_sep)
  ultimately show ?case
    using Cons i(2) by (simp add: pylint_note_def pylint_category_def numeral_2_eq_2)
qed simp

text \<open>The output of \<open>pylint\<close> on a Python file, a first line that is skipped, its issues and
  an empty last line, is read back as exactly one note per issue, in order, with its file, line
  and trimmed text, and without an error.\<close>

theorem pylint_reads_back:
  assumes "CombinedOutput os [''pylint'', ''--msg-template='' @ [CHR 0x27] @ ''{path}:::{line}:::{msg}'' @ [CHR 0x27],
                              ''--reports=no'', path] w =
      ((Join (header # map pylint_line iss @ ['''']) [CHR_nl], Some (ExitError e)), w1)"
    and "\<forall>i \<in> set iss. printable i \<and> \<not> ContainsSub (is_text i) '':::''
             \<and> \<not> HasPrefix (pylint_line i) modulePrefix"
    and "CHR_nl \<notin> set header" "Ext path = ''.py''" "ctx_file_path ctx = [path]" "e \<noteq> ''exit status 32''"
  shows "an_Analyze (PyLintAnalyzer os) ctx w = Ret ((map (pylint_note ctx) iss, None), w1)"
proof -
  have nl: "CHR_nl \<notin> set (pylint_line i)" if "printable i" for i
    using that itoa_nat_no [of CHR_nl "is_line i"]
    by (simp add: pylint_line_def printable_def)
  have "lines_of (Join (header # map pylint_line iss @ ['''']) [CHR_nl]) = header # map pylint_line iss @ ['''']"
    using nl assms(2,3) by (intro lines_of_Join) auto
  then show ?thesis
    using assms(1,4-6) pylint_issues_lines [OF assms(2), of ctx "[]"]
    by (simp add: PyLintAnalyzer_def extractPyFiles_def usageError_def Let_def)
qed

theorem pylint_reads_back_witness:
  "an_Analyze (PyLintAnalyzer (plain_os\<lparr>CombinedOutput := (\<lambda>argv w.
       ((Join (''No config file found'' # map pylint_line [a_go_issue] @ ['''']) [CHR_nl],
         Some (ExitError ''exit status 4'')), w))\<rparr>)) (empty_context\<lparr>ctx_file_path := [''a.py'']\<rparr>) ''/''
   = Ret ((map (pylint_note (empty_context\<lparr>ctx_file_path := [''a.py'']\<rparr>)) [a_go_issue], None), ''/'')"
  by (rule pylint_reads_back [where path = "''a.py''" and header = "''No config file found''" and e = "''exit status 4''"])
    (simp_all add: a_go_issue_def printable_def CHR_nl_def Ext_def empty_context_def HasPrefix_def
      pylint_line_def modulePrefix_def)

end
