(* ===== verification/Dispatcher.thy ===== *)
theory Dispatcher
  imports Analyzers StrSet FileUtil
begin

text \<open>
  \<open>shipshape/api/dispatcher.go\<close>: the service that runs a pack of analyzers in one process,
  and \<open>shipshape/service/go_dispatcher.go\<close>, the pack the Go container serves.
\<close>

record 'w analyzerService =
  as_analyzers :: "'w analyzer list"
  as_stage :: Stage

definition CreateAnalyzerService :: "'w analyzer list \<Rightarrow> Stage \<Rightarrow> 'w analyzerService" where
  "CreateAnalyzerService analyzers stage = \<lparr>as_analyzers = analyzers, as_stage = stage\<rparr>"

definition appendFailure :: "AnalysisFailure list \<Rightarrow> string \<Rightarrow> string \<Rightarrow> AnalysisFailure list" where
  "appendFailure errs cat err = errs @ [\<lparr>f_category = Some cat, f_message = Some err\<rparr>]"

type_synonym collected = "Note list \<times> AnalysisFailure list"

definition runAnalyzer ::
  "'w analyzer \<Rightarrow> ShipshapeContext \<Rightarrow> collected \<Rightarrow> 'w \<Rightarrow> (collected \<times> 'w) go" where
  "runAnalyzer analyzer ctx acc w =
     (case acc of (nts, errs) \<Rightarrow>
        let c = an_Category analyzer
        in go_bind (an_Analyze analyzer ctx w) (\<lambda>((ns, err), w1).
           let errs = (case err of None \<Rightarrow> errs | Some e \<Rightarrow> appendFailure errs c e)
           in Ret ((nts @ ns, errs), w1)))"

fun run_requested ::
  "Set \<Rightarrow> ShipshapeContext \<Rightarrow> 'w analyzer list \<Rightarrow> collected \<Rightarrow> 'w \<Rightarrow> (collected \<times> 'w) go" where
  "run_requested reqCats ctx [] acc w = Ret (acc, w)"
| "run_requested reqCats ctx (a # as) acc w =
     (if Set_Contains reqCats (an_Category a)
      then go_bind (runAnalyzer a ctx acc w) (\<lambda>(acc, w1). run_requested reqCats ctx as acc w1)
      else run_requested reqCats ctx as acc w)"

text \<open>
  The handler returns the response and the error.  The deferred \<open>restore\<close> runs on every way
  out after the directory was entered; nothing recovers a panic here.
\<close>

definition Analyze ::
  "'w os \<Rightarrow> 'w analyzerService \<Rightarrow> AnalyzeRequest \<Rightarrow> 'w \<Rightarrow> ((AnalyzeResponse \<times> string option) \<times> 'w) go" where
  "Analyze os s inp w =
     go_bind (deref (areq_context inp)) (\<lambda>ctx.
     go_bind (deref (ctx_repo_root ctx)) (\<lambda>root.
     case ChangeDir os root w of ((orgDir, restore, err), w1) \<Rightarrow>
       (case err of
          Some e \<Rightarrow> Ret ((\<lparr>ar_note = [], ar_failure = appendFailure [] ''InternalFailure'' e\<rparr>, Some e), w1)
        | None \<Rightarrow>
            go_bind (run_requested (New (areq_category inp)) ctx (as_analyzers s) ([], []) w1)
              (\<lambda>((nts, errs), w2).
                 Ret ((\<lparr>ar_note = nts, ar_failure = errs\<rparr>, None), snd (restore_dir os restore w2))))))"

definition GetCategory :: "'w analyzerService \<Rightarrow> string list" where
  "GetCategory s = map an_Category (as_analyzers s)"

definition GetStage :: "'w analyzerService \<Rightarrow> Stage option" where
  "GetStage s = Some (as_stage s)"

definition go_analyzers :: "'w os \<Rightarrow> 'w analyzer list" where
  "go_analyzers os = [PostMessageAnalyzer, WordCountAnalyzer os, JSHintAnalyzer os,
     CodeAlertAnalyzer os, PyLintAnalyzer os, GoVetAnalyzer os]"

definition go_dispatcher :: "'w os \<Rightarrow> 'w analyzerService" where
  "go_dispatcher os = CreateAnalyzerService (go_analyzers os) Stage_PRE_BUILD"

subsection \<open>A pack of analyzers that keep their contract\<close>

text \<open>What the collected notes and failures owe to the requested categories.\<close>

definition tagged :: "string set \<Rightarrow> ShipshapeContext \<Rightarrow> collected \<Rightarrow> bool" where
  "tagged cats ctx acc \<longleftrightarrow>
     (\<forall>n \<in> set (fst acc). \<exists>c \<in> cats. own_notes c ctx [n])
     \<and> (\<forall>f \<in> set (snd acc). \<exists>c \<in> cats. f_category f = Some c)"

locale analyzer_pack =
  fixes pack :: "'w analyzer list"
  assumes contract: "a \<in> set pack \<Longrightarrow> analyzer_contract (an_Category a) (an_Analyze a)"
begin

lemma runAnalyzer_keeps:
  assumes "a \<in> set pack" "an_Category a \<in> cats" "tagged cats ctx acc"
  shows "\<exists>acc' w'. runAnalyzer a ctx acc w = Ret (acc', w') \<and> tagged cats ctx acc'"
proof -
  obtain ns err w' where r: "an_Analyze a ctx w = Ret ((ns, err), w')"
    using analyzer_contract.returns [OF contract [OF assms(1)]] by (metis prod.collapse)
  have "own_notes (an_Category a) ctx ns"
    using analyzer_contract.own [OF contract [OF assms(1)] r] .
  then have "\<forall>n \<in> set ns. own_notes (an_Category a) ctx [n]" by (auto simp: own_notes_def)
  with assms(2,3) r show ?thesis
    by (cases acc) (auto simp: runAnalyzer_def tagged_def appendFailure_def Let_def split: option.splits)
qed

lemma run_requested_keeps:
  assumes "set as \<subseteq> set pack" "tagged cats ctx acc"
    and "\<And>a. a \<in> set as \<Longrightarrow> Set_Contains req (an_Category a) \<Longrightarrow> an_Category a \<in> cats"
  shows "\<exists>acc' w'. run_requested req ctx as acc w = Ret (acc', w') \<and> tagged cats ctx acc'"
  using assms
proof (induction as arbitrary: acc w)
  case (Cons a as)
  show ?case
  proof (cases "Set_Contains req (an_Category a)")
    case True
    with Cons.prems obtain acc1 w1 where r: "runAnalyzer a ctx acc w = Ret (acc1, w1)"
      "tagged cats ctx acc1"
      using runAnalyzer_keeps [of a cats ctx acc w] by auto
    with True Cons.IH [of acc1 w1] Cons.prems show ?thesis by simp
  next
    case False
    with Cons show ?thesis by simp
  qed
qed simp

lemma run_requested_pack:
  "\<exists>acc' w'. run_requested (New cats) ctx pack ([], []) w = Ret (acc', w')
     \<and> tagged (set cats \<inter> an_Category ` set pack) ctx acc'"
  by (rule run_requested_keeps) (auto simp: tagged_def strset_simps)

end

interpretation go_pack: analyzer_pack "go_analyzers os" for os
proof (rule analyzer_pack.intro)
  fix a assume "a \<in> set (go_analyzers os)"
  then show "analyzer_contract (an_Category a) (an_Analyze a)"
    using govet.analyzer_contract_axioms jshint.analyzer_contract_axioms
      pylint.analyzer_contract_axioms wordcount.analyzer_contract_axioms
      codealert.analyzer_contract_axioms postmessage.analyzer_contract_axioms
    by (auto simp: go_analyzers_def GoVetAnalyzer_def JSHintAnalyzer_def PyLintAnalyzer_def
        WordCountAnalyzer_def CodeAlertAnalyzer_def PostMessageAnalyzer_def)
qed

subsection \<open>Properties\<close>

definition go_categories :: "string list" where
  "go_categories = [''PostMessage'', ''WordCount'', ''JSHint'', ''CodeAlert'', ''PyLint'', ''go vet'']"

lemma go_analyzers_categories: "map an_Category (go_analyzers os) = go_categories"
  by (simp add: go_analyzers_def go_categories_def PostMessageAnalyzer_def WordCountAnalyzer_def
      JSHintAnalyzer_def CodeAlertAnalyzer_def PyLintAnalyzer_def GoVetAnalyzer_def
      wordcount_category_def jshint_category_def codealert_category_def pylint_category_def
      govet_category_def)

lemma go_categories_set: "an_Category ` set (go_analyzers os) = set go_categories"
  by (metis go_analyzers_categories set_map)

lemma Analyze_inside:
  assumes "areq_context inp = Some ctx" "ctx_repo_root ctx = Some root"
    and "Getwd os w = Inr d" "Chdir os root w = (None, w1)"
  shows "Analyze os s inp w =
     go_bind (run_requested (New (areq_category inp)) ctx (as_analyzers s) ([], []) w1)
       (\<lambda>((nts, errs), w2). Ret ((\<lparr>ar_note = nts, ar_failure = errs\<rparr>, None), snd (Chdir os d w2)))"
  using assms by (simp add: Analyze_def ChangeDir_def restore_dir_def)

text \<open>What the notes of the requested analyzers have in common, the collected notes have.\<close>

lemma run_requested_all:
  assumes "run_requested req ctx as acc w = Ret (acc', w')" "\<forall>n \<in> set (fst acc). P n"
    and "\<And>a ns err w w' n. a \<in> set as \<Longrightarrow> an_Analyze a ctx w = Ret ((ns, err), w') \<Longrightarrow> n \<in> set ns \<Longrightarrow> P n"
  shows "\<forall>n \<in> set (fst acc'). P n"
  using assms
proof (induction as arbitrary: acc w)
  case (Cons a as)
  show ?case
  proof (cases "Set_Contains req (an_Category a)")
    case True
    then obtain acc1 w1 where r: "runAnalyzer a ctx acc w = Ret (acc1, w1)"
      "run_requested req ctx as acc1 w1 = Ret (acc', w')"
      using Cons.prems(1) by (auto simp: go_bind_Ret_iff)
    then obtain ns err where x: "an_Analyze a ctx w = Ret ((ns, err), w1)" "fst acc1 = fst acc @ ns"
      by (cases acc) (auto simp: runAnalyzer_def go_bind_Ret_iff Let_def)
    have "\<forall>n \<in> set ns. P n" using Cons.prems(3) [OF _ x(1)] by simp
    with Cons.prems(2) x(2) have "\<forall>n \<in> set (fst acc1). P n" by auto
    from Cons.IH [OF r(2) this] Cons.prems(3) show ?thesis by (meson list.set_intros(2))
  next
    case False
    with Cons.prems(1) have "run_requested req ctx as acc w = Ret (acc', w')" by simp
    from Cons.IH [OF this Cons.prems(2)] Cons.prems(3) show ?thesis by (meson list.set_intros(2))
  qed
qed simp

lemma go_analyzer_notes:
  assumes "a \<in> set (go_analyzers os)" "an_Analyze a ctx w = Ret ((ns, err), w')" "n \<in> set ns"
  shows "n_category n = Some ''CodeAlert'' \<longrightarrow> n_location n = None"
proof -
  have "own_notes (an_Category a) ctx ns"
    using analyzer_contract.own [OF go_pack.contract [OF assms(1)] assms(2)] .
  then have cat: "n_category n = Some (an_Category a)" using assms(3) by (auto simp: own_notes_def)
  show ?thesis
  proof (cases "a = CodeAlertAnalyzer os")
    case True
    with assms(2,3) show ?thesis using codealert_unplaced [of os ctx w ns err w' n] by simp
  next
    case False
    with assms(1) have "an_Category a \<noteq> ''CodeAlert''"
      by (auto simp: go_analyzers_def PostMessageAnalyzer_def WordCountAnalyzer_def JSHintAnalyzer_def
          PyLintAnalyzer_def GoVetAnalyzer_def wordcount_category_def jshint_category_def
          pylint_category_def govet_category_def)
    with cat show ?thesis by simp
  qed
qed

lemma go_dispatcher_notes:
  assumes "Analyze os (go_dispatcher os) inp w = Ret ((resp, None), w')" "n \<in> set (ar_note resp)"
  obtains ctx c where "areq_context inp = Some ctx" "c \<in> set (areq_category inp)" "c \<in> set go_categories"
    "own_notes c ctx [n]" "c = ''CodeAlert'' \<Longrightarrow> n_location n = None"
proof -
  obtain ctx nts errs w1 w2 where r: "areq_context inp = Some ctx"
    "run_requested (New (areq_category inp)) ctx (go_analyzers os) ([], []) w1 = Ret ((nts, errs), w2)"
    "ar_note resp = nts"
    using assms(1) by (auto simp: Analyze_def go_bind_Ret_iff deref_def go_dispatcher_def
        CreateAnalyzerService_def split: option.splits prod.splits)
  obtain acc' where "run_requested (New (areq_category inp)) ctx (go_analyzers os) ([], []) w1 = Ret acc'"
    and "tagged (set (areq_category inp) \<inter> set go_categories) ctx (fst acc')"
    using go_pack.run_requested_pack [of "areq_category inp" ctx os w1] unfolding go_categories_set by auto
  with r(2,3) assms(2) obtain c where c: "c \<in> set (areq_category inp)" "c \<in> set go_categories"
    "own_notes c ctx [n]"
    by (auto simp: tagged_def)
  have "\<forall>n \<in> set (fst (nts, errs)). n_category n = Some ''CodeAlert'' \<longrightarrow> n_location n = None"
    by (rule run_requested_all [OF r(2)]) (auto dest: go_analyzer_notes)
  then have "c = ''CodeAlert'' \<Longrightarrow> n_location n = None" using c(3) r(3) assms(2) by simp
  with that r(1) c show thesis by blast
qed

text \<open>On a repository it can enter, the Go dispatcher never panics and returns no error:
  every note it sends back is tagged with a requested category that one of its six analyzers
  has, in the source context of the request, every failure names such a category, and the
  process is back where it was.\<close>

theorem go_dispatcher_tags:
  assumes "areq_context inp = Some ctx" "ctx_repo_root ctx = Some root"
    and "Getwd os w = Inr d" "Chdir os root w = (None, w1)" "returns_home os"
  shows "\<exists>resp w'. Analyze os (go_dispatcher os) inp w = Ret ((resp, None), w')
     \<and> (\<forall>n \<in> set (ar_note resp). \<exists>c \<in> set (areq_category inp) \<inter> set go_categories.
          n_category n = Some c \<and> (\<forall>loc. n_location n = Some loc \<longrightarrow>
             loc_source_context loc = ctx_source_context ctx))
     \<and> (\<forall>f \<in> set (ar_failure resp). \<exists>c \<in> set (areq_category inp) \<inter> set go_categories.
          f_category f = Some c)
     \<and> Getwd os w' = Inr d"
proof -
  obtain nts errs w2 where r: "run_requested (New (areq_category inp)) ctx (go_analyzers os) ([], []) w1
      = Ret ((nts, errs), w2)"
    and t: "tagged (set (areq_category inp) \<inter> set go_categories) ctx (nts, errs)"
    using go_pack.run_requested_pack [of "areq_category inp" ctx os w1]
    unfolding go_categories_set by auto
  have "Getwd os (snd (Chdir os d w2)) = Inr d"
    using assms(3,5) unfolding returns_home_def by blast
  then show ?thesis
    using r t Analyze_inside [OF assms(1-4), of "go_dispatcher os"]
    by (auto simp: go_dispatcher_def CreateAnalyzerService_def tagged_def own_notes_def)
qed

definition a_request :: "string list \<Rightarrow> AnalyzeRequest" where
  "a_request cats = \<lparr>areq_context = Some (empty_context\<lparr>ctx_repo_root := Some ''/repo''\<rparr>),
                     areq_category = cats\<rparr>"

theorem go_dispatcher_tags_witness:
  "\<exists>resp w'. Analyze plain_os (go_dispatcher plain_os) (a_request [''PostMessage'', ''Other'']) ''/''
      = Ret ((resp, None), w') \<and> Getwd plain_os w' = Inr ''/''
      \<and> (\<forall>n \<in> set (ar_note resp). n_category n = Some ''PostMessage'')"
proof -
  have "areq_context (a_request [''PostMessage'', ''Other'']) = Some (empty_context\<lparr>ctx_repo_root := Some ''/repo''\<rparr>)"
    "ctx_repo_root (empty_context\<lparr>ctx_repo_root := Some ''/repo''\<rparr>) = Some ''/repo''"
    "Getwd plain_os ''/'' = Inr ''/''" "Chdir plain_os ''/repo'' ''/'' = (None, ''/repo'')"
    by (simp_all add: a_request_def plain_os_def)
  from go_dispatcher_tags [OF this returns_home_plain_os] show ?thesis
    by (fastforce simp: a_request_def go_categories_def)
qed

text \<open>The dispatcher does not recover from a panicking analyzer, contrary to its comment:
  when a requested analyzer panics in every world, so does the handler.\<close>

theorem Analyze_not_recovered:
  assumes "areq_context inp = Some ctx" "ctx_repo_root ctx = Some root"
    and "Getwd os w = Inr d" "Chdir os root w = (None, w1)"
    and "a \<in> set (as_analyzers s)" "an_Category a \<in> set (areq_category inp)"
    and "\<And>w. panics (an_Analyze a ctx w)"
  shows "panics (Analyze os s inp w)"
proof -
  have "panics (run_requested req ctx as acc w)"
    if "a \<in> set as" "Set_Contains req (an_Category a)" for req as acc w
    using that(1)
  proof (induction as arbitrary: acc w)
    case (Cons b as)
    show ?case
    proof (cases "a = b")
      case True
      then have "panics (runAnalyzer b ctx acc w)"
        using assms(7) [of w] by (cases acc; cases "an_Analyze b ctx w") (simp_all add: runAnalyzer_def Let_def)
      with that(2) True show ?thesis by (cases "runAnalyzer b ctx acc w") auto
    next
      case False
      with Cons show ?thesis
        by (cases "runAnalyzer b ctx acc w") auto
    qed
  qed simp
  from this [OF assms(5), of "New (areq_category inp)" "([], [])" w1] assms(6)
  have "panics (run_requested (New (areq_category inp)) ctx (as_analyzers s) ([], []) w1)"
    by (simp add: strset_simps)
  then show ?thesis
    unfolding Analyze_inside [OF assms(1-4)]
    by (cases "run_requested (New (areq_category inp)) ctx (as_analyzers s) ([], []) w1") auto
qed

theorem Analyze_not_recovered_witness:
  "panics (Analyze plain_os
     (CreateAnalyzerService [\<lparr>an_Category = ''Bad'', an_Analyze = (\<lambda>ctx w. Panic ''index out of range'')\<rparr>]
        Stage_PRE_BUILD) (a_request [''Bad'']) ''/'')"
  by (rule Analyze_not_recovered [where root = "''/repo''" and d = "''/''" and ?w1.0 = "''/repo''"
        and ctx = "empty_context\<lparr>ctx_repo_root := Some ''/repo''\<rparr>"
        and a = "\<lparr>an_Category = ''Bad'', an_Analyze = (\<lambda>ctx w. Panic ''index out of range'')\<rparr>"])
    (simp_all add: a_request_def plain_os_def CreateAnalyzerService_def)

end
