(* ===== verification/AndroidLint.thy ===== *)
theory AndroidLint
  imports Dispatcher Paths
begin

text \<open>
  \<open>shipshape/androidlint_analyzer/androidlint\<close>: the analyzer that runs Android lint on every
  project the given files belong to, and the service that serves it.

  Besides the operating system the analyzer uses temporary files, the type of a file and an XML
  parser; a project is found by going up from a file, which need not end, so finding one is a
  partial function.
\<close>

subsection \<open>Finding the projects\<close>

record issue =
  is_Subcategory :: string
  is_Message :: string
  is_File :: string
  is_Line :: int
  is_Column :: int

text \<open>\<open>le_stat\<close> is an error or whether the file is a directory; \<open>le_projects\<close> the order in
  which the map of the projects is ranged over.\<close>

record 'w lint_env =
  le_os :: "'w os"
  le_tempfile :: "string \<Rightarrow> 'w \<Rightarrow> (string + string) \<times> 'w"
  le_stat :: "string \<Rightarrow> 'w \<Rightarrow> string + bool"
  le_xml :: "string \<Rightarrow> string + issue list"
  le_projects :: "string list \<Rightarrow> string list"

definition androidManifest :: string where "androidManifest = ''AndroidManifest.xml''"
definition report :: string where "report = ''lint-report.xml''"
definition exitStatus :: string where "exitStatus = ''exit status 1''"
definition lintBin :: string where "lintBin = ''lint''"
definition androidlint_category :: string where "androidlint_category = ''AndroidLint''"

definition isAndroidRoot :: "'w lint_env \<Rightarrow> string \<Rightarrow> 'w \<Rightarrow> bool" where
  "isAndroidRoot env path w = (case ReadDir (le_os env) path w of
     Inl err \<Rightarrow> False | Inr files \<Rightarrow> list_ex (\<lambda>file. file = androidManifest) files)"

partial_function (option) getProject :: "'w lint_env \<Rightarrow> string \<Rightarrow> 'w \<Rightarrow> (string \<times> bool) option" where
  "getProject env path w =
     (case le_stat env path w of
        Inl err \<Rightarrow> Some ([], False)
      | Inr isDir \<Rightarrow>
          if isDir \<and> (isAndroidRoot env path w \<or> path = ''.'' \<or> path = ''/'')
          then Some (path, isAndroidRoot env path w)
          else getProject env (Dir path) w)"

declare getProject.simps [code]

fun getAndroidProjects :: "'w lint_env \<Rightarrow> string list \<Rightarrow> 'w \<Rightarrow> Set \<Rightarrow> Set option" where
  "getAndroidProjects env [] w pPaths = Some pPaths"
| "getAndroidProjects env (path # paths) w pPaths =
     (case getProject env (Clean path) w of
        None \<Rightarrow> None
      | Some (project, ok) \<Rightarrow>
          getAndroidProjects env paths w (if ok then AList.update project True pPaths else pPaths))"

subsection \<open>Running lint\<close>

text \<open>The numbers of the report are \<open>int\<close>; \<open>proto.Int\<close> keeps their low 32 bits.\<close>

definition lint_note :: "ShipshapeContext \<Rightarrow> string \<Rightarrow> issue \<Rightarrow> Note" where
  "lint_note ctx prj issue = empty_note\<lparr>n_category := Some androidlint_category,
     n_subcategory := Some (is_Subcategory issue), n_description := Some (is_Message issue),
     n_location := Some \<lparr>loc_source_context = ctx_source_context ctx,
                         loc_path = Some (path_Join [prj, is_File issue]),
                         loc_range = Some (empty_range\<lparr>tr_start_line := Some (word_of_int (is_Line issue)),
                                                       tr_start_column := Some (word_of_int (is_Column issue))\<rparr>)\<rparr>\<rparr>"

text \<open>What the run of lint gives for one project, its report being in the file \<open>name\<close>.\<close>

definition lint_result ::
  "'w lint_env \<Rightarrow> ShipshapeContext \<Rightarrow> string \<Rightarrow> string \<Rightarrow> exec_error option \<Rightarrow> 'w \<Rightarrow> string + Note list" where
  "lint_result env ctx prj name err w =
     (case err of
        None \<Rightarrow> Inr []
      | Some (ExitError e) \<Rightarrow>
          if e \<noteq> exitStatus then Inl (''Unexpected error code from android lint: '' @ e)
          else (case read_all (ReadFile (le_os env) name w) of
                  Inl xmlErr \<Rightarrow> Inl (''could not read '' @ name @ '' : '' @ xmlErr)
                | Inr data \<Rightarrow> (case le_xml env data of
                    Inl xmlErr \<Rightarrow> Inl (''could not unmarshal XML from '' @ name @ '': '' @ xmlErr)
                  | Inr issues \<Rightarrow> Inr (map (lint_note ctx prj) issues)))
      | Some e \<Rightarrow> Inl (exec_error_text e))"

text \<open>The loop over the projects: the notes, the error, and the reports made, the last one first,
  which is the order the deferred calls remove them in.\<close>

fun lint_projects ::
  "'w lint_env \<Rightarrow> ShipshapeContext \<Rightarrow> string list \<Rightarrow> Note list \<Rightarrow> string list \<Rightarrow> 'w
     \<Rightarrow> analysis \<times> string list \<times> 'w" where
  "lint_projects env ctx [] nts temps w = ((nts, None), temps, w)"
| "lint_projects env ctx (prj # prjs) nts temps w =
     (case le_tempfile env report w of
        (Inl err, w1) \<Rightarrow> ((nts, Some (''Could not create temp report file '' @ report @ '': '' @ err)), temps, w1)
      | (Inr name, w1) \<Rightarrow>
          (case CombinedOutput (le_os env)
                  [lintBin, ''--showall'', ''--quiet'', ''--exitcode'', ''--xml'', name, prj] w1 of
             ((out, err), w2) \<Rightarrow>
               (case lint_result env ctx prj name err w2 of
                  Inl e \<Rightarrow> ((nts, Some e), name # temps, w2)
                | Inr ns \<Rightarrow> lint_projects env ctx prjs (nts @ ns) (name # temps) w2)))"

definition androidlint_Analyze :: "'w lint_env \<Rightarrow> ShipshapeContext \<Rightarrow> 'w \<Rightarrow> (analysis \<times> 'w) go" where
  "androidlint_Analyze env ctx w =
     (case getAndroidProjects env (ctx_file_path ctx) w [] of
        None \<Rightarrow> Panic ''getProject does not return''
      | Some projects \<Rightarrow>
          (case lint_projects env ctx (le_projects env (keys projects)) [] [] w of (r, temps, w1) \<Rightarrow>
             Ret (r, fold (\<lambda>f w. snd (RemoveFile (le_os env) f w)) temps w1)))"

definition AndroidLintAnalyzer :: "'w lint_env \<Rightarrow> 'w analyzer" where
  "AndroidLintAnalyzer env = \<lparr>an_Category = androidlint_category, an_Analyze = androidlint_Analyze env\<rparr>"

text \<open>\<open>main\<close> of \<open>service.go\<close>: the service it serves.\<close>

definition androidlint_service :: "'w lint_env \<Rightarrow> 'w analyzerService" where
  "androidlint_service env = CreateAnalyzerService [AndroidLintAnalyzer env] Stage_PRE_BUILD"

subsection \<open>A project is found\<close>

text \<open>What makes the search end: the root and the working directory are directories.\<close>

definition roots_are_dirs :: "'w lint_env \<Rightarrow> bool" where
  "roots_are_dirs env \<longleftrightarrow> (\<forall>w d. le_stat env ''.'' w = Inr d \<longrightarrow> d) \<and> (\<forall>w d. le_stat env ''/'' w = Inr d \<longrightarrow> d)"

definition android_dir :: "'w lint_env \<Rightarrow> string \<Rightarrow> 'w \<Rightarrow> bool" where
  "android_dir env path w \<longleftrightarrow> le_stat env path w = Inr True \<and> isAndroidRoot env path w"

text \<open>The ancestor of a path at depth \<open>n\<close>, the path itself at its full depth.\<close>

definition ancestor :: "string \<Rightarrow> nat \<Rightarrow> string" where
  "ancestor path n = render (IsAbs path) (take n (elems path))"

lemma ancestor_all: "ancestor path (length (elems path)) = Clean path"
  by (simp add: ancestor_def Clean_render)

lemma normal_take: "normal rooted es \<Longrightarrow> normal rooted (take n es)"
  by (induction es arbitrary: n) (auto simp: take_Cons' list_all_iff dest: in_set_takeD split: if_splits)

lemma Dir_ancestor:
  assumes "n < length (elems path)"
  shows "Dir (ancestor path (Suc n)) = ancestor path n"
proof -
  have "take (Suc n) (elems path) = take n (elems path) @ [elems path ! n]"
    using assms by (rule take_Suc_conv_app_nth)
  then show ?thesis
    using normal_take [OF normal_elems, of path "Suc n"] Dir_render by (simp add: ancestor_def)
qed

lemma ancestor_0: "ancestor path 0 = ''.'' \<or> ancestor path 0 = ''/''"
  by (simp add: ancestor_def render_def)

text \<open>The search from depth \<open>n\<close>.\<close>

lemma getProject_from:
  assumes "roots_are_dirs env" "n \<le> length (elems path)"
  shows "\<exists>r. getProject env (ancestor path n) w = Some r
    \<and> (snd r \<longrightarrow> (\<exists>k \<le> n. fst r = ancestor path k \<and> android_dir env (fst r) w
         \<and> (\<forall>m. k < m \<and> m \<le> n \<longrightarrow> \<not> android_dir env (ancestor path m) w)))
    \<and> (\<not> snd r \<longrightarrow> (\<exists>k \<le> n. (k = 0 \<or> (\<exists>err. le_stat env (ancestor path k) w = Inl err))
         \<and> (\<forall>m. k \<le> m \<and> m \<le> n \<longrightarrow> \<not> android_dir env (ancestor path m) w)))"
  using assms(2)
proof (induction n)
  case 0
  have d: "le_stat env (ancestor path 0) w = Inr d \<Longrightarrow> d" for d
    using assms(1) ancestor_0 [of path] unfolding roots_are_dirs_def by metis
  show ?case
    using d ancestor_0 [of path] by (subst getProject.simps) (auto simp: android_dir_def split: sum.splits)
next
  case (Suc n)
  let ?p = "ancestor path (Suc n)"
  show ?case
  proof (cases "le_stat env ?p w")
    case (Inl err)
    then show ?thesis by (subst getProject.simps) (auto simp: android_dir_def intro!: exI [of _ "Suc n"])
  next
    case (Inr isDir)
    show ?thesis
    proof (cases "isDir \<and> (isAndroidRoot env ?p w \<or> ?p = ''.'' \<or> ?p = ''/'')")
      case True
      show ?thesis
      proof (cases "isAndroidRoot env ?p w")
        case android: True
        with True Inr show ?thesis by (subst getProject.simps) (auto simp: android_dir_def intro!: exI [of _ "Suc n"])
      next
        case False
        have "take (Suc n) (elems path) \<noteq> []" using Suc.prems by auto
        then have "elems ?p \<noteq> []"
          using elems_render [OF normal_take [OF normal_elems]] by (simp add: ancestor_def)
        moreover have "elems ''.'' = []" "elems ''/'' = []" by code_simp+
        ultimately show ?thesis using True False by metis
      qed
    next
      case False
      then have g: "getProject env ?p w = getProject env (ancestor path n) w"
        using Inr Dir_ancestor [of n path] Suc.prems by (subst getProject.simps) auto
      have "\<not> android_dir env ?p w" using False Inr by (auto simp: android_dir_def)
      with Suc show ?thesis unfolding g by (auto simp: le_Suc_eq) (metis le_SucI le_Suc_eq)+
    qed
  qed
qed

text \<open>C21: going up from a file ends, where the root and the working directory are directories; it
  finds the nearest directory above the file, or the file itself when it is one, that holds a
  manifest, or nothing when there is none as far up as the file system answers.\<close>

theorem getProject_nearest:
  assumes "roots_are_dirs env"
  shows "\<exists>r. getProject env (Clean path) w = Some r
    \<and> (snd r \<longrightarrow> (\<exists>k \<le> length (elems path). fst r = ancestor path k \<and> android_dir env (fst r) w
         \<and> (\<forall>m. k < m \<and> m \<le> length (elems path) \<longrightarrow> \<not> android_dir env (ancestor path m) w)))
    \<and> (\<not> snd r \<longrightarrow> (\<exists>k \<le> length (elems path). (k = 0 \<or> (\<exists>err. le_stat env (ancestor path k) w = Inl err))
         \<and> (\<forall>m. k \<le> m \<and> m \<le> length (elems path) \<longrightarrow> \<not> android_dir env (ancestor path m) w)))"
  using getProject_from [OF assms order_refl, of path w] by (simp only: ancestor_all)

subsection \<open>The reports\<close>

text \<open>What the operating system promises of a set of files \<open>files w\<close>: a temporary file is new,
  removing a file removes it, and running lint adds and removes none.\<close>

definition temp_laws :: "'w lint_env \<Rightarrow> ('w \<Rightarrow> string set) \<Rightarrow> bool" where
  "temp_laws env files \<longleftrightarrow>
     (\<forall>p w err w1. le_tempfile env p w = (Inl err, w1) \<longrightarrow> files w1 = files w)
     \<and> (\<forall>p w name w1. le_tempfile env p w = (Inr name, w1) \<longrightarrow> name \<notin> files w \<and> files w1 = insert name (files w))
     \<and> (\<forall>argv w. files (snd (CombinedOutput (le_os env) argv w)) = files w)
     \<and> (\<forall>f w. files (snd (RemoveFile (le_os env) f w)) = files w - {f})"

lemma temp_lawsD:
  assumes "temp_laws env files"
  shows "le_tempfile env p w = (Inl err, w1) \<Longrightarrow> files w1 = files w"
    "le_tempfile env p w = (Inr name, w1) \<Longrightarrow> name \<notin> files w \<and> files w1 = insert name (files w)"
    "CombinedOutput (le_os env) argv w = (out, w1) \<Longrightarrow> files w1 = files w"
    "files (snd (RemoveFile (le_os env) f w)) = files w - {f}"
proof -
  note L = assms [unfolded temp_laws_def]
  show "le_tempfile env p w = (Inl err, w1) \<Longrightarrow> files w1 = files w"
    by (rule L [THEN conjunct1, rule_format])
  show "le_tempfile env p w = (Inr name, w1) \<Longrightarrow> name \<notin> files w \<and> files w1 = insert name (files w)"
    by (rule L [THEN conjunct2, THEN conjunct1, rule_format])
  show "CombinedOutput (le_os env) argv w = (out, w1) \<Longrightarrow> files w1 = files w"
    using L [THEN conjunct2, THEN conjunct2, THEN conjunct1, rule_format, of argv w] by simp
  show "files (snd (RemoveFile (le_os env) f w)) = files w - {f}"
    by (rule L [THEN conjunct2, THEN conjunct2, THEN conjunct2, rule_format])
qed

lemma lint_projects_temps:
  assumes "temp_laws env files" "lint_projects env ctx prjs nts temps w = (r, temps', w')"
  shows "\<exists>new. temps' = new @ temps \<and> set new \<inter> files w = {} \<and> files w' = files w \<union> set new"
  using assms(2)
proof (induction prjs arbitrary: nts temps w)
  case (Cons prj prjs)
  note laws = temp_lawsD [OF assms(1)]
  obtain t w1 where t: "le_tempfile env report w = (t, w1)" by fastforce
  show ?case
  proof (cases t)
    case (Inl err)
    then show ?thesis using Cons.prems t laws(1) by auto
  next
    case (Inr name)
    obtain out err w2 where c: "CombinedOutput (le_os env)
        [lintBin, ''--showall'', ''--quiet'', ''--exitcode'', ''--xml'', name, prj] w1 = ((out, err), w2)"
      by (metis prod.collapse)
    have n: "name \<notin> files w" "files w2 = insert name (files w)"
      using laws(2) [OF t [unfolded Inr]] laws(3) [OF c] by simp_all
    show ?thesis
    proof (cases "lint_result env ctx prj name err w2")
      case (Inl e)
      then have "temps' = name # temps \<and> w' = w2" using Cons.prems c by (simp add: t [unfolded \<open>t = Inr name\<close>])
      then show ?thesis using n by (intro exI [of _ "[name]"]) auto
    next
      case (Inr ns)
      then have "lint_projects env ctx prjs (nts @ ns) (name # temps) w2 = (r, temps', w')"
        using Cons.prems c by (simp add: t [unfolded \<open>t = Inr name\<close>])
      from Cons.IH [OF this] obtain new where "temps' = new @ name # temps" "set new \<inter> files w2 = {}"
        "files w' = files w2 \<union> set new" by blast
      then show ?thesis using n by (intro exI [of _ "new @ [name]"]) auto
    qed
  qed
qed auto

lemma remove_all_files:
  assumes "temp_laws env files"
  shows "files (fold (\<lambda>f w. snd (RemoveFile (le_os env) f w)) temps w) = files w - set temps"
  by (induction temps arbitrary: w) (auto simp: temp_lawsD(4) [OF assms])

text \<open>C36: however an analysis ends, short of a panic, no report file is left behind and no other
  file is gone.\<close>

theorem androidlint_leaves_no_report:
  assumes "temp_laws env files" "androidlint_Analyze env ctx w = Ret (r, w')"
  shows "files w' = files w"
proof -
  obtain prjs temps w1 where p: "lint_projects env ctx prjs [] [] w = (r, temps, w1)"
    and w': "w' = fold (\<lambda>f w. snd (RemoveFile (le_os env) f w)) temps w1"
    using assms(2) by (auto simp: androidlint_Analyze_def split: option.splits prod.splits)
  from lint_projects_temps [OF assms(1) p] have "set temps \<inter> files w = {}" "files w1 = files w \<union> set temps"
    by auto
  then show ?thesis unfolding w' remove_all_files [OF assms(1)] by blast
qed

subsection \<open>The service\<close>

lemma getProject_returns: "roots_are_dirs env \<Longrightarrow> \<exists>r. getProject env (Clean path) w = Some r"
  using getProject_from [OF _ order_refl] by (metis ancestor_all)

lemma getAndroidProjects_returns:
  assumes "roots_are_dirs env"
  shows "\<exists>prjs. getAndroidProjects env paths w pPaths = Some prjs"
proof (induction paths arbitrary: pPaths)
  case (Cons path paths)
  obtain r where "getProject env (Clean path) w = Some r" using getProject_returns [OF assms] by blast
  with Cons show ?case by (cases r) simp
qed simp

lemma lint_projects_own:
  "own_notes androidlint_category ctx nts
   \<Longrightarrow> own_notes androidlint_category ctx (fst (fst (lint_projects env ctx prjs nts temps w)))"
proof (induction prjs arbitrary: nts temps w)
  case (Cons prj prjs)
  have "own_notes androidlint_category ctx ns" if "lint_result env ctx prj name err w2 = Inr ns" for name err w2 ns
    using that by (auto simp: lint_result_def lint_note_def own_notes_def
        split: option.splits exec_error.splits if_splits sum.splits)
  with Cons show ?case by (auto split: prod.splits sum.splits)
qed simp

lemma androidlint_contract:
  assumes "roots_are_dirs env"
  shows "analyzer_contract androidlint_category (androidlint_Analyze env)"
proof
  fix ctx w
  show "\<exists>r w'. androidlint_Analyze env ctx w = Ret (r, w')"
    using getAndroidProjects_returns [OF assms, of "ctx_file_path ctx" w "[]"]
    by (auto simp: androidlint_Analyze_def split: prod.splits)
next
  fix ctx w nts err w'
  assume "androidlint_Analyze env ctx w = Ret ((nts, err), w')"
  then obtain prjs temps w1 where "lint_projects env ctx prjs [] [] w = ((nts, err), temps, w1)"
    by (auto simp: androidlint_Analyze_def split: option.splits prod.splits)
  then show "own_notes androidlint_category ctx nts"
    using lint_projects_own [of ctx "[]" env prjs "[]" w] by simp
qed

text \<open>On a repository it can enter, and where the root and the working directory are
  directories, the Android service never panics and returns no error: its notes have the category
  \<open>AndroidLint\<close>, when that was requested, and the source context of the request, its failures name
  that category, and the process is back where it was.\<close>

theorem androidlint_service_tags:
  assumes "areq_context inp = Some ctx" "ctx_repo_root ctx = Some root" "roots_are_dirs env"
    and "Getwd (le_os env) w = Inr d" "Chdir (le_os env) root w = (None, w1)" "returns_home (le_os env)"
  shows "\<exists>resp w'. Analyze (le_os env) (androidlint_service env) inp w = Ret ((resp, None), w')
     \<and> (\<forall>n \<in> set (ar_note resp). n_category n = Some ''AndroidLint'' \<and> ''AndroidLint'' \<in> set (areq_category inp)
          \<and> (\<forall>loc. n_location n = Some loc \<longrightarrow> loc_source_context loc = ctx_source_context ctx))
     \<and> (\<forall>f \<in> set (ar_failure resp). f_category f = Some ''AndroidLint'')
     \<and> Getwd (le_os env) w' = Inr d"
proof -
  have pack: "analyzer_pack [AndroidLintAnalyzer env]"
    using androidlint_contract [OF assms(3)] by (simp add: analyzer_pack_def AndroidLintAnalyzer_def)
  obtain nts errs w2 where r: "run_requested (New (areq_category inp)) ctx [AndroidLintAnalyzer env] ([], []) w1
      = Ret ((nts, errs), w2)"
    and t: "tagged (set (areq_category inp) \<inter> {androidlint_category}) ctx (nts, errs)"
    using analyzer_pack.run_requested_pack [OF pack, of "areq_category inp" ctx w1]
    by (auto simp: AndroidLintAnalyzer_def)
  have "Getwd (le_os env) (snd (Chdir (le_os env) d w2)) = Inr d"
    using assms(4,6) unfolding returns_home_def by blast
  then show ?thesis
    using r t Analyze_inside [OF assms(1,2,4,5), of "androidlint_service env"]
    by (auto simp: androidlint_service_def CreateAnalyzerService_def tagged_def own_notes_def androidlint_category_def)
qed

subsection \<open>A project\<close>

text \<open>The world is the list of the temporary files; \<open>app\<close> is a project with one issue.\<close>

definition fresh_name :: "string \<Rightarrow> string list \<Rightarrow> string" where
  "fresh_name p w = p @ replicate (Suc (sum_list (map length w))) CHR ''0''"

lemma fresh_name_new: "fresh_name p w \<notin> set w"
proof
  assume "fresh_name p w \<in> set w"
  then have "length (fresh_name p w) \<le> sum_list (map length w)"
    by (intro member_le_sum_list) auto
  then show False by (simp add: fresh_name_def)
qed

definition lint_demo :: "string list lint_env" where
  "lint_demo = \<lparr>le_os = \<lparr>Getwd = (\<lambda>w. Inr ''/repo''), Chdir = (\<lambda>d w. (None, w)),
       TempDir = (\<lambda>d p w. (Inl ''not used'', w)), Exec = (\<lambda>argv w. (\<lparr>xr_stdout = [], xr_stderr = [], xr_err = None\<rparr>, w)),
       CombinedOutput = (\<lambda>argv w. (([], Some (ExitError ''exit status 1'')), w)),
       RemoveFile = (\<lambda>f w. (None, removeAll f w)),
       ReadDir = (\<lambda>d w. Inr (if d = ''app'' then [''src'', ''AndroidManifest.xml''] else [])),
       ReadFile = (\<lambda>f w. FileContent ''<issues/>'')\<rparr>,
     le_tempfile = (\<lambda>p w. (Inr (fresh_name p w), fresh_name p w # w)),
     le_stat = (\<lambda>p w. Inr (p \<noteq> ''app/src/A.java'')),
     le_xml = (\<lambda>t. Inr [\<lparr>is_Subcategory = ''NewApi'', is_Message = ''needs API 11'', is_File = ''src/A.java'',
                          is_Line = 3, is_Column = 1\<rparr>]),
     le_projects = (\<lambda>xs. xs)\<rparr>"

lemma lint_demo_laws: "temp_laws lint_demo set" "roots_are_dirs lint_demo" "returns_home (le_os lint_demo)"
proof -
  show "temp_laws lint_demo set"
  proof -
    have "le_tempfile lint_demo p w = (Inr (fresh_name p w), fresh_name p w # w)"
      "CombinedOutput (le_os lint_demo) argv w = (([], Some (ExitError ''exit status 1'')), w)"
      "RemoveFile (le_os lint_demo) f w = (None, removeAll f w)" for p w argv f
      by (simp_all add: lint_demo_def)
    then show ?thesis by (simp add: temp_laws_def fresh_name_new)
  qed
  show "roots_are_dirs lint_demo" by (simp add: roots_are_dirs_def lint_demo_def)
  show "returns_home (le_os lint_demo)" by (simp add: returns_home_def lint_demo_def)
qed

theorem getProject_nearest_witness:
  "getProject lint_demo (Clean ''app/src/A.java'') [] = Some (''app'', True)"
proof -
  have e: "elems ''app/src/A.java'' = [''app'', ''src'', ''A.java'']" "\<not> IsAbs ''app/src/A.java''" by code_simp+
  have l: "length (elems ''app/src/A.java'') = 3" by (simp add: e)
  obtain r where r: "getProject lint_demo (Clean ''app/src/A.java'') [] = Some r"
    and y: "snd r \<longrightarrow> (\<exists>k \<le> 3. fst r = ancestor ''app/src/A.java'' k \<and> android_dir lint_demo (fst r) []
         \<and> (\<forall>m. k < m \<and> m \<le> 3 \<longrightarrow> \<not> android_dir lint_demo (ancestor ''app/src/A.java'' m) []))"
    and n: "\<not> snd r \<longrightarrow> (\<exists>k \<le> 3. (k = 0 \<or> (\<exists>err. le_stat lint_demo (ancestor ''app/src/A.java'' k) [] = Inl err))
         \<and> (\<forall>m. k \<le> m \<and> m \<le> 3 \<longrightarrow> \<not> android_dir lint_demo (ancestor ''app/src/A.java'' m) []))"
    using getProject_nearest [OF lint_demo_laws(2), of "''app/src/A.java''" "[]", unfolded l]
    by (elim exE conjE) (rule that)
  have a: "android_dir lint_demo p [] \<longleftrightarrow> p = ''app''" for p
    by (auto simp: android_dir_def isAndroidRoot_def lint_demo_def androidManifest_def)
  have "ancestor ''app/src/A.java'' 1 = ''app''" using e by (simp add: ancestor_def render_def)
  moreover have "le_stat lint_demo p [] \<noteq> Inl err" for p err by (simp add: lint_demo_def)
  ultimately have "snd r" using n by (auto simp: a dest: spec [of _ 1])
  then show ?thesis using r y by (auto simp: a) (metis prod.collapse)
qed

theorem androidlint_leaves_no_report_witness:
  "\<exists>r w'. androidlint_Analyze lint_demo (empty_context\<lparr>ctx_file_path := [''app/src/A.java'']\<rparr>) [''old''] = Ret (r, w')
     \<and> set w' = {''old''}"
proof -
  obtain r w' where r: "androidlint_Analyze lint_demo (empty_context\<lparr>ctx_file_path := [''app/src/A.java'']\<rparr>) [''old''] = Ret (r, w')"
    using analyzer_contract.returns [OF androidlint_contract [OF lint_demo_laws(2)]] by blast
  then show ?thesis using androidlint_leaves_no_report [OF lint_demo_laws(1) r] by auto
qed

theorem androidlint_service_tags_witness:
  "\<exists>resp w'. Analyze (le_os lint_demo) (androidlint_service lint_demo) (a_request [''AndroidLint'']) [] = Ret ((resp, None), w')
     \<and> (\<forall>f \<in> set (ar_failure resp). f_category f = Some ''AndroidLint'')"
  using androidlint_service_tags [OF _ _ lint_demo_laws(2) _ _ lint_demo_laws(3), of "a_request [''AndroidLint'']"
      "empty_context\<lparr>ctx_repo_root := Some ''/repo''\<rparr>" "''/repo''" "[]" "''/repo''" "[]"]
  by (auto simp: a_request_def lint_demo_def)

end
