(* ===== verification/Tools.thy ===== *)
theory Tools
  imports Client FileUtil
begin

text \<open>
  Four small programs over the libraries: \<open>tools/cloudfs/copy_cloud_repo.go\<close>,
  \<open>shipshape/util/rpc/tools/unwrap_results.go\<close>, \<open>shipshape/util/kindex/kindex.go\<close> and \<open>shipshape/util/rpc/client/example.go\<close>.  A program that ends by \<open>log.Fatal\<close> has the
  text as its second component.
\<close>

definition copy_cloud_main ::
  "'w os \<Rightarrow> (string \<Rightarrow> string + string) \<Rightarrow> string \<Rightarrow> string \<Rightarrow> string \<Rightarrow> 'w
     \<Rightarrow> ((string \<times> string option) \<times> 'w) go" where
  "copy_cloud_main os json projectName hash copyLocation w =
     (if projectName = [] \<or> hash = []
      then Ret (([], Some ''Need to specify projectName and hash flags for a Cloud repo''), w)
      else go_bind (CopyCloudRepo os json projectName hash copyLocation w) (\<lambda>(res, w1).
        Ret (case res of
            Inl err \<Rightarrow> ([], Some (''Could not copy down Cloud repo: '' @ err))
          | Inr loc \<Rightarrow> (''COPY_LOCATION:'' @ loc @ [CHR_nl], None), w1)))"

text \<open>The callback prints the raw result, which stays empty until one was read, and stops the program
  at an error.\<close>

type_synonym unwrap_state = "string list \<times> string option"

definition unwrap_callback ::
  "(json \<Rightarrow> string) \<Rightarrow> json option \<Rightarrow> raw \<Rightarrow> Error option \<Rightarrow> bool \<Rightarrow> unwrap_state \<Rightarrow> bool \<times> unwrap_state" where
  "unwrap_callback text result i err ended st = (case st of (out, fatal) \<Rightarrow>
     (case err of
        Some e \<Rightarrow> (False, (out, Some (''Error in response stream: '' @ Error_Error e)))
      | None \<Rightarrow> (True, (if \<not> ended then out @ [case result of None \<Rightarrow> [] | Some j \<Rightarrow> text j] else out, fatal))))"

definition unwrap_results :: "(raw \<Rightarrow> string) \<Rightarrow> (json \<Rightarrow> string) \<Rightarrow> contents \<Rightarrow> unwrap_state" where
  "unwrap_results text_of text input =
     (case Receive text_of Inr (unwrap_callback text) (NewPipeReader input) ([], None) of
        (err, (out, Some fatal)) \<Rightarrow> (out, Some fatal)
      | (Some err, (out, None)) \<Rightarrow> (out, Some (''RPC error: '' @ err))
      | (None, (out, None)) \<Rightarrow> (out, None))"

text \<open>\<open>kindex\<close> prints what the library that reads such a file makes of it.\<close>

definition kindex_main :: "(string \<Rightarrow> string + 'i) \<Rightarrow> ('i \<Rightarrow> string) \<Rightarrow> string \<Rightarrow> string" where
  "kindex_main Open show_info file = (case Open file of
     Inl err \<Rightarrow> ''Could not open kindex file: '' @ err
   | Inr info \<Rightarrow> ''File parsed'' @ [CHR_nl] @ show_info info)"

subsection \<open>Unwrapping what a server streams\<close>

lemma Receive_results:
  assumes "valid_id (rq_id req)"
  shows "Receive text_of Inr (unwrap_callback text)
      (map (\<lambda>j. Value (encode_response (stamp req (result_response j)))) outs @ dec) (out, None)
    = Receive text_of Inr (unwrap_callback text) dec (out @ map text outs, None)"
proof (induction outs arbitrary: out)
  case (Cons j outs)
  have "CheckID text_of (rs_id (stamp req (result_response j))) = None"
    using assms by (simp add: stamp_def CheckID_None_iff)
  with Cons show ?case
    by (simp add: decode_stamped unwrap_callback_def)
      (simp add: stamp_def result_response_def empty_response_def unmarshal_raw_def)
qed simp

text \<open>C35: what a server answers to one streaming request over a pipe, \<open>unwrap_results\<close> prints as
  the results of the method, one per line and in order, and it ends well exactly when the method
  returned without an error, and otherwise with that error.\<close>

theorem unwrap_end_to_end:
  assumes "reliable en" "sk_sent en = []" "reaches e req m" "m_Stream m" "rq_version req = Version2Streaming"
    and "run_method m ctx (rq_params req) w = (outs, fin, w1)" "fin_in_range fin"
  shows "\<exists>en'. handleRequest e text_of ctx (Value (encode_request req)) en w = (Handled None, en', w1)
    \<and> unwrap_results text_of text (encoded (sk_sent en'), None) =
        (map text outs, if fin = Returns None then None
                        else Some (''Error in response stream: '' @ Error_Error (end_error fin)))"
proof -
  have v: "valid_id (rq_id req)" using assms(3) by (simp add: reaches_def)
  let ?rs = "map (stamp req) (method_answer Version2Streaming True outs fin)"
  have h: "handleRequest e text_of ctx (Value (encode_request req)) en w
      = (Handled None, en\<lparr>sk_sent := map encode_response ?rs\<rparr>, w1)"
    using handleRequest_method [OF assms(1,3,6), of text_of] assms(2,4,5,7) by (simp add: comp_def fin_in_range_def)
  let ?last = "if fin = Returns None then success_response else error_response (end_error fin)"
  have sent: "NewPipeReader (encoded (map encode_response ?rs), None)
      = map (\<lambda>j. Value (encode_response (stamp req (result_response j)))) outs @ [Value (encode_response (stamp req ?last))]"
    unfolding NewPipeReader_def decoded_encoded by (simp add: method_answer_def)
  have id: "CheckID text_of (rs_id (stamp req r)) = None" for r
    using v by (simp add: stamp_def CheckID_None_iff)
  have "Receive text_of Inr (unwrap_callback text) [Value (encode_response (stamp req ?last))] (map text outs, None)
      = (None, (map text outs, if fin = Returns None then None
                        else Some (''Error in response stream: '' @ Error_Error (end_error fin))))"
    using id decode_stamped(2) [of req] decode_stamped(3) [of "end_error fin" req] assms(7)
    by (cases "fin = Returns None")
      (simp_all add: fin_in_range_def unwrap_callback_def,
       simp_all add: stamp_def success_response_def error_response_def empty_response_def)
  then have "unwrap_results text_of text (encoded (map encode_response ?rs), None) =
      (map text outs, if fin = Returns None then None
                      else Some (''Error in response stream: '' @ Error_Error (end_error fin)))"
    unfolding unwrap_results_def sent Receive_results [OF v] by simp
  then show ?thesis using h by simp
qed

theorem unwrap_end_to_end_witness:
  "\<exists>en'. handleRequest an_endpoint (\<lambda>r. []) [] (Value (encode_request (echo_request Version2Streaming (JInt 5)))) a_sink ()
      = (Handled None, en', ())
    \<and> unwrap_results (\<lambda>r. []) json_text (encoded (sk_sent en'), None) = ([''5'', ''5''], None)"
proof -
  have "m_Stream (echo_impl True)" "rq_version (echo_request Version2Streaming (JInt 5)) = Version2Streaming"
    "rq_params (echo_request Version2Streaming (JInt 5)) = Some (JInt 5)" "sk_sent a_sink = []"
    by (simp_all add: echo_impl_def echo_request_def a_sink_def)
  moreover have "fin_in_range (Returns None)"
    by (simp add: fin_in_range_def end_error_def code_in_range_def empty_error_def)
  moreover have "json_text (JInt 5) = ''5''" by code_simp
  ultimately show ?thesis
    using unwrap_end_to_end [OF reliable_a_sink _ echo_reaches, of "JInt 5" "[]" "()" "[JInt 5, JInt 5]" "Returns None" "()" "\<lambda>r. []" json_text]
    by (simp add: echo_run)
qed

subsection \<open>The example client\<close>

text \<open>
  \<open>shipshape/util/rpc/client/example.go\<close>: the program waits until the server is ready, and then prints the
  result of one call, or the results of one stream, as the raw JSON that came.  The loop over the
  stream starts every round with an empty value.
\<close>

function print_results :: "(json \<Rightarrow> string) \<Rightarrow> string list \<Rightarrow> Reader \<Rightarrow> (string list \<times> string option) go" where
  "print_results text out rd =
     (case NextResult Inr rd of
        Panic m \<Rightarrow> Panic m
      | Ret ((v, Some err), rd1) \<Rightarrow> Ret (out, if err = EOF then None else Some (client_error_text err))
      | Ret ((v, None), rd1) \<Rightarrow> print_results text (out @ [case v of None \<Rightarrow> [] | Some j \<Rightarrow> text j]) rd1)"
  by pat_completeness auto
termination
  by (relation "measure (\<lambda>(text, out, rd). stream_left rd)") (auto dest: NextResult_consumes)

declare print_results.simps [simp del]

record example_flags =
  ex_waitDuration :: int
  ex_legacyCall :: bool

definition example_main ::
  "'t clock \<Rightarrow> 't transport \<Rightarrow> (json \<Rightarrow> string) \<Rightarrow> example_flags \<Rightarrow> string \<Rightarrow> string + json \<Rightarrow> 't
     \<Rightarrow> ((string list \<times> string option) go \<times> 't) option" where
  "example_main clk tr text fl serviceMethod params t =
     (case WaitUntilReady clk (ex_waitDuration fl) t of
        None \<Rightarrow> None
      | Some (Some err, t1) \<Rightarrow> Some (Ret ([], Some err), t1)
      | Some (None, t1) \<Rightarrow>
          Some (if ex_legacyCall fl then
              (case Call tr Inr serviceMethod params t1 of (res, t2) \<Rightarrow>
                 (go_bind res (\<lambda>r. Ret (case r of
                    Inl err \<Rightarrow> ([], Some (client_error_text err))
                  | Inr v \<Rightarrow> ([case v of None \<Rightarrow> [] | Some j \<Rightarrow> text j], None))), t2))
            else
              (case Stream tr serviceMethod params t1 of (rd, t2) \<Rightarrow> (print_results text [] rd, t2))))"

lemma print_results_stream:
  assumes "rq_version req = Version2Streaming" "code_in_range er"
  shows "print_results text out
      \<lparr>rd_dec = Ret (map (\<lambda>r. Value (encode_response (stamp req r)))
         (map result_response outs @ [if fine then success_response else error_response er])), rd_err = None\<rparr>
    = Ret (out @ map text outs, if fine then None else Some (Error_Error er))"
  using assms
  by (induction outs arbitrary: out; subst print_results.simps) (simp_all add: NextResult_stamped)

text \<open>Against a server of this library that became ready, the example prints what the method sends, a
  result per line and in order, and it ends well exactly when the method returned without an error.\<close>

lemma example_end_to_end:
  assumes "WaitUntilReady clk (ex_waitDuration fl) t = Some (None, t1)"
    and "codecs_ok c" "fin_in_range fin"
    and "reaches e (client_request (if ex_legacyCall fl then Version2 else Version2Streaming) (ht_id t1) path j) m"
    and "ex_legacyCall fl \<noteq> m_Stream m"
    and "run_method m client_header (Some j) (ht_net t1) = (outs, fin, w1)"
  shows "example_main clk (http_transport (server_network e text_of c)) text fl path (Inr j) t =
    Some (Ret (if ex_legacyCall fl \<and> fin \<noteq> Returns None then [] else map text outs,
        if fin = Returns None then None else Some (Error_Error (end_error fin))),
      t1\<lparr>ht_id := ht_id t1 + 1, ht_net := w1\<rparr>)"
proof (cases "ex_legacyCall fl")
  case True
  then have runs: "server_runs e c Version2 path j t1 False outs fin (t1\<lparr>ht_id := ht_id t1 + 1, ht_net := w1\<rparr>)"
    using assms unfolding server_runs_def by auto
  have "length outs = 1" if "fin = Returns None" using http.one_result runs that by blast
  then show ?thesis
    using http.call_result [OF runs, of text_of] assms(1) True
    by (auto simp: example_main_def length_Suc_conv)
next
  case False
  let ?tr = "http_transport (server_network e text_of c)"
  have reach: "reaches e (client_request Version2Streaming (ht_id t1) path j) m" and st: "m_Stream m"
    using assms(4,5) False by simp_all
  have v: "rq_version (client_request Version2Streaming (ht_id t1) path j) = Version2Streaming"
    by (simp add: client_request_def)
  have "Stream ?tr path (Inr j) t1 = (\<lparr>rd_dec = Ret (map (\<lambda>r. Value (encode_response
      (stamp (client_request Version2Streaming (ht_id t1) path j) r))) (map result_response outs
        @ [if fin = Returns None then success_response else error_response (end_error fin)])), rd_err = None\<rparr>,
      t1\<lparr>ht_id := ht_id t1 + 1, ht_net := w1\<rparr>)"
    using SendRequest_server [OF assms(2) reach assms(6), of text_of] st assms(3)
    by (simp add: Stream_def method_answer_def fin_in_range_def)
  then show ?thesis
    using print_results_stream [OF v assms(3) [unfolded fin_in_range_def, THEN conjunct2], of "text" "[]" outs "fin = Returns None"]
      assms(1) False by (simp add: example_main_def)
qed

text \<open>The program ends, if it has a deadline.\<close>

lemma example_returns:
  assumes "clock_ok clk" "ex_waitDuration fl > 0"
  shows "example_main clk tr text fl path params t \<noteq> None"
  using wait_loop_returns [OF assms, of firstInterval "Now clk t" None t]
  by (auto simp: example_main_def WaitUntilReady_def firstInterval_def split: option.splits)

end
