(* ===== verification/Delimited.thy ===== *)
theory Delimited
  imports Prelude "HOL-Library.Word"
begin

unbundle bit_operations_syntax

text \<open>
  \<open>shipshape/util/delimited/delimited.go\<close>: streams of records, each a length in base 128 and
  that many bytes.  Lengths are unsigned 64-bit words, bytes are 8-bit words.
\<close>

type_synonym bytes = "8 word list"

subsection \<open>Lengths in base 128\<close>

text \<open>\<open>binary.PutUvarint\<close>: the low seven bits first, the top bit set on all bytes but the last.\<close>

function PutUvarint :: "64 word \<Rightarrow> bytes" where
  "PutUvarint x = (if x \<ge> 0x80 then (ucast x OR 0x80) # PutUvarint (drop_bit 7 x) else [ucast x])"
  by pat_completeness auto
termination
proof (relation "measure unat")
  fix x :: "64 word" assume "x \<ge> 0x80"
  then have "unat x \<ge> 128" by (simp add: word_le_nat_alt)
  then show "(drop_bit 7 x, x) \<in> measure unat" by (simp add: drop_bit_eq_div unat_div)
qed simp

declare PutUvarint.simps [simp del]

datatype read_error = ReadEOF | UnexpectedEOF | Overflow | Failed string

text \<open>\<open>binary.ReadUvarint\<close>: the \<open>i\<close>-th byte is shifted by \<open>s\<close>.  \<open>eof\<close> is how the input
  ends: \<open>io.EOF\<close> or another error.\<close>

fun read_uvarint :: "read_error \<Rightarrow> nat \<Rightarrow> nat \<Rightarrow> 64 word \<Rightarrow> bytes \<Rightarrow> (read_error + 64 word) \<times> bytes" where
  "read_uvarint eof i s x [] = (Inl eof, [])"
| "read_uvarint eof i s x (b # bs) =
     (if b < 0x80 then
        (if i > 9 \<or> i = 9 \<and> b > 1 then (Inl Overflow, bs)
         else (Inr (x OR push_bit s (ucast b)), bs))
      else read_uvarint eof (i + 1) (s + 7) (x OR push_bit s (ucast (b AND 0x7F))) bs)"

definition ReadUvarint :: "read_error \<Rightarrow> bytes \<Rightarrow> (read_error + 64 word) \<times> bytes" where
  "ReadUvarint eof bs = read_uvarint eof 0 0 0 bs"

subsection \<open>Reading records\<close>

text \<open>
  The reader: the bytes still to come and how they end, the capacity of the slice it keeps, and
  the most bytes the machine lets it allocate.
\<close>

record Reader =
  r_buf :: bytes
  r_end :: read_error
  r_cap :: int
  r_alloc :: int

definition NewReader :: "bytes \<Rightarrow> read_error \<Rightarrow> int \<Rightarrow> Reader" where
  "NewReader bs eof alloc = \<lparr>r_buf = bs, r_end = eof, r_cap = 0, r_alloc = alloc\<rparr>"

text \<open>\<open>io.ReadFull\<close> of \<open>n\<close> bytes.\<close>

definition ReadFull :: "nat \<Rightarrow> bytes \<Rightarrow> read_error \<Rightarrow> (read_error + bytes) \<times> bytes" where
  "ReadFull n bs eof =
     (if n \<le> length bs then (Inr (take n bs), drop n bs)
      else (Inl (if bs \<noteq> [] \<and> eof = ReadEOF then UnexpectedEOF else eof), []))"

definition Next :: "Reader \<Rightarrow> ((read_error + bytes) \<times> Reader) go" where
  "Next r =
     (case ReadUvarint (r_end r) (r_buf r) of
        (Inl err, rest) \<Rightarrow> Ret (Inl err, r\<lparr>r_buf := rest\<rparr>)
      | (Inr sz, rest) \<Rightarrow>
          let data =
            (if r_cap r < sint sz then
               (if r_alloc r < uint sz then Panic ''makeslice: len out of range'' else Ret (uint sz))
             else if r_cap r < uint sz then Panic ''slice bounds out of range''
             else Ret (r_cap r))
          in go_bind data (\<lambda>cap.
             case ReadFull (unat sz) rest (r_end r) of
               (Inl err, rest2) \<Rightarrow> Ret (Inl err, r\<lparr>r_buf := rest2, r_cap := cap\<rparr>)
             | (Inr rec, rest2) \<Rightarrow> Ret (Inr rec, r\<lparr>r_buf := rest2, r_cap := cap\<rparr>)))"

text \<open>Decoding a record into a message: \<open>unmarshal\<close> is \<open>proto.Unmarshal\<close>.\<close>

definition NextProto ::
  "(bytes \<Rightarrow> string + 'm) \<Rightarrow> Reader \<Rightarrow> ((read_error + string + 'm) \<times> Reader) go" where
  "NextProto unmarshal r = go_bind (Next r) (\<lambda>(res, r1).
     case res of Inl err \<Rightarrow> Ret (Inl err, r1) | Inr rec \<Rightarrow> Ret (Inr (unmarshal rec), r1))"

subsection \<open>Writing records\<close>

text \<open>The underlying \<open>io.Writer\<close>: the bytes it took and the error, on its state.\<close>

type_synonym 'w io_writer = "bytes \<Rightarrow> 'w \<Rightarrow> (nat \<times> string option) \<times> 'w"

definition Write :: "'w io_writer \<Rightarrow> bytes \<Rightarrow> 'w \<Rightarrow> (nat \<times> string option) \<times> 'w" where
  "Write wr rcd w =
     (case wr (PutUvarint (of_nat (length rcd))) w of
        ((_, Some err), w1) \<Rightarrow> ((0, Some err), w1)
      | ((nw, None), w1) \<Rightarrow>
          (case wr rcd w1 of
             ((_, Some err), w2) \<Rightarrow> ((nw, Some err), w2)
           | ((dw, None), w2) \<Rightarrow> ((nw + dw, None), w2)))"

definition Put :: "'w io_writer \<Rightarrow> bytes \<Rightarrow> 'w \<Rightarrow> string option \<times> 'w" where
  "Put wr rcd w = (case Write wr rcd w of ((_, err), w1) \<Rightarrow> (err, w1))"

definition PutProto :: "('m \<Rightarrow> string + bytes) \<Rightarrow> 'w io_writer \<Rightarrow> 'm \<Rightarrow> 'w \<Rightarrow> string option \<times> 'w" where
  "PutProto marshal wr msg w =
     (case marshal msg of
        Inl err \<Rightarrow> (Some (''error encoding proto: '' @ err), w)
      | Inr rec \<Rightarrow> Put wr rec w)"

subsection \<open>The round trip of a length\<close>

lemma low_byte:
  fixes x :: "64 word"
  shows "ucast ((ucast x OR 0x80 :: 8 word) AND 0x7F) = x AND 0x7F"
    and "\<not> (ucast x OR 0x80 :: 8 word) < 0x80"
proof -
  show "ucast ((ucast x OR 0x80 :: 8 word) AND 0x7F) = x AND 0x7F"
    by (rule bit_word_eqI)
      (auto simp: bit_simps bit_numeral_rec(1) less_Suc_eq numeral_eq_Suc elim!: less_SucE)
  have "bit (ucast x OR 0x80 :: 8 word) 7" by (simp add: bit_simps)
  then have "128 \<le> unat (ucast x OR 0x80 :: 8 word)"
    using bit_iff_odd [of "unat (ucast x OR 0x80 :: 8 word)" 7]
    by (cases "unat (ucast x OR 0x80 :: 8 word) < 128") (auto simp: bit_unsigned_iff)
  then show "\<not> (ucast x OR 0x80 :: 8 word) < 0x80" by (simp add: word_less_nat_alt)
qed


lemma varint_step:
  fixes x :: "64 word"
  shows "push_bit s (x AND 0x7F) OR push_bit (s + 7) (drop_bit 7 x) = push_bit s x"
proof (rule bit_word_eqI)
  have low: "x AND 0x7F = take_bit 7 x"
    by (simp add: take_bit_eq_mask mask_eq_exp_minus_1)
  fix n
  assume n: "n < LENGTH(64)"
  have "bit (push_bit s (take_bit 7 x) OR push_bit (s + 7) (drop_bit 7 x)) n = bit (push_bit s x) n"
  proof (cases "s + 7 \<le> n")
    case True
    then have "7 + (n - (s + 7)) = n - s" by simp
    with True n show ?thesis by (auto simp: bit_simps)
  qed (use n in \<open>auto simp: bit_simps\<close>)
  then show "bit (push_bit s (x AND 0x7F) OR push_bit (s + 7) (drop_bit 7 x)) n = bit (push_bit s x) n"
    unfolding low .
qed

lemma read_uvarint_put:
  assumes "s = 7 * i" "i \<le> 9" "unat x < 2 ^ (64 - s)"
  shows "read_uvarint eof i s acc (PutUvarint x @ rest) = (Inr (acc OR push_bit s x), rest)"
  using assms
proof (induction x arbitrary: i s acc rule: PutUvarint.induct)
  case (1 x)
  show ?case
  proof (cases "x \<ge> 0x80")
    case True
    then have ge: "unat x \<ge> 128" by (simp add: word_le_nat_alt)
    have i: "i < 9"
    proof (rule ccontr)
      assume "\<not> i < 9"
      with 1 have "unat x < 2" by simp
      with ge show False by simp
    qed
    then have s7: "64 - s = 7 + (64 - (s + 7))" using 1(2) by simp
    have "unat x < 2 ^ (7 + (64 - (s + 7)))" using 1(4) unfolding s7 .
    then have "unat x < 128 * 2 ^ (64 - (s + 7))" unfolding power_add by simp
    then have "unat (drop_bit 7 x) < 2 ^ (64 - (s + 7))"
      by (simp add: drop_bit_eq_div unat_div less_mult_imp_div_less mult.commute)
    then have "read_uvarint eof (i + 1) (s + 7) a (PutUvarint (drop_bit 7 x) @ rest)
        = (Inr (a OR push_bit (s + 7) (drop_bit 7 x)), rest)" for a
      by (intro "1.IH" [OF True]) (use i 1(2) in simp_all)
    then show ?thesis
      using True low_byte [of x] varint_step [of s x]
      by (subst PutUvarint.simps) (simp add: or.assoc)
  next
    case False
    then have lt: "unat x < 128" by (simp add: word_le_nat_alt not_le)
    then have b: "unat (ucast x :: 8 word) = unat x"
      by (simp add: unsigned_ucast_eq take_bit_nat_eq_self)
    have u: "ucast (ucast x :: 8 word) = x"
      using lt by (intro unsigned_word_eqI [where 'a = nat])
        (simp add: unsigned_ucast_eq unsigned_take_bit_eq take_bit_nat_eq_self)
    have small: "(ucast x :: 8 word) < 0x80" using lt b by (simp add: word_less_nat_alt)
    have "\<not> (i = 9 \<and> (ucast x :: 8 word) > 1)"
    proof
      assume a: "i = 9 \<and> (ucast x :: 8 word) > 1"
      then have "unat x < 2" using 1 by simp
      with a b show False by (simp add: word_less_nat_alt)
    qed
    then show ?thesis
      using False 1(3) u small by (subst PutUvarint.simps) simp
  qed
qed

lemma ReadUvarint_Put: "ReadUvarint eof (PutUvarint x @ rest) = (Inr x, rest)"
  using read_uvarint_put [of 0 0 x eof 0 rest] unsigned_less [of x]
  by (simp add: ReadUvarint_def)

subsection \<open>Framing\<close>

text \<open>The loop of the usage comment: take records until an error.\<close>

fun read_records :: "('s \<Rightarrow> (('e + 'r) \<times> 's) go) \<Rightarrow> nat \<Rightarrow> 's \<Rightarrow> ('r list \<times> 'e option) go" where
  "read_records nxt 0 s = Ret ([], None)"
| "read_records nxt (Suc n) s = go_bind (nxt s) (\<lambda>(res, s').
     case res of Inl e \<Rightarrow> Ret ([], Some e)
     | Inr r \<Rightarrow> go_bind (read_records nxt n s') (\<lambda>(rs, e). Ret (r # rs, e)))"

text \<open>
  What a stream of records promises: a reader that is in order and faces the bytes of a record
  takes exactly that record and is in order again; at the end of the input it says so.  From it
  follows that everything written comes back, in order, and nothing else.
\<close>

locale framing =
  fixes frame :: "'r \<Rightarrow> 'b list"
    and inv :: "'s \<Rightarrow> bool"
    and ok :: "'s \<Rightarrow> 'r \<Rightarrow> bool"
    and input :: "'s \<Rightarrow> 'b list"
    and nxt :: "'s \<Rightarrow> (('e + 'r) \<times> 's) go"
    and the_end :: 'e
  assumes next_frame: "inv s \<Longrightarrow> input s = frame r @ rest \<Longrightarrow> ok s r \<Longrightarrow>
      \<exists>s'. nxt s = Ret (Inr r, s') \<and> inv s' \<and> input s' = rest \<and> (\<forall>q. ok s' q = ok s q)"
    and next_end: "inv s \<Longrightarrow> input s = [] \<Longrightarrow> \<exists>s'. nxt s = Ret (Inl the_end, s')"
begin

lemma read_records_frames:
  assumes "inv s" "input s = concat (map frame rs)" "\<forall>r \<in> set rs. ok s r"
  shows "read_records nxt (length rs + Suc n) s = Ret (rs, Some the_end)"
  using assms
proof (induction rs arbitrary: s)
  case Nil
  then obtain s' where "nxt s = Ret (Inl the_end, s')" using next_end by auto
  then show ?case by simp
next
  case (Cons r rs)
  then obtain s' where s': "nxt s = Ret (Inr r, s')" "inv s'" "input s' = concat (map frame rs)"
      "\<forall>q. ok s' q = ok s q"
    using next_frame [of s r "concat (map frame rs)"] by auto
  with Cons have "read_records nxt (length rs + Suc n) s' = Ret (rs, Some the_end)" by simp
  with s'(1) show ?case by simp
qed

end

definition record_bytes :: "bytes \<Rightarrow> bytes" where
  "record_bytes rcd = PutUvarint (of_nat (length rcd)) @ rcd"

text \<open>A reader in order, and a record it can take: its length fits an int and what can be
  allocated.\<close>

definition wf_reader :: "Reader \<Rightarrow> bool" where
  "wf_reader r \<longleftrightarrow> r_end r = ReadEOF \<and> 0 \<le> r_cap r"

definition fits :: "Reader \<Rightarrow> bytes \<Rightarrow> bool" where
  "fits r rcd \<longleftrightarrow> length rcd < 2 ^ 63 \<and> int (length rcd) \<le> r_alloc r"

lemma small_length:
  assumes "n < 2 ^ 63"
  shows "unat (of_nat n :: 64 word) = n" "uint (of_nat n :: 64 word) = int n" "sint (of_nat n :: 64 word) = int n"
proof -
  have "n < 2 ^ 64" using assms by simp
  then show u: "unat (of_nat n :: 64 word) = n" by (simp add: unat_of_nat take_bit_nat_eq_self)
  then show "uint (of_nat n :: 64 word) = int n" by (metis uint_nat)
  show "sint (of_nat n :: 64 word) = int n"
    using assms by (simp add: signed_of_nat signed_take_bit_int_eq_self)
qed

lemma Next_record:
  assumes "r_buf r = record_bytes rcd @ rest" "0 \<le> r_cap r" "fits r rcd"
  shows "\<exists>cap \<ge> 0. Next r = Ret (Inr rcd, r\<lparr>r_buf := rest, r_cap := cap\<rparr>)"
proof -
  have n: "length rcd < 2 ^ 63" "int (length rcd) \<le> r_alloc r"
    using assms(3) by (simp_all add: fits_def)
  have "ReadUvarint (r_end r) (r_buf r) = (Inr (of_nat (length rcd)), rcd @ rest)"
    by (simp add: assms(1) record_bytes_def ReadUvarint_Put)
  then have "Next r = Ret (Inr rcd, r\<lparr>r_buf := rest,
      r_cap := if r_cap r < int (length rcd) then int (length rcd) else r_cap r\<rparr>)"
    using n small_length [OF n(1)] by (simp add: Next_def ReadFull_def Let_def)
  moreover have "0 \<le> (if r_cap r < int (length rcd) then int (length rcd) else r_cap r)"
    using assms(2) by simp
  ultimately show ?thesis by blast
qed

lemma Next_end: "r_buf r = [] \<Longrightarrow> r_end r = ReadEOF \<Longrightarrow> Next r = Ret (Inl ReadEOF, r\<lparr>r_buf := []\<rparr>)"
  by (simp add: Next_def ReadUvarint_def)

interpretation delimited: framing record_bytes wf_reader fits r_buf Next ReadEOF
proof unfold_locales
  fix s r rest
  assume a: "wf_reader s" "r_buf s = record_bytes r @ rest" "fits s r"
  then obtain cap where "cap \<ge> 0" "Next s = Ret (Inr r, s\<lparr>r_buf := rest, r_cap := cap\<rparr>)"
    using Next_record [OF a(2) _ a(3)] a(1) unfolding wf_reader_def by blast
  with a(1) show "\<exists>s'. Next s = Ret (Inr r, s') \<and> wf_reader s' \<and> r_buf s' = rest \<and> (\<forall>q. fits s' q = fits s q)"
    by (auto simp: fits_def wf_reader_def)
qed (auto simp: Next_end wf_reader_def)

subsection \<open>Properties\<close>

text \<open>A writer that takes all bytes and appends them to what \<open>out\<close> shows of its state.\<close>

definition appends :: "'w io_writer \<Rightarrow> ('w \<Rightarrow> bytes) \<Rightarrow> bool" where
  "appends wr out \<longleftrightarrow> (\<forall>b w. fst (wr b w) = (length b, None) \<and> out (snd (wr b w)) = out w @ b)"

lemma Write_appends:
  assumes "appends wr out"
  shows "\<exists>w'. Write wr rcd w = ((length (record_bytes rcd), None), w') \<and> out w' = out w @ record_bytes rcd"
proof -
  obtain w1 where w1: "wr (PutUvarint (of_nat (length rcd))) w
      = ((length (PutUvarint (of_nat (length rcd))), None), w1)" "out w1 = out w @ PutUvarint (of_nat (length rcd))"
    using assms unfolding appends_def by (metis prod.collapse)
  obtain w2 where w2: "wr rcd w1 = ((length rcd, None), w2)" "out w2 = out w1 @ rcd"
    using assms unfolding appends_def by (metis prod.collapse)
  from w1 w2 show ?thesis by (simp add: Write_def record_bytes_def)
qed

fun put_all :: "'w io_writer \<Rightarrow> bytes list \<Rightarrow> 'w \<Rightarrow> string option \<times> 'w" where
  "put_all wr [] w = (None, w)"
| "put_all wr (rcd # rcds) w = (case Put wr rcd w of
     (Some err, w1) \<Rightarrow> (Some err, w1) | (None, w1) \<Rightarrow> put_all wr rcds w1)"

lemma put_all_appends:
  assumes "appends wr out"
  shows "\<exists>w'. put_all wr rcds w = (None, w') \<and> out w' = out w @ concat (map record_bytes rcds)"
proof (induction rcds arbitrary: w)
  case (Cons rcd rcds)
  obtain w1 where "Put wr rcd w = (None, w1)" "out w1 = out w @ record_bytes rcd"
    using Write_appends [OF assms, of rcd w] by (auto simp: Put_def)
  moreover obtain w' where "put_all wr rcds w1 = (None, w')" "out w' = out w1 @ concat (map record_bytes rcds)"
    using Cons by blast
  ultimately show ?case by simp
qed simp

text \<open>C17: putting any records, each of a length that fits an int, on a writer that takes all bytes
  and reading what it holds gives back exactly those records, in order, and then \<open>io.EOF\<close>.\<close>

theorem delimited_roundtrip:
  assumes "appends wr out" "out w = []"
    and "\<forall>rcd \<in> set rcds. length rcd < 2 ^ 63 \<and> int (length rcd) \<le> alloc"
  shows "\<exists>w'. put_all wr rcds w = (None, w')
    \<and> read_records Next (length rcds + Suc n) (NewReader (out w') ReadEOF alloc) = Ret (rcds, Some ReadEOF)"
proof -
  obtain w' where "put_all wr rcds w = (None, w')" "out w' = concat (map record_bytes rcds)"
    using put_all_appends [OF assms(1), of rcds w] assms(2) by auto
  moreover from this have "read_records Next (length rcds + Suc n) (NewReader (out w') ReadEOF alloc)
      = Ret (rcds, Some ReadEOF)"
    using assms(3) by (intro delimited.read_records_frames) (simp_all add: NewReader_def wf_reader_def fits_def)
  ultimately show ?thesis by blast
qed

definition mem_writer :: "bytes io_writer" where
  "mem_writer b w = ((length b, None), w @ b)"

lemma appends_mem: "appends mem_writer (\<lambda>w. w)"
  by (simp add: appends_def mem_writer_def)

theorem delimited_roundtrip_witness:
  "\<exists>w'. put_all mem_writer [[1, 2], [], [3]] [] = (None, w')
    \<and> read_records Next (length [[1 :: 8 word, 2], [], [3]] + Suc 0) (NewReader w' ReadEOF 100)
      = Ret ([[1, 2], [], [3]], Some ReadEOF)"
  by (rule delimited_roundtrip [OF appends_mem]) simp_all

lemma read_uvarint_prefix:
  "k < length (PutUvarint x) \<Longrightarrow> read_uvarint eof i s acc (take k (PutUvarint x)) = (Inl eof, [])"
proof (induction x arbitrary: i s acc k rule: PutUvarint.induct)
  case (1 x)
  show ?case
  proof (cases "x \<ge> 0x80")
    case True
    then have p: "PutUvarint x = (ucast x OR 0x80) # PutUvarint (drop_bit 7 x)" by (subst PutUvarint.simps) simp
    show ?thesis
    proof (cases k)
      case (Suc k')
      with 1 p True show ?thesis using low_byte(2) [of x] by simp
    qed simp
  next
    case False
    then have "length (PutUvarint x) = 1" by (subst PutUvarint.simps) simp
    with 1(2) show ?thesis by simp
  qed
qed

text \<open>A record cut short is never handed out: reading any proper prefix of a record fails, with
  \<open>io.ErrUnexpectedEOF\<close> when some of its data is there, but with plain \<open>io.EOF\<close>, as at the end of
  the stream, when the cut is inside or right behind its length.\<close>

theorem truncated_record:
  assumes "k < length (record_bytes rcd)" "length rcd < 2 ^ 63" "int (length rcd) \<le> alloc"
  shows "\<exists>r'. Next (NewReader (take k (record_bytes rcd)) ReadEOF alloc) =
    Ret (Inl (if k \<le> length (PutUvarint (of_nat (length rcd))) then ReadEOF else UnexpectedEOF), r')"
proof (cases "k < length (PutUvarint (of_nat (length rcd)))")
  case True
  then have "ReadUvarint ReadEOF (take k (record_bytes rcd)) = (Inl ReadEOF, [])"
    using read_uvarint_prefix [OF True] by (simp add: ReadUvarint_def record_bytes_def)
  with True show ?thesis by (simp add: Next_def NewReader_def)
next
  case False
  let ?v = "PutUvarint (of_nat (length rcd))"
  let ?data = "take (k - length ?v) rcd"
  have "take k (record_bytes rcd) = ?v @ ?data" using False by (simp add: record_bytes_def)
  then have "ReadUvarint ReadEOF (take k (record_bytes rcd)) = (Inr (of_nat (length rcd)), ?data)"
    by (simp add: ReadUvarint_Put)
  moreover have "\<not> length rcd \<le> length ?data" using assms(1) False by (simp add: record_bytes_def)
  moreover have "?data = [] \<longleftrightarrow> k \<le> length ?v" using assms(1) by (auto simp: record_bytes_def)
  ultimately show ?thesis
    using small_length [OF assms(2)] assms(3) False by (simp add: Next_def NewReader_def ReadFull_def Let_def)
qed

theorem truncated_record_witness:
  "\<exists>r'. Next (NewReader (take 1 (record_bytes [7, 8])) ReadEOF 100) = Ret (Inl ReadEOF, r')"
proof -
  have l: "length (PutUvarint (of_nat (length [7 :: 8 word, 8]))) = 1" by (subst PutUvarint.simps) simp
  then have "1 < length (record_bytes [7, 8])" by (simp add: record_bytes_def)
  from truncated_record [OF this, of 100] l show ?thesis by simp
qed

text \<open>C40: a length of \<open>2 ^ 63\<close> or more, which the format allows, makes the reader panic.\<close>

theorem huge_record_panics:
  assumes "ReadUvarint (r_end r) (r_buf r) = (Inr sz, rest)" "2 ^ 63 \<le> uint sz"
    and "0 \<le> r_cap r" "r_cap r < 2 ^ 63"
  shows "panics (Next r)"
proof -
  have "sint sz < 0"
  proof (rule ccontr)
    assume "\<not> sint sz < 0"
    moreover have "sint sz < 2 ^ 63" using sint_lt [of sz] by simp
    moreover have "uint sz = sint sz mod 2 ^ 64"
      using uint_word_of_int [where 'a = 64 and k = "sint sz"] by simp
    ultimately have "uint sz = sint sz" by simp
    with \<open>sint sz < 2 ^ 63\<close> assms(2) show False by simp
  qed
  then show ?thesis using assms by (simp add: Next_def Let_def)
qed

theorem huge_record_panics_witness:
  "panics (Next (NewReader (PutUvarint (2 ^ 63) @ [1, 2]) ReadEOF 100))"
  by (rule huge_record_panics [where sz = "2 ^ 63" and rest = "[1, 2]"])
    (simp_all add: NewReader_def ReadUvarint_Put)

end
