(* ===== verification/JsonRaw.thy ===== *)
theory JsonRaw
  imports JsonText
begin

text \<open>
  The text of a value: what \<open>Decode\<close> into a \<open>json.RawMessage\<close> takes off a stream.  These are the bytes
  of the next value, without the blanks before it, and what follows; or an error, where \<open>None\<close> is \<open>io.EOF\<close>.
  \<open>r\<close> is what was read of the value so far.
\<close>

subsection \<open>Taking a value off a text\<close>

fun raw_value :: "mode \<Rightarrow> frame list \<Rightarrow> string \<Rightarrow> string \<Rightarrow> string option + (string \<times> string)" where
  "raw_value m fs r [] = (case scan m fs CHR 0x20 of
     Before v \<Rightarrow> Inr (r, [])
   | _ \<Rightarrow> Inl (if m = BeginValue \<and> fs = [] then None else Some ''unexpected EOF''))"
| "raw_value m fs r (c # cs) = (case scan m fs c of
     Cont m1 fs1 \<Rightarrow> raw_value m1 fs1 (if m1 = BeginValue \<and> fs1 = [] then r else r @ [c]) cs
   | Done v \<Rightarrow> Inr (r @ [c], cs)
   | Before v \<Rightarrow> Inr (r, c # cs)
   | Bad e \<Rightarrow> Inl (Some e))"

definition started :: "mode \<Rightarrow> frame list \<Rightarrow> bool" where
  "started m fs \<longleftrightarrow> m \<noteq> BeginValue \<or> fs \<noteq> []"

lemma end_value_started: "end_value v fs c = Cont m1 fs1 \<Longrightarrow> started m1 fs1"
  by (induction v fs c rule: end_value.induct) (auto simp: started_def close_value_def bad_def split: if_splits)

lemma begin_value_started: "begin_value fs c = Cont m1 fs1 \<Longrightarrow> started BeginValue fs \<or> \<not> is_space c \<Longrightarrow> started m1 fs1"
  by (auto simp: started_def begin_value_def bad_def split: if_splits)

lemma scan_started: "scan m fs c = Cont m1 fs1 \<Longrightarrow> started m fs \<Longrightarrow> started m1 fs1"
proof (induction m fs c rule: scan.induct)
  case (2 fs c)
  then show ?case
    by (cases "is_space c") (auto simp: close_value_def started_def begin_value_def bad_def split: if_splits)
next
  case (5 sm s fs c)
  then show ?case by (cases sm) (auto simp: started_def bad_def split: if_splits)
next
  case (6 nm s fs c)
  then show ?case
    by (cases nm) (auto simp: started_def bad_def scan_exponent_def after_whole_def
      dest!: end_value_started [unfolded started_def] split: if_splits)
next
  case (7 s name v fs c)
  then show ?case by (auto simp: started_def bad_def dest!: end_value_started [unfolded started_def] split: list.splits if_splits)
qed (auto simp: begin_key_def started_def close_value_def bad_def dest: end_value_started [unfolded started_def]
    begin_value_started [unfolded started_def] split: if_splits)

subsection \<open>What the decoder makes of it\<close>

text \<open>A value that was started ends, or it is an error; only blanks lead to nothing.\<close>

lemma decode_started: "started m fs \<Longrightarrow> decode_json m fs s None \<noteq> []"
proof (induction s arbitrary: m fs)
  case Nil
  then show ?case by (auto simp: at_end_def started_def split: scanned.splits)
next
  case (Cons c s)
  then show ?case using scan_started by (auto simp: decode_json.simps(2) split: scanned.splits)
qed

lemma decode_nothing: "decode_json BeginValue [] s None = [] \<Longrightarrow> \<forall>c \<in> set s. is_space c"
proof (induction s)
  case (Cons c s)
  show ?case
  proof (cases "is_space c")
    case True
    then show ?thesis using Cons by (simp add: decode_json.simps(2) begin_value_def)
  next
    case False
    then show ?thesis
      using Cons.prems begin_value_started [of "[]" c] decode_started begin_value_cases [of "[]" c]
      by (auto simp: decode_json.simps(2) split: scanned.splits)
  qed
qed simp

lemma decode_Before: "scan m fs c = Before v \<Longrightarrow> decode_json m fs (c # cs) err = Value v # decode_json BeginValue [] (c # cs) err"
  using begin_value_cases [of "[]" c] by (auto simp: decode_json.simps(2))

text \<open>The bytes taken are those the decoder read.\<close>

lemma raw_decoded:
  assumes "started m fs"
  shows "case raw_value m fs r s of
      Inl e \<Rightarrow> \<exists>x. decode_json m fs s None = [Garbage x]
    | Inr (r1, rest) \<Rightarrow> \<exists>u v. s = u @ rest \<and> r1 = r @ u
        \<and> decode_json m fs s None = Value v # decode_json BeginValue [] rest None"
  using assms
proof (induction s arbitrary: m fs r)
  case Nil
  then show ?case by (auto simp: at_end_def started_def begin_value_def is_space_def split: scanned.splits)
next
  case (Cons c s)
  show ?case
  proof (cases "scan m fs c")
    case (Cont m1 fs1)
    then have "started m1 fs1" using Cons.prems scan_started by blast
    with Cont Cons.IH [of m1 fs1 "r @ [c]"] show ?thesis
      by (auto simp: decode_json.simps(2) started_def split: sum.splits)
  next
    case (Before v)
    then show ?thesis using decode_Before by auto
  qed (auto simp: decode_json.simps(2))
qed
text \<open>No literal has a blank.\<close>

fun lit_ok :: "mode \<Rightarrow> bool" where
  "lit_ok (InLit s name v) \<longleftrightarrow> (\<forall>c \<in> set s. \<not> is_space c)"
| "lit_ok m \<longleftrightarrow> True"

lemma end_value_lit: "end_value v fs c = Cont m1 fs1 \<Longrightarrow> lit_ok m1"
  by (cases "(v, fs, c)" rule: end_value.cases) (auto simp: close_value_def bad_def split: if_splits)

lemma begin_value_lit: "begin_value fs c = Cont m1 fs1 \<Longrightarrow> lit_ok m1"
  by (auto simp: begin_value_def bad_def is_space_def split: if_splits)

lemma scan_num_lit: "scan_num nm s fs c = Cont m1 fs1 \<Longrightarrow> lit_ok m1"
  by (cases nm) (auto simp: bad_def scan_exponent_def after_whole_def dest: end_value_lit split: if_splits)

lemma scan_lit: "scan m fs c = Cont m1 fs1 \<Longrightarrow> lit_ok m \<Longrightarrow> lit_ok m1"
proof (cases m)
  case (InStr sm s)
  then show "scan m fs c = Cont m1 fs1 \<Longrightarrow> lit_ok m1" by (cases sm) (auto simp: bad_def split: if_splits)
qed (auto simp: bad_def begin_key_def close_value_def dest: end_value_lit begin_value_lit scan_num_lit split: list.splits if_splits)

text \<open>A blank only ever leads to a state that a blank does not end.\<close>

lemma end_value_blank: "end_value v fs c = Cont m1 fs1 \<Longrightarrow> is_space c \<Longrightarrow> fs1 \<noteq> []"
  by (cases "(v, fs, c)" rule: end_value.cases) auto

lemma scan_blank:
  assumes "scan m fs c = Cont m1 fs1" "is_space c" "lit_ok m"
  shows "fs1 \<noteq> [] \<or> m1 \<in> {BeginValue, BeginArr, BeginObj, BeginKey} \<or> (\<exists>s. m1 = InStr Plain s)"
proof -
  have c: "\<not> is_digit c" "\<not> is_hex c" "c \<notin> set ''bfnrtuslae.E+-/0]}''" "c \<noteq> CHR 0x5C" "c \<noteq> CHR 0x22"
    using assms(2) by (auto simp: is_space_def is_digit_def is_hex_def)
  show ?thesis
  proof (cases m)
    case (InStr sm s)
    then show ?thesis using assms(1) c by (cases sm) (auto simp: bad_def split: if_splits)
  next
    case (InNum nm s)
    then show ?thesis
      using assms c end_value_blank [OF _ assms(2)]
      by (cases nm) (auto simp: bad_def scan_exponent_def after_whole_def split: if_splits)
  next
    case (InLit s name v)
    then show ?thesis
      using assms end_value_blank [OF _ assms(2)] by (auto simp: bad_def split: list.splits if_splits)
  next
    case (EndValue v)
    then show ?thesis using assms end_value_blank by auto
  next
    case BeginObj
    then show ?thesis using assms c by (auto simp: begin_key_def split: if_splits)
  next
    case BeginKey
    then show ?thesis using assms by (simp add: begin_key_def)
  qed (use assms in \<open>simp_all add: begin_value_def\<close>)
qed

lemma scan_pending:
  assumes "scan m fs CHR 0x20 = Before v"
  shows "fs = [] \<and> m \<notin> {BeginValue, BeginArr, BeginObj, BeginKey} \<and> m \<noteq> InStr Plain s"
  using scan_before [OF assms] assms
  by (auto simp: begin_value_def begin_key_def is_space_def)

lemma json_text_last: "\<not> is_space (last (json_text v))"
proof -
  have n: "\<not> is_space (last (itoa_nat n))" for n
    using itoa_nat_digits [of n] digits_not_special(1) by (metis itoa_nat_not_Nil last_in_set)
  then have d: "\<not> is_space (last (digits_text ds))" "digits_text ds \<noteq> []" for ds
    by (simp_all add: digits_text_def)
  have e: "\<not> is_space (last (exponent_text x)) \<and> exponent_text x \<noteq> []" for x
    using d by (cases x) simp
  show ?thesis
  proof (cases v)
    case (JInt i)
    then show ?thesis using n by (simp add: Itoa_def)
  next
    case (JNum x)
    then show ?thesis using d e by (cases x) (auto split: option.splits)
  qed (simp_all add: string_text_def is_space_def)
qed

text \<open>The text of a value is taken whole, and nothing of what follows its line break.\<close>

lemma raw_more: "raw_value m fs r (s @ [c]) = Inr (r1, [c]) \<Longrightarrow> raw_value m fs r (s @ c # cs) = Inr (r1, c # cs)"
proof (induction s arbitrary: m fs r)
  case Nil
  then show ?case by (auto split: scanned.splits if_splits)
next
  case (Cons d s)
  then show ?case by (auto split: scanned.splits if_splits)
qed

lemma scan_blank_Done: "is_space c \<Longrightarrow> scan m fs c \<noteq> Done v"
proof -
  assume c: "is_space c"
  have e: "end_value u fs c \<noteq> Done v" for u using c by (cases "(u, fs, c)" rule: end_value.cases) auto
  show ?thesis
  proof (cases m)
    case (InStr sm s)
    then show ?thesis by (cases sm) (auto simp: bad_def)
  next
    case (InNum nm s)
    then show ?thesis using e by (cases nm) (auto simp: bad_def scan_exponent_def after_whole_def)
  next
    case BeginObj
    then show ?thesis using c by (auto simp: begin_key_def close_value_def is_space_def)
  qed (use c e in \<open>auto simp: begin_value_def begin_key_def bad_def split: list.splits\<close>)
qed

lemma raw_leaves_blank: "lit_ok m \<Longrightarrow> is_space c \<Longrightarrow> raw_value m fs r (s @ [c]) \<noteq> Inr (r1, [])"
proof (induction s arbitrary: m fs r)
  case Nil
  have "raw_value m1 fs1 r2 [] \<noteq> Inr (r1, [])" if "scan m fs c = Cont m1 fs1" for m1 fs1 r2
    using scan_blank [OF that Nil(2,1)] scan_pending [of m1 fs1] by (auto split: scanned.splits)
  then show ?case using scan_blank_Done [OF Nil(2)] by (auto split: scanned.splits simp del: raw_value.simps(1))
next
  case (Cons d s)
  then show ?case using scan_lit by (auto split: scanned.splits)
qed

lemma raw_value_text: "raw_value BeginValue [] [] (json_text v @ CHR 0x0A # cs) = Inr (json_text v, CHR 0x0A # cs)"
proof -
  have nl: "is_space CHR 0x0A" by (simp add: is_space_def)
  obtain d t where d: "json_text v = d # t" "\<not> is_space d" by (rule json_text_first [of v])
  have whole: "decode_json BeginValue [] (json_text v @ [CHR 0x0A]) None = [Value v]"
    using decode_encoded [of "[v]" "[]" None] by (simp add: encoded_def at_end_def begin_value_def is_space_def)
  then obtain m fs where m: "begin_value [] d = Cont m fs"
    using begin_value_cases [of "[]" d] d(1) by (auto simp: decode_json.simps(2))
  then have ok: "started m fs" "lit_ok m" using begin_value_started d(2) begin_value_lit by blast+
  have dec: "decode_json m fs (t @ [CHR 0x0A]) None = [Value v]"
    using whole m d(1) by (simp add: decode_json.simps(2))
  have raw: "raw_value BeginValue [] [] (json_text v @ s) = raw_value m fs [d] (t @ s)" for s
    using m d(1) ok(1) by (auto simp: started_def)
  obtain u rest v1 where u: "raw_value m fs [d] (t @ [CHR 0x0A]) = Inr ([d] @ u, rest)" "t @ [CHR 0x0A] = u @ rest"
    "decode_json BeginValue [] rest None = []"
    using raw_decoded [OF ok(1), of "t @ [CHR 0x0A]" "[d]"] dec by (auto split: sum.splits)
  have "rest \<noteq> []" using raw_leaves_blank [OF ok(2) nl, of fs "[d]" t] u(1) by auto
  then obtain t1 where t1: "rest = t1 @ [CHR 0x0A]" "t = u @ t1"
    using u(2) by (cases rest rule: rev_cases) auto
  have "t1 = []"
  proof (rule ccontr)
    assume "t1 \<noteq> []"
    then have "last (json_text v) = last t1" using t1(2) d(1) by simp
    moreover have "is_space (last t1)" using decode_nothing [OF u(3)] t1(1) \<open>t1 \<noteq> []\<close> by simp
    ultimately show False using json_text_last by metis
  qed
  then have "raw_value m fs [d] (t @ [CHR 0x0A]) = Inr (json_text v, [CHR 0x0A])" using u(1) t1 d(1) by simp
  from raw_more [OF this] show ?thesis using raw by simp
qed

text \<open>Blanks before a value are not taken, and a text of blanks is at its end.\<close>

lemma raw_value_blank: "is_space c \<Longrightarrow> raw_value BeginValue [] [] (c # cs) = raw_value BeginValue [] [] cs"
  by (simp add: begin_value_def)

lemma raw_value_end: "raw_value BeginValue [] [] [] = Inl None"
  by (simp add: begin_value_def is_space_def)

end
