(* ===== verification/Streams.thy ===== *)
theory Streams
  imports Delimited JsonRaw
begin

text \<open>
  \<open>shipshape/util/rpc/stream/stream.go\<close>: readers and writers of record streams, either length
  delimited or of JSON values one per line, and readers that transform each record.

  Bytes are the characters of \<open>JsonRaw\<close>.  A decoder that met an error stays where it is, so it meets it
  again.
\<close>

definition string_of :: "bytes \<Rightarrow> string" where
  "string_of b = map (\<lambda>x. char_of (unat x)) b"

definition bytes_of :: "string \<Rightarrow> bytes" where
  "bytes_of s = map (\<lambda>c. word_of_nat (of_char c)) s"

definition json_next :: "bytes \<Rightarrow> (read_error + bytes) \<times> bytes" where
  "json_next inp = (case raw_value BeginValue [] [] (string_of inp) of
     Inl None \<Rightarrow> (Inl ReadEOF, inp)
   | Inl (Some err) \<Rightarrow> (Inl (Failed err), inp)
   | Inr (data, rest) \<Rightarrow> (Inr (bytes_of data), bytes_of rest))"

datatype stream_reader =
    DelimitedReader Reader
  | JsonReader bytes
  | TransformReader stream_reader "bytes \<Rightarrow> string + bytes"

fun stream_Next ::
  "stream_reader \<Rightarrow> ((read_error + bytes) \<times> stream_reader) go" where
  "stream_Next (DelimitedReader r) =
     go_bind (Next r) (\<lambda>(res, r1). Ret (res, DelimitedReader r1))"
| "stream_Next (JsonReader inp) =
     (case json_next inp of (res, rest) \<Rightarrow> Ret (res, JsonReader rest))"
| "stream_Next (TransformReader rd f) =
     go_bind (stream_Next rd) (\<lambda>(res, rd1).
       case res of
         Inl err \<Rightarrow> Ret (Inl err, TransformReader rd1 f)
       | Inr rec \<Rightarrow> (case f rec of
           Inl err \<Rightarrow> Ret (Inl (Failed err), TransformReader rd1 f)
         | Inr out \<Rightarrow> Ret (Inr out, TransformReader rd1 f)))"

definition stream_NewReader :: "bytes \<Rightarrow> int \<Rightarrow> bool \<Rightarrow> stream_reader" where
  "stream_NewReader inp alloc decodeJSON =
     (if decodeJSON then JsonReader inp else DelimitedReader (NewReader inp ReadEOF alloc))"

definition Transform :: "stream_reader \<Rightarrow> (bytes \<Rightarrow> string + bytes) \<Rightarrow> stream_reader" where
  "Transform rd f = TransformReader rd f"

text \<open>A writer is chosen by the flag; \<open>fmt.Fprintln\<close> writes the record and a newline at once.\<close>

definition stream_Put :: "bool \<Rightarrow> 'w io_writer \<Rightarrow> bytes \<Rightarrow> 'w \<Rightarrow> string option \<times> 'w" where
  "stream_Put lineFormat wr data w =
     (if lineFormat then (case wr (data @ [10]) w of ((_, err), w1) \<Rightarrow> (err, w1))
      else Put wr data w)"

subsection \<open>Transforming a stream\<close>

text \<open>Reading a transformed stream is transforming what reading the stream gives, up to the first
  record the function rejects.\<close>

fun transform_all :: "(bytes \<Rightarrow> string + bytes) \<Rightarrow> bytes list \<times> read_error option \<Rightarrow> bytes list \<times> read_error option" where
  "transform_all f ([], e) = ([], e)"
| "transform_all f (r # rs, e) = (case f r of
     Inl err \<Rightarrow> ([], Some (Failed err))
   | Inr out \<Rightarrow> (case transform_all f (rs, e) of (outs, e2) \<Rightarrow> (out # outs, e2)))"

lemma read_records_transform:
  assumes "read_records stream_Next n rd = Ret res"
  shows "read_records stream_Next n (Transform rd f) = Ret (transform_all f res)"
  using assms
proof (induction n arbitrary: rd res)
  case (Suc n)
  then obtain r rd1 where r: "stream_Next rd = Ret (r, rd1)"
    by (auto simp: go_bind_Ret_iff)
  show ?case
  proof (cases r)
    case (Inl e)
    with r Suc.prems show ?thesis by (auto simp: Transform_def)
  next
    case (Inr rec)
    with r Suc.prems obtain rs e where rs: "read_records stream_Next n rd1 = Ret (rs, e)"
      "res = (rec # rs, e)"
      by (auto simp: go_bind_Ret_iff)
    from Suc.IH [OF rs(1)] r Inr rs(2) show ?thesis
      by (auto simp: Transform_def split: sum.splits prod.splits)
  qed
qed (simp add: Transform_def)

lemma read_records_delimited:
  "read_records Next n r = Ret res \<Longrightarrow> read_records stream_Next n (DelimitedReader r) = Ret res"
proof (induction n arbitrary: r res)
  case (Suc n)
  then obtain x r1 where "Next r = Ret (x, r1)" by (auto simp: go_bind_Ret_iff)
  with Suc show ?case by (cases x) (auto simp: go_bind_Ret_iff)
qed simp

text \<open>Records put on a delimited stream and read through a transforming reader come back as
  their images, in order, and then \<open>io.EOF\<close>, when the function accepts them all.\<close>

theorem transformed_roundtrip:
  assumes "appends wr out" "out w = []"
    and "\<forall>rcd \<in> set rcds. length rcd < 2 ^ 63 \<and> int (length rcd) \<le> alloc \<and> f rcd = Inr (g rcd)"
  shows "\<exists>w'. put_all wr rcds w = (None, w')
    \<and> read_records stream_Next (length rcds + Suc n) (Transform (stream_NewReader (out w') alloc False) f)
      = Ret (map g rcds, Some ReadEOF)"
proof -
  obtain w' where w': "put_all wr rcds w = (None, w')" "out w' = concat (map record_bytes rcds)"
    using put_all_appends [OF assms(1), of rcds w] assms(2) by auto
  then have "read_records Next (length rcds + Suc n) (NewReader (out w') ReadEOF alloc) = Ret (rcds, Some ReadEOF)"
    using assms(3) by (intro delimited.read_records_frames) (simp_all add: NewReader_def wf_reader_def fits_def)
  then have "read_records stream_Next (length rcds + Suc n) (stream_NewReader (out w') alloc False)
      = Ret (rcds, Some ReadEOF)"
    by (simp add: stream_NewReader_def read_records_delimited del: read_records.simps)
  from read_records_transform [OF this, of f]
  have "read_records stream_Next (length rcds + Suc n) (Transform (stream_NewReader (out w') alloc False) f)
      = Ret (transform_all f (rcds, Some ReadEOF))" .
  moreover have "transform_all f (rcds, Some ReadEOF) = (map g rcds, Some ReadEOF)"
    using assms(3) by (induction rcds) auto
  ultimately show ?thesis using w'(1) by auto
qed

theorem transformed_roundtrip_witness:
  "\<exists>w'. put_all mem_writer [[1, 2], [3]] [] = (None, w')
    \<and> read_records stream_Next (length [[1 :: 8 word, 2], [3]] + Suc 0)
        (Transform (stream_NewReader w' 100 False) (\<lambda>r. Inr (rev r)))
      = Ret (map rev [[1, 2], [3]], Some ReadEOF)"
  by (rule transformed_roundtrip [OF appends_mem]) simp_all

subsection \<open>Streams of JSON, a value on each line\<close>

lemma string_of_bytes_of [simp]: "string_of (bytes_of s) = s"
proof -
  have "unat (word_of_nat (of_char c) :: 8 word) = of_char c" for c
    by (simp add: unat_of_nat take_bit_nat_eq_self)
  then show ?thesis by (simp add: string_of_def bytes_of_def comp_def)
qed

lemma bytes_of_append: "bytes_of (s @ t) = bytes_of s @ bytes_of t"
  by (simp add: bytes_of_def)

fun put_lines :: "'w io_writer \<Rightarrow> bytes list \<Rightarrow> 'w \<Rightarrow> string option \<times> 'w" where
  "put_lines wr [] w = (None, w)"
| "put_lines wr (rcd # rcds) w = (case stream_Put True wr rcd w of
     (Some err, w1) \<Rightarrow> (Some err, w1) | (None, w1) \<Rightarrow> put_lines wr rcds w1)"

lemma put_lines_appends:
  assumes "appends wr out"
  shows "\<exists>w'. put_lines wr rcds w = (None, w') \<and> out w' = out w @ concat (map (\<lambda>rcd. rcd @ [10]) rcds)"
proof (induction rcds arbitrary: w)
  case (Cons rcd rcds)
  obtain w1 where "stream_Put True wr rcd w = (None, w1)" "out w1 = out w @ rcd @ [10]"
  proof -
    have "fst (wr (rcd @ [10]) w) = (length (rcd @ [10]), None)" "out (snd (wr (rcd @ [10]) w)) = out w @ rcd @ [10]"
      using assms unfolding appends_def by blast+
    then show ?thesis by (cases "wr (rcd @ [10]) w") (simp add: that stream_Put_def)
  qed
  with Cons.IH [of w1] show ?case by auto
qed simp

lemma json_next_value:
  assumes "string_of inp = b @ json_text v @ CHR 0x0A # rest" "b = [] \<or> b = [CHR 0x0A]"
  shows "json_next inp = (Inr (bytes_of (json_text v)), bytes_of (CHR 0x0A # rest))"
  using assms raw_value_text [of v rest] raw_value_blank [of "CHR 0x0A"]
  by (auto simp: json_next_def is_space_def simp del: raw_value.simps)

lemma read_json_lines:
  assumes "string_of inp = b @ encoded vs" "b = [] \<or> b = [CHR 0x0A]"
  shows "read_records stream_Next (length vs + Suc n) (JsonReader inp)
    = Ret (map (\<lambda>v. bytes_of (json_text v)) vs, Some ReadEOF)"
  using assms
proof (induction vs arbitrary: inp b)
  case Nil
  then have "json_next inp = (Inl ReadEOF, inp)"
    using raw_value_end raw_value_blank [of "CHR 0x0A"]
    by (auto simp: json_next_def encoded_def is_space_def simp del: raw_value.simps)
  then show ?case by simp
next
  case (Cons v vs)
  have "json_next inp = (Inr (bytes_of (json_text v)), bytes_of (CHR 0x0A # encoded vs))"
    by (rule json_next_value [of _ b]) (use Cons.prems in \<open>simp_all add: encoded_def\<close>)
  moreover have "read_records stream_Next (length vs + Suc n) (JsonReader (bytes_of (CHR 0x0A # encoded vs)))
      = Ret (map (\<lambda>v. bytes_of (json_text v)) vs, Some ReadEOF)"
    by (rule Cons.IH [of _ "[CHR 0x0A]"]) simp_all
  ultimately show ?case by simp
qed

lemma bytes_of_encoded: "bytes_of (encoded vs) = concat (map (\<lambda>v. bytes_of (json_text v) @ [10]) vs)"
proof -
  have "bytes_of (CHR 0x0A # s) = 10 # bytes_of s" for s by (simp add: bytes_of_def)
  moreover have "bytes_of [] = []" by (simp add: bytes_of_def)
  ultimately show ?thesis by (induction vs) (simp_all add: encoded_def bytes_of_append)
qed

text \<open>C32: JSON values put on a stream in the line format, as compact texts, are read off it by the JSON reader as
  they were put, byte for byte and in order, and then comes \<open>io.EOF\<close>.\<close>

theorem json_lines_roundtrip:
  assumes "appends wr out" "out w = []"
  shows "\<exists>w'. put_lines wr (map (\<lambda>v. bytes_of (json_text v)) vs) w = (None, w')
    \<and> read_records stream_Next (length vs + Suc n) (stream_NewReader (out w') alloc True)
      = Ret (map (\<lambda>v. bytes_of (json_text v)) vs, Some ReadEOF)"
proof -
  obtain w' where w': "put_lines wr (map (\<lambda>v. bytes_of (json_text v)) vs) w = (None, w')"
    "out w' = bytes_of (encoded vs)"
    using put_lines_appends [OF assms(1), of "map (\<lambda>v. bytes_of (json_text v)) vs" w] assms(2)
    by (auto simp: bytes_of_encoded comp_def)
  then show ?thesis
    using read_json_lines [of "bytes_of (encoded vs)" "[]" vs n] by (auto simp: stream_NewReader_def)
qed

theorem json_lines_roundtrip_witness:
  "\<exists>w'. put_lines mem_writer [bytes_of (json_text (JInt 12)), bytes_of (json_text (JStr ''x''))] [] = (None, w')
    \<and> read_records stream_Next (length [JInt 12, JStr ''x''] + Suc 0) (stream_NewReader w' 100 True)
      = Ret ([bytes_of (json_text (JInt 12)), bytes_of (json_text (JStr ''x''))], Some ReadEOF)"
  using json_lines_roundtrip [OF appends_mem refl, of "[JInt 12, JStr ''x'']" 0 100]
  by (simp del: read_records.simps put_lines.simps)

end
