(* ===== verification/Buffer.thy ===== *)
theory Buffer
  imports Prelude "HOL-Library.Word"
begin

text \<open>
  \<open>shipshape/util/rpc/buffer/buffer.go\<close>: a byte buffer that keeps its data in memory up to a
  capacity and moves it to a file when it grows beyond.

  In memory the data is a \<open>bytes.Buffer\<close>, which forgets the bytes read and ignores \<open>Seek\<close>; on
  disk it is the contents of the file.  The file system is the record \<open>disk_env\<close>: opening a named
  file and making a temporary one may fail, and a write may take only some of the bytes.
\<close>

type_synonym byte = "8 word"

datatype store = Mem "byte list" | Disk "byte list"

record disk_env =
  df_open :: "string \<Rightarrow> string option"
  df_temp :: "string + string"
  df_write :: "nat \<Rightarrow> nat \<Rightarrow> nat \<times> string option"

record Buffer =
  Capacity :: int
  Path :: string
  pos :: nat
  bsize :: int
  disk :: bool
  bits :: "store option"

definition new_buffer :: "int \<Rightarrow> Buffer" where
  "new_buffer c = \<lparr>Capacity = c, Path = [], pos = 0, bsize = 0, disk = False, bits = None\<rparr>"

datatype io_error = EOF | IOError string

subsection \<open>The store\<close>

text \<open>Reading at most \<open>n\<close> bytes; reading nothing from an empty store is no error.\<close>

definition take_bytes :: "nat \<Rightarrow> byte list \<Rightarrow> byte list \<times> io_error option" where
  "take_bytes n bs = (take n bs, if bs = [] \<and> n > 0 then Some EOF else None)"

definition store_read :: "nat \<Rightarrow> nat \<Rightarrow> store \<Rightarrow> (byte list \<times> io_error option) \<times> store" where
  "store_read p n s = (case s of
     Mem u \<Rightarrow> (take_bytes n u, Mem (drop n u))
   | Disk c \<Rightarrow> (take_bytes n (drop p c), Disk c))"

text \<open>Writing at the end: a \<open>bytes.Buffer\<close> takes everything.\<close>

definition disk_append :: "disk_env \<Rightarrow> byte list \<Rightarrow> byte list \<Rightarrow> (nat \<times> io_error option) \<times> byte list" where
  "disk_append env c data =
     (case df_write env (length c) (length data) of
        (n, None) \<Rightarrow> ((length data, None), c @ data)
      | (n, Some err) \<Rightarrow> ((min n (length data), Some (IOError err)), c @ take n data))"

definition store_write :: "disk_env \<Rightarrow> byte list \<Rightarrow> store \<Rightarrow> (nat \<times> io_error option) \<times> store" where
  "store_write env data s = (case s of
     Mem u \<Rightarrow> ((length data, None), Mem (u @ data))
   | Disk c \<Rightarrow> (case disk_append env c data of (r, c') \<Rightarrow> (r, Disk c')))"

subsection \<open>The operations\<close>

definition Read :: "nat \<Rightarrow> Buffer \<Rightarrow> (byte list \<times> io_error option) \<times> Buffer" where
  "Read n b = (case bits b of
     None \<Rightarrow> (([], Some EOF), b)
   | Some s \<Rightarrow> (case store_read (pos b) n s of ((data, err), s1) \<Rightarrow>
       ((data, err), b\<lparr>bsize := bsize b - int (length data), pos := pos b + length data, bits := Some s1\<rparr>)))"

text \<open>
  \<open>flip\<close>: a new file replaces the store, and the old one is copied into it; copying from a nil
  store panics.  What is copied is what is left to read of a memory store; of a file, what is
  behind its offset, which is its end after any write.
\<close>

definition unread :: "store \<Rightarrow> byte list" where
  "unread s = (case s of Mem u \<Rightarrow> u | Disk c \<Rightarrow> [])"

definition flip :: "disk_env \<Rightarrow> Buffer \<Rightarrow> (io_error option \<times> Buffer) go" where
  "flip env b =
     (if bits b \<noteq> None \<and> disk b then Ret (None, b)
      else
        (let opened = (if Path b \<noteq> []
                       then (case df_open env (Path b) of
                               Some err \<Rightarrow> Inl err | None \<Rightarrow> Inr (b\<lparr>bits := Some (Disk [])\<rparr>))
                       else (case df_temp env of
                               Inr name \<Rightarrow> Inr (b\<lparr>Path := name, bits := Some (Disk [])\<rparr>) | Inl err \<Rightarrow> Inl err))
         in case opened of
              Inl err \<Rightarrow> Ret (Some (IOError err), b)
            | Inr b1 \<Rightarrow>
                go_bind (deref (bits b)) (\<lambda>old.
                  case disk_append env [] (unread old) of
                    ((_, Some err), c) \<Rightarrow> Ret (Some err, b1\<lparr>bits := Some (Disk c)\<rparr>)
                  | ((_, None), c) \<Rightarrow> Ret (None, b1\<lparr>bits := Some (Disk c), disk := True\<rparr>))))"

definition Write :: "disk_env \<Rightarrow> byte list \<Rightarrow> Buffer \<Rightarrow> ((nat \<times> io_error option) \<times> Buffer) go" where
  "Write env data b =
     (let total = bsize b + int (length data);
          b1 = (if bits b = None \<and> total < Capacity b then b\<lparr>bits := Some (Mem [])\<rparr> else b)
      in go_bind (if total > Capacity b then flip env b1 else Ret (None, b1)) (\<lambda>(err, b2).
         case err of
           Some e \<Rightarrow> Ret ((0, Some e), b2)
         | None \<Rightarrow>
             go_bind (deref (bits b2)) (\<lambda>s.
               case store_write env data s of
                 ((n, err), s1) \<Rightarrow> Ret ((n, err), b2\<lparr>bits := Some s1, bsize := bsize b2 + int n\<rparr>))))"

definition Cleanup :: "Buffer \<Rightarrow> string option" where
  "Cleanup b = (if disk b \<and> Path b \<noteq> [] then Some (Path b) else None)"

definition Len :: "Buffer \<Rightarrow> int" where
  "Len b = bsize b"

subsection \<open>The buffer as a queue of bytes\<close>

definition queued :: "Buffer \<Rightarrow> byte list" where
  "queued b = (case bits b of None \<Rightarrow> [] | Some (Mem u) \<Rightarrow> u | Some (Disk c) \<Rightarrow> drop (pos b) c)"

definition wf_buffer :: "Buffer \<Rightarrow> bool" where
  "wf_buffer b \<longleftrightarrow> bsize b = int (length (queued b))
     \<and> (case bits b of None \<Rightarrow> pos b = 0 \<and> \<not> disk b | Some (Mem _) \<Rightarrow> \<not> disk b
        | Some (Disk c) \<Rightarrow> disk b \<and> pos b \<le> length c)"

definition disk_works :: "disk_env \<Rightarrow> bool" where
  "disk_works env \<longleftrightarrow> (\<forall>p. df_open env p = None) \<and> (\<exists>n. df_temp env = Inr n \<and> n \<noteq> [])
     \<and> (\<forall>k n. df_write env k n = (n, None))"

text \<open>Writes the buffer keeps its promise for: the first one has to stay below the capacity, and
  the data may only move to disk as long as nothing was read.\<close>

definition can_write :: "byte list \<Rightarrow> Buffer \<Rightarrow> bool" where
  "can_write data b \<longleftrightarrow>
     (let total = bsize b + int (length data)
      in (bits b = None \<longrightarrow> total < Capacity b)
         \<and> (total > Capacity b \<longrightarrow> disk b \<or> pos b = 0))"

lemma Read_queue:
  assumes "wf_buffer b"
  shows "fst (Read n b) = (take n (queued b), if queued b = [] \<and> (n > 0 \<or> bits b = None) then Some EOF else None)"
    and "queued (snd (Read n b)) = drop n (queued b)" and "wf_buffer (snd (Read n b))"
  using assms
  by (auto simp: Read_def queued_def wf_buffer_def store_read_def take_bytes_def min_def add.commute
      split: option.splits store.splits)

definition wrote_all :: "byte list \<Rightarrow> byte list \<Rightarrow> ((nat \<times> io_error option) \<times> Buffer) go \<Rightarrow> bool" where
  "wrote_all data q res \<longleftrightarrow> (case res of
     Ret ((n, err), b) \<Rightarrow> n = length data \<and> err = None \<and> queued b = q @ data \<and> wf_buffer b
   | Panic _ \<Rightarrow> False)"

lemma Write_wrote_all:
  assumes "wf_buffer b" "can_write data b" "disk_works env"
  shows "wrote_all data (queued b) (Write env data b)"
  using assms
  by (cases "bits b"; cases "the (bits b)")
    (auto simp: wrote_all_def Write_def can_write_def Let_def flip_def disk_append_def store_write_def
      unread_def queued_def wf_buffer_def disk_works_def split: option.splits)

lemma Write_queue:
  assumes "wf_buffer b" "can_write data b" "disk_works env"
  shows "\<exists>b'. Write env data b = Ret ((length data, None), b') \<and> queued b' = queued b @ data \<and> wf_buffer b'"
  using Write_wrote_all [OF assms]
  by (cases "Write env data b") (auto simp: wrote_all_def)

subsection \<open>The contract of a queue\<close>

datatype 'b queue_op = PutOp "'b list" | GetOp nat

fun puts :: "'b queue_op list \<Rightarrow> 'b list" where
  "puts [] = []"
| "puts (PutOp d # ops) = d @ puts ops"
| "puts (GetOp n # ops) = puts ops"

text \<open>A history of writes and reads: what the reads return, and the state after them.\<close>

fun run_ops ::
  "('b list \<Rightarrow> 's \<Rightarrow> ((nat \<times> 'e option) \<times> 's) go) \<Rightarrow> (nat \<Rightarrow> 's \<Rightarrow> ('b list \<times> 'e option) \<times> 's)
     \<Rightarrow> 'b queue_op list \<Rightarrow> 's \<Rightarrow> ('b list \<times> 's) go" where
  "run_ops put get [] s = Ret ([], s)"
| "run_ops put get (PutOp d # ops) s = go_bind (put d s) (\<lambda>((n, err), s1). run_ops put get ops s1)"
| "run_ops put get (GetOp n # ops) s =
     (case get n s of ((d, err), s1) \<Rightarrow>
        go_bind (run_ops put get ops s1) (\<lambda>(out, s2). Ret (d @ out, s2)))"

text \<open>Every write is one the queue allows at that point.\<close>

fun allowed ::
  "('b list \<Rightarrow> 's \<Rightarrow> bool) \<Rightarrow> ('b list \<Rightarrow> 's \<Rightarrow> ((nat \<times> 'e option) \<times> 's) go)
     \<Rightarrow> (nat \<Rightarrow> 's \<Rightarrow> ('b list \<times> 'e option) \<times> 's) \<Rightarrow> 'b queue_op list \<Rightarrow> 's \<Rightarrow> bool" where
  "allowed ok put get [] s = True"
| "allowed ok put get (PutOp d # ops) s \<longleftrightarrow> ok d s
     \<and> (case put d s of Ret (_, s1) \<Rightarrow> allowed ok put get ops s1 | Panic _ \<Rightarrow> True)"
| "allowed ok put get (GetOp n # ops) s \<longleftrightarrow> allowed ok put get ops (snd (get n s))"

locale byte_queue =
  fixes contents :: "'s \<Rightarrow> 'b list"
    and inv :: "'s \<Rightarrow> bool"
    and ok :: "'b list \<Rightarrow> 's \<Rightarrow> bool"
    and put :: "'b list \<Rightarrow> 's \<Rightarrow> ((nat \<times> 'e option) \<times> 's) go"
    and get :: "nat \<Rightarrow> 's \<Rightarrow> ('b list \<times> 'e option) \<times> 's"
  assumes put_queue: "inv s \<Longrightarrow> ok d s \<Longrightarrow>
      \<exists>s'. put d s = Ret ((length d, None), s') \<and> contents s' = contents s @ d \<and> inv s'"
    and get_data: "inv s \<Longrightarrow> fst (fst (get n s)) = take n (contents s)"
    and get_rest: "inv s \<Longrightarrow> contents (snd (get n s)) = drop n (contents s)"
    and get_inv: "inv s \<Longrightarrow> inv (snd (get n s))"
begin

lemma fifo:
  assumes "inv s" "allowed ok put get ops s"
  shows "\<exists>out s'. run_ops put get ops s = Ret (out, s') \<and> inv s'
    \<and> out @ contents s' = contents s @ puts ops"
  using assms
proof (induction ops arbitrary: s)
  case (Cons x ops)
  show ?case
  proof (cases x)
    case (PutOp d)
    with Cons.prems obtain s1 where s1: "put d s = Ret ((length d, None), s1)"
      "contents s1 = contents s @ d" "inv s1"
      using put_queue [of s d] by auto
    with Cons.prems PutOp have "allowed ok put get ops s1" by simp
    from Cons.IH [OF s1(3) this] s1 PutOp show ?thesis by auto
  next
    case (GetOp n)
    obtain d e s1 where g: "get n s = ((d, e), s1)" by (metis prod.collapse)
    have s1: "d = take n (contents s)" "contents s1 = drop n (contents s)" "inv s1"
      using get_data [OF Cons.prems(1), of n] get_rest [OF Cons.prems(1), of n]
        get_inv [OF Cons.prems(1), of n] g by auto
    have "allowed ok put get ops s1" using Cons.prems(2) GetOp g by simp
    from Cons.IH [OF s1(3) this] obtain out s' where r: "run_ops put get ops s1 = Ret (out, s')"
      "inv s'" "out @ contents s' = contents s1 @ puts ops" by blast
    then have "(d @ out) @ contents s' = contents s @ puts ops" using s1 by simp
    with r g GetOp show ?thesis by simp
  qed
qed simp

end

text \<open>The buffer keeps the contract on a disk that works.\<close>

definition works :: disk_env where
  "works = \<lparr>df_open = (\<lambda>p. None), df_temp = Inr ''/tmp/b'', df_write = (\<lambda>k n. (n, None))\<rparr>"

lemma disk_works_works: "disk_works works"
  by (simp add: disk_works_def works_def)

definition good_write :: "disk_env \<Rightarrow> byte list \<Rightarrow> Buffer \<Rightarrow> bool" where
  "good_write env d b \<longleftrightarrow> can_write d b \<and> disk_works env"

interpretation buffer: byte_queue queued wf_buffer "good_write env" "Write env" Read for env
  by unfold_locales (auto simp: good_write_def Write_queue Read_queue)

subsection \<open>Properties\<close>

lemma allowed_good_write:
  "disk_works env \<Longrightarrow> allowed (good_write env) put get ops b = allowed can_write put get ops b"
  by (induction ops arbitrary: b rule: puts.induct) (auto simp: good_write_def split: go.splits)

text \<open>C18: on a disk that works the buffer is a queue: whatever writes and reads are made, as long as
  the first write stays below the capacity and the data moves to disk before anything is read,
  nothing panics, and what was read followed by what is left is what was written.\<close>

theorem buffer_fifo:
  assumes "wf_buffer b" "disk_works env" "allowed can_write (Write env) Read ops b"
  shows "\<exists>out b'. run_ops (Write env) Read ops b = Ret (out, b') \<and> wf_buffer b'
    \<and> out @ queued b' = queued b @ puts ops"
  using assms by (intro buffer.fifo) (simp_all add: allowed_good_write)

lemma wf_new_buffer: "wf_buffer (new_buffer c)"
  by (simp add: wf_buffer_def new_buffer_def queued_def)

theorem buffer_fifo_witness:
  "\<exists>out b'. run_ops (Write works) Read [PutOp [1, 2], PutOp [3, 4, 5], GetOp 4] (new_buffer 4) = Ret (out, b')
    \<and> out @ queued b' = [1, 2, 3, 4, 5]"
proof -
  have "allowed can_write (Write works) Read [PutOp [1, 2], PutOp [3, 4, 5], GetOp 4] (new_buffer 4)"
    by code_simp
  from buffer_fifo [OF wf_new_buffer disk_works_works this] show ?thesis
    by (auto simp: queued_def new_buffer_def)
qed

text \<open>A first write that reaches the capacity panics, so that a buffer whose capacity is not
  positive, which should keep everything on disk, cannot be written to at all.\<close>

theorem first_write_panics:
  assumes "bits b = None" "Capacity b \<le> bsize b + int (length data)" "disk_works env"
  shows "panics (Write env data b)"
  using assms by (auto simp: Write_def flip_def Let_def disk_works_def split: sum.splits)

theorem first_write_panics_witness: "panics (Write works [1] (new_buffer 0))"
  by (rule first_write_panics [OF _ _ disk_works_works]) (simp_all add: new_buffer_def)

text \<open>When the data moves to disk after some of it was read, as many unread bytes are lost as
  were read before.\<close>

theorem flip_loses:
  assumes "wf_buffer b" "disk_works env" "bits b = Some (Mem u)"
    and "Capacity b < bsize b + int (length data)"
  shows "\<exists>b'. Write env data b = Ret ((length data, None), b')
    \<and> queued b' = drop (pos b) (queued b @ data)
    \<and> Len b' = int (length (queued b @ data))"
  using assms
  by (auto simp: Write_def flip_def Let_def disk_works_def disk_append_def store_write_def unread_def
      queued_def wf_buffer_def Len_def split: sum.splits)

theorem flip_loses_witness:
  "\<exists>b'. Write works [4, 5] \<lparr>Capacity = 3, Path = [], pos = 1, bsize = 2, disk = False, bits = Some (Mem [2, 3])\<rparr>
      = Ret ((2, None), b') \<and> queued b' = [3, 4, 5]"
  using flip_loses [OF _ disk_works_works, of "\<lparr>Capacity = 3, Path = [], pos = 1, bsize = 2, disk = False,
      bits = Some (Mem [2, 3])\<rparr>" "[2, 3]" "[4, 5]"]
  by (auto simp: wf_buffer_def queued_def)

end
