(* ===== verification/Walk.thy ===== *)
theory Walk
  imports Paths
begin

text \<open>
  \<open>filepath.Walk\<close> over a tree of directory entries, and the driver's \<open>collectAllFiles\<close> on
  top of it (\<open>shipshape/service/driver.go\<close>).

  The tree is what \<open>Lstat\<close> and reading directories report: a regular file, a symbolic link,
  a directory with its entries in the order Go sorts them, a directory whose entries cannot be
  read, or an entry whose \<open>Lstat\<close> fails.  A visited path is the root followed by the names
  \<open>rel\<close> below it, so \<open>filepath.Rel(root, path)\<close> is those names joined, and never an error.
\<close>

datatype fnode =
    File
  | Symlink
  | Directory "(string \<times> fnode) list"
  | Unreadable string
  | Missing string

record FileInfo =
  fi_name :: string
  fi_is_dir :: bool
  fi_is_symlink :: bool

datatype walk_ret = WNil | WSkipDir | WErr string

type_synonym 's walk_fn =
  "string list \<Rightarrow> FileInfo option \<Rightarrow> string option \<Rightarrow> 's \<Rightarrow> walk_ret \<times> 's"

fun is_dir :: "fnode \<Rightarrow> bool" where
  "is_dir (Directory _) = True"
| "is_dir (Unreadable _) = True"
| "is_dir _ = False"

fun is_missing :: "fnode \<Rightarrow> bool" where
  "is_missing (Missing _) = True"
| "is_missing _ = False"

definition info_of :: "string \<Rightarrow> fnode \<Rightarrow> FileInfo" where
  "info_of name nd = \<lparr>fi_name = name, fi_is_dir = is_dir nd, fi_is_symlink = (nd = Symlink)\<rparr>"

fun walk :: "'s walk_fn \<Rightarrow> string list \<Rightarrow> string \<Rightarrow> fnode \<Rightarrow> 's \<Rightarrow> walk_ret \<times> 's"
  and walk_entries ::
    "'s walk_fn \<Rightarrow> string list \<Rightarrow> (string \<times> fnode) list \<Rightarrow> 's \<Rightarrow> walk_ret \<times> 's" where
  "walk f rel name (Directory es) s =
     (case f rel (Some (info_of name (Directory es))) None s of
        (WNil, s1) \<Rightarrow> walk_entries f rel es s1
      | (WSkipDir, s1) \<Rightarrow> (WNil, s1)
      | (WErr e, s1) \<Rightarrow> (WErr e, s1))"
| "walk f rel name (Unreadable msg) s =
     (case f rel (Some (info_of name (Unreadable msg))) None s of
        (WNil, s1) \<Rightarrow> f rel (Some (info_of name (Unreadable msg))) (Some msg) s1
      | (WSkipDir, s1) \<Rightarrow> (WNil, s1)
      | (WErr e, s1) \<Rightarrow> (WErr e, s1))"
| "walk f rel name (Missing msg) s = f rel None (Some msg) s"
| "walk f rel name nd s = f rel (Some (info_of name nd)) None s"
| "walk_entries f rel [] s = (WNil, s)"
| "walk_entries f rel ((n, nd) # es) s =
     (case walk f (rel @ [n]) n nd s of
        (WNil, s1) \<Rightarrow> walk_entries f rel es s1
      | (WSkipDir, s1) \<Rightarrow>
          if is_dir nd \<or> is_missing nd then walk_entries f rel es s1 else (WSkipDir, s1)
      | (WErr e, s1) \<Rightarrow> (WErr e, s1))"

subsection \<open>Collecting the files of a directory\<close>

definition rel_path :: "string list \<Rightarrow> string" where
  "rel_path rel = (if rel = [] then ''.'' else Join rel ''/'')"

definition walkpath :: "string list walk_fn" where
  "walkpath rel f err paths =
     (case f of
        None \<Rightarrow> (WNil, paths)
      | Some fi \<Rightarrow>
          if fi_is_symlink fi then (WNil, paths)
          else let dot = HasPrefix (fi_name fi) ''.''
               in if fi_is_dir fi \<and> dot then (WSkipDir, paths)
                  else if \<not> fi_is_dir fi \<and> \<not> dot then (WNil, paths @ [rel_path rel])
                  else (WNil, paths))"

definition collectAllFiles :: "string \<Rightarrow> fnode \<Rightarrow> string + string list" where
  "collectAllFiles root tree =
     (case walk walkpath [] (Base root) tree [] of
        (WErr err, paths) \<Rightarrow> Inl err
      | (_, paths) \<Rightarrow> Inr paths)"

subsection \<open>What it returns\<close>

text \<open>The visible files below a node: no name on the way starts with a dot.\<close>

fun visible :: "string list \<Rightarrow> string \<Rightarrow> fnode \<Rightarrow> string list list"
  and visible_entries :: "string list \<Rightarrow> (string \<times> fnode) list \<Rightarrow> string list list" where
  "visible rel name (Directory es) =
     (if HasPrefix name ''.'' then [] else visible_entries rel es)"
| "visible rel name File = (if HasPrefix name ''.'' then [] else [rel])"
| "visible rel name nd = []"
| "visible_entries rel [] = []"
| "visible_entries rel ((n, nd) # es) = visible (rel @ [n]) n nd @ visible_entries rel es"

lemma walk_walkpath:
  "walk walkpath rel name nd paths = (WNil, paths @ map rel_path (visible rel name nd))"
  "walk_entries walkpath rel es paths = (WNil, paths @ map rel_path (visible_entries rel es))"
  by (induction rel name nd and rel es arbitrary: paths and paths rule: visible_visible_entries.induct)
    (auto simp: walkpath_def info_of_def Let_def)

lemma collectAllFiles_visible:
  "collectAllFiles root tree = Inr (map rel_path (visible [] (Base root) tree))"
  by (simp add: collectAllFiles_def walk_walkpath)

text \<open>A regular file at a position of the tree.\<close>

fun file_at :: "fnode \<Rightarrow> string list \<Rightarrow> bool" where
  "file_at File [] = True"
| "file_at (Directory es) (n # ns) = (\<exists>(m, nd) \<in> set es. m = n \<and> file_at nd ns)"
| "file_at _ _ = False"

lemma visible_iff:
  "p \<in> set (visible rel name nd) \<longleftrightarrow>
     \<not> HasPrefix name ''.'' \<and> (\<exists>ns. p = rel @ ns \<and> file_at nd ns \<and> (\<forall>n \<in> set ns. \<not> HasPrefix n ''.''))"
  "p \<in> set (visible_entries rel es) \<longleftrightarrow>
     (\<exists>n ns. p = rel @ n # ns \<and> (\<exists>(m, nd) \<in> set es. m = n \<and> file_at nd ns)
        \<and> (\<forall>x \<in> set (n # ns). \<not> HasPrefix x ''.''))"
proof (induction rel name nd and rel es arbitrary: p and p rule: visible_visible_entries.induct)
  case (1 rel name es)
  have "file_at (Directory es) ns \<longleftrightarrow> (\<exists>n ns'. ns = n # ns' \<and> (\<exists>(m, nd) \<in> set es. m = n \<and> file_at nd ns'))" for ns
    by (cases ns) auto
  with 1 show ?case by (auto, blast+)
next
  case (2 rel name)
  have "file_at File ns \<longleftrightarrow> ns = []" for ns by (cases ns) auto
  then show ?case by auto
next
  case (5 rel n nd es)
  show ?case (is "_ \<longleftrightarrow> ?rhs")
  proof -
    have "p \<in> set (visible (rel @ [n]) n nd) \<longleftrightarrow>
        (\<exists>ns. p = rel @ n # ns \<and> file_at nd ns \<and> (\<forall>x \<in> set (n # ns). \<not> HasPrefix x ''.''))"
      unfolding 5(1) by auto
    moreover have "p \<in> set (visible_entries rel ((n, nd) # es)) \<longleftrightarrow>
        p \<in> set (visible (rel @ [n]) n nd) \<or> p \<in> set (visible_entries rel es)" by simp
    moreover have "(\<exists>(m, d) \<in> set ((n, nd) # es). m = n' \<and> file_at d ns) \<longleftrightarrow>
        n' = n \<and> file_at nd ns \<or> (\<exists>(m, d) \<in> set es. m = n' \<and> file_at d ns)" for n' ns
      by auto
    ultimately show ?thesis using 5(2) [of p] by (simp only:) blast
  qed
qed auto

text \<open>C26: with a repository root whose name does not start with a dot, \<open>collectAllFiles\<close> never
  fails and returns the relative paths of exactly the regular files below the root that are
  reached through real directories and have no name starting with a dot on the way.\<close>

theorem collectAllFiles_exact:
  assumes "\<not> HasPrefix (Base root) ''.''"
  shows "\<exists>paths. collectAllFiles root tree = Inr paths \<and>
           set paths = rel_path ` {ns. file_at tree ns \<and> (\<forall>n \<in> set ns. \<not> HasPrefix n ''.'')}"
  using assms by (auto simp: collectAllFiles_visible visible_iff)

theorem collectAllFiles_exact_witness:
  "\<exists>paths. collectAllFiles ''/shipshape-workspace''
      (Directory [(''.git'', Directory [(''config'', File)]), (''a.go'', File)]) = Inr paths
     \<and> ''a.go'' \<in> set paths"
proof -
  let ?t = "Directory [(''.git'', Directory [(''config'', File)]), (''a.go'', File)]"
  have "\<not> HasPrefix (Base ''/shipshape-workspace'') ''.''"
    by (simp add: Base_def HasPrefix_def)
  from collectAllFiles_exact [OF this, of ?t] obtain paths where
    p: "collectAllFiles ''/shipshape-workspace'' ?t = Inr paths"
      "set paths = rel_path ` {ns. file_at ?t ns \<and> (\<forall>n \<in> set ns. \<not> HasPrefix n ''.'')}"
    by blast
  have "[''a.go''] \<in> {ns. file_at ?t ns \<and> (\<forall>n \<in> set ns. \<not> HasPrefix n ''.'')}"
    by (auto simp: HasPrefix_def)
  then have "rel_path [''a.go''] \<in> set paths" unfolding p(2) by (rule imageI)
  with p(1) show ?thesis by (auto simp: rel_path_def)
qed

end
