(* ===== verification/Driver.thy ===== *)
theory Driver
  imports Config FileUtil Walk
begin

text \<open>
  \<open>shipshape/service/driver.go\<close>: the service that runs the analyzers on a request.

  The analyzers are other processes, reached by RPC at the addresses the driver holds.  Their
  answers are the fields \<open>de_categories\<close>, \<open>de_stage\<close> and \<open>de_analyze\<close> of the
  environment: \<open>Inl\<close> an RPC error, \<open>Inr\<close> the response; so a call returns, and the panic of the client's
  \<open>Call\<close> on a response that declares the identity encoding (\<open>HttpEncoding\<close>), which no server of this library picks for
  this client, is outside.  Messages hold no nil element in their lists (see \<open>MessageJson\<close> and \<open>Config\<close>).

  Here each fan-out is read sequentially, as the list of its answers in the order of the channels,
  and the goroutines are taken to have their clients.  The goroutines do share more than the
  channels: all of them go through the unguarded cache of \<open>getHTTPClient\<close>.  \<open>Fanout\<close> has the
  cache and all schedules, and shows when the sequential reading is what they give.  Log output is
  left out.
\<close>

subsection \<open>State and environment\<close>

record serviceInfo =
  si_analyzer :: string
  si_categories :: Set
  si_stage :: Stage

record ShipshapeDriver =
  AnalyzerLocations :: "string list"
  serviceMap :: "serviceInfo go_map"
  defaultCategories :: Set

record 'w driver_env =
  de_os :: "'w os"
  de_yaml :: "string \<Rightarrow> string + ShipshapeConfig"
  de_tree :: "string \<Rightarrow> 'w \<Rightarrow> fnode"
  de_categories :: "string \<Rightarrow> string + string list"
  de_stage :: "string \<Rightarrow> string + Stage option"
  de_analyze :: "string \<Rightarrow> AnalyzeRequest \<Rightarrow> string + AnalyzeResponse"
  ord_config :: "string list \<Rightarrow> string list"
  ord_missing :: "string list \<Rightarrow> string list"
  ord_services :: "string list \<Rightarrow> string list"
  ord_slice :: "string list \<Rightarrow> string list"

definition driver_orders :: "'w driver_env \<Rightarrow> bool" where
  "driver_orders env \<longleftrightarrow> range_order (ord_config env) \<and> range_order (ord_missing env)
     \<and> range_order (ord_services env) \<and> range_order (ord_slice env)"

subsection \<open>Constructors\<close>

definition NewDriver :: "string list \<Rightarrow> Set \<Rightarrow> ShipshapeDriver" where
  "NewDriver analyzerLocations defaults =
     \<lparr>AnalyzerLocations = map (\<lambda>addr. TrimPrefix addr ''http://'') analyzerLocations,
      serviceMap = [], defaultCategories = defaults\<rparr>"

definition NewTestDriver :: "serviceInfo list \<Rightarrow> ShipshapeDriver" where
  "NewTestDriver services =
     (let trim = (\<lambda>info. TrimPrefix (si_analyzer info) ''http://'')
      in \<lparr>AnalyzerLocations = map trim services,
          serviceMap = fold (\<lambda>info m. AList.update (trim info)
            \<lparr>si_analyzer = trim info, si_categories = si_categories info, si_stage = si_stage info\<rparr> m)
            services [],
          defaultCategories = []\<rparr>)"

subsection \<open>Asking the analyzers what they offer\<close>

text \<open>
  A response without a stage makes \<open>callGetAnalyzerInfo\<close> dereference nil, in a goroutine
  that nothing recovers.
\<close>

definition callGetAnalyzerInfo :: "'w driver_env \<Rightarrow> string \<Rightarrow> serviceInfo go" where
  "callGetAnalyzerInfo env analyzer =
     (let cats = (case de_categories env analyzer of Inl err \<Rightarrow> New [] | Inr cs \<Rightarrow> New cs)
      in case de_stage env analyzer of
           Inl err \<Rightarrow> Ret \<lparr>si_analyzer = analyzer, si_categories = New [], si_stage = Stage_zero\<rparr>
         | Inr st \<Rightarrow> go_bind (deref st) (\<lambda>stage.
             Ret \<lparr>si_analyzer = analyzer, si_categories = cats, si_stage = stage\<rparr>))"

fun collect_infos :: "'w driver_env \<Rightarrow> string list \<Rightarrow> serviceInfo list go" where
  "collect_infos env [] = Ret []"
| "collect_infos env (analyzer # rest) =
     go_bind (callGetAnalyzerInfo env analyzer) (\<lambda>info.
     go_bind (collect_infos env rest) (\<lambda>infos. Ret (info # infos)))"

definition getAllServiceInfo :: "'w driver_env \<Rightarrow> ShipshapeDriver \<Rightarrow> serviceInfo go_map go" where
  "getAllServiceInfo env sd =
     go_bind (collect_infos env (AnalyzerLocations sd)) (\<lambda>infos.
     Ret (fold (\<lambda>info m. AList.update (si_analyzer info) info m) infos []))"

definition allCats :: "'w driver_env \<Rightarrow> ShipshapeDriver \<Rightarrow> Set" where
  "allCats env sd =
     fold (\<lambda>a catSet. case map_of (serviceMap sd) a of
             None \<Rightarrow> catSet | Some info \<Rightarrow> AddSet catSet (si_categories info))
       (ord_services env (keys (serviceMap sd))) (New [])"

definition GetCategory :: "'w driver_env \<Rightarrow> ShipshapeDriver \<Rightarrow> string list go" where
  "GetCategory env sd =
     go_bind (getAllServiceInfo env sd) (\<lambda>m.
     Ret (ToSlice (ord_slice env) (allCats env (sd\<lparr>serviceMap := m\<rparr>))))"

subsection \<open>The files to analyze\<close>

definition filterPaths :: "string list \<Rightarrow> string list \<Rightarrow> string list" where
  "filterPaths ignoreDirs filePaths =
     filter (\<lambda>file. \<not> list_ex (\<lambda>dir. HasPrefix file dir) ignoreDirs) filePaths"

definition retrieveAndFilterFiles ::
  "(string \<Rightarrow> fnode) \<Rightarrow> string \<Rightarrow> string list \<Rightarrow> string list \<Rightarrow> string + string list" where
  "retrieveAndFilterFiles tree root files ignores =
     (if length files = 0 then
        (case collectAllFiles root (tree root) of
           Inl err \<Rightarrow> Inl err
         | Inr fs \<Rightarrow> Inr (filterPaths ignores fs))
      else Inr (filterPaths ignores files))"

subsection \<open>Calling the analyzers\<close>

definition generateFailure :: "string \<Rightarrow> string \<Rightarrow> AnalyzeResponse" where
  "generateFailure cat message =
     \<lparr>ar_note = [], ar_failure = [\<lparr>f_category = Some cat, f_message = Some message\<rparr>]\<rparr>"

definition callAnalyze :: "'w driver_env \<Rightarrow> string \<Rightarrow> AnalyzeRequest \<Rightarrow> AnalyzeResponse" where
  "callAnalyze env analyzer req =
     (case de_analyze env analyzer req of
        Inl err \<Rightarrow> \<lparr>ar_note = [], ar_failure = [\<lparr>f_category = None,
          f_message = Some (''Error from analyzer '' @ analyzer @ '': '' @ err)\<rparr>]\<rparr>
      | Inr resp \<Rightarrow> resp)"

definition filterResults :: "ShipshapeContext \<Rightarrow> AnalyzeResponse \<Rightarrow> AnalyzeResponse" where
  "filterResults contxt response =
     (let files = New (ctx_file_path contxt)
      in \<lparr>ar_note = filter (\<lambda>note. n_category note \<noteq> None \<and>
            (case n_location note of
               None \<Rightarrow> False
             | Some loc \<Rightarrow> (case loc_path loc of None \<Rightarrow> True | Some p \<Rightarrow> Set_Contains files p)))
            (ar_note response),
          ar_failure = ar_failure response\<rparr>)"

text \<open>The loop of \<open>filterResults\<close> over the pointers of the slice, which may be nil.\<close>

fun filter_pointers :: "Set \<Rightarrow> Note option list \<Rightarrow> Note list go" where
  "filter_pointers files [] = Ret []"
| "filter_pointers files (p # ps) =
     go_bind (deref p) (\<lambda>note. go_bind (filter_pointers files ps) (\<lambda>keep.
       Ret (if n_category note \<noteq> None \<and>
            (case n_location note of
               None \<Rightarrow> False
             | Some loc \<Rightarrow> (case loc_path loc of None \<Rightarrow> True | Some path \<Rightarrow> Set_Contains files path))
          then note # keep else keep)))"

lemma filter_pointers_Some:
  "filter_pointers (New (ctx_file_path contxt)) (map Some (ar_note response)) = Ret (ar_note (filterResults contxt response))"
proof -
  have "filter_pointers files (map Some ns) = Ret (filter (\<lambda>note. n_category note \<noteq> None \<and>
      (case n_location note of None \<Rightarrow> False
       | Some loc \<Rightarrow> (case loc_path loc of None \<Rightarrow> True | Some p \<Rightarrow> Set_Contains files p))) ns)" for files ns
    by (induction ns) (simp_all add: deref_def)
  then show ?thesis by (simp add: filterResults_def)
qed

text \<open>A nil note of an analyzer's response stops the process.\<close>

theorem filterResults_nil_note: "panics (filter_pointers files ps) \<longleftrightarrow> None \<in> set ps"
proof (induction ps)
  case (Cons p ps)
  then show ?case by (cases p; cases "filter_pointers files ps") (auto simp: deref_def)
qed simp

text \<open>
  The first loop of \<open>callAllAnalyzers\<close> starts the calls \<open>analyzer_calls\<close>, the second one
  collects their responses in the same order.
\<close>

definition analyzer_calls ::
  "'w driver_env \<Rightarrow> ShipshapeDriver \<Rightarrow> Set \<Rightarrow> ShipshapeContext \<Rightarrow> Stage
     \<Rightarrow> (string \<times> AnalyzeRequest) list" where
  "analyzer_calls env sd desiredCats contxt stage =
     concat (map (\<lambda>analyzer. case map_of (serviceMap sd) analyzer of
         None \<Rightarrow> []
       | Some info \<Rightarrow>
           if si_stage info \<noteq> stage then []
           else let cats = Intersect (si_categories info) desiredCats
                in if length cats > 0
                   then [(analyzer, \<lparr>areq_context = Some contxt,
                                     areq_category = ToSlice (ord_slice env) cats\<rparr>)]
                   else [])
       (ord_services env (keys (serviceMap sd))))"

definition callAllAnalyzers ::
  "'w driver_env \<Rightarrow> ShipshapeDriver \<Rightarrow> Set \<Rightarrow> ShipshapeContext \<Rightarrow> Stage \<Rightarrow> AnalyzeResponse list" where
  "callAllAnalyzers env sd desiredCats contxt stage =
     map (\<lambda>(analyzer, req). filterResults contxt (callAnalyze env analyzer req))
       (analyzer_calls env sd desiredCats contxt stage)"

subsection \<open>Running a request\<close>

text \<open>
  The categories to run: those of the request, else those of the configuration, else the
  defaults.  The flag tells whether \<open>desiredCats\<close> is then the very map the driver holds as
  its defaults, so that changing one changes the other.
\<close>

definition desired_categories ::
  "ShipshapeDriver \<Rightarrow> string list \<Rightarrow> string \<Rightarrow> config option \<Rightarrow> string + (bool \<times> Set)" where
  "desired_categories sd triggered event cfg =
     (let defaults = (\<lambda>d. if length d = 0 then Inr (True, defaultCategories sd) else Inr (False, d))
      in if length triggered > 0 then defaults (New triggered)
         else case cfg of
             None \<Rightarrow> defaults []
           | Some c \<Rightarrow>
               (let d = New (categories c)
                in if length d > 0 then defaults d
                   else if event \<noteq> DefaultEvent
                        then Inl (''No categories configured for event '' @ event)
                        else defaults d))"

definition missing_failure :: "ShipshapeDriver \<Rightarrow> string \<Rightarrow> AnalyzeResponse" where
  "missing_failure sd missing =
     generateFailure missing (''The triggered category '' @ Quote missing
       @ '' could not be found at the locations '' @ print_slice (AnalyzerLocations sd))"

text \<open>
  What a run leaves: the responses it sends on the way out, the error it returns, and the
  analyzer calls it made, in order.
\<close>

record run_result =
  rr_ars :: "AnalyzeResponse list"
  rr_err :: "string option"
  rr_calls :: "(string \<times> AnalyzeRequest) list"

definition run_analysis ::
  "'w driver_env \<Rightarrow> ShipshapeDriver \<Rightarrow> ShipshapeContext \<Rightarrow> Stage option \<Rightarrow> string \<Rightarrow> config option
     \<Rightarrow> AnalyzeResponse list \<Rightarrow> Set \<Rightarrow> 'w \<Rightarrow> run_result" where
  "run_analysis env sd ctx st root cfg ars desiredCats w =
     (let ignorePaths = (case cfg of None \<Rightarrow> [] | Some c \<Rightarrow> ignore c)
      in case retrieveAndFilterFiles (\<lambda>r. de_tree env r w) root (ctx_file_path ctx) ignorePaths of
           Inl err \<Rightarrow> \<lparr>rr_ars = ars @ [generateFailure ''Driver setup'' err],
                       rr_err = Some err, rr_calls = []\<rparr>
         | Inr files \<Rightarrow>
             let contxt = ctx\<lparr>ctx_file_path := files\<rparr>
             in if length files = 0 then \<lparr>rr_ars = ars, rr_err = None, rr_calls = []\<rparr>
                else let stage = (case st of None \<Rightarrow> Stage_PRE_BUILD | Some s \<Rightarrow> s)
                     in if stage = Stage_PRE_BUILD
                        then \<lparr>rr_ars = ars @ callAllAnalyzers env sd desiredCats contxt stage,
                              rr_err = None,
                              rr_calls = analyzer_calls env sd desiredCats contxt stage\<rparr>
                        else \<lparr>rr_ars = ars, rr_err = None, rr_calls = []\<rparr>)"

text \<open>
  The part of \<open>Run\<close> inside the repository.  The receiver is a copy of the driver, so its new
  \<open>serviceMap\<close> is lost on return; its \<open>defaultCategories\<close> is the driver's own map, and
  removing from it stays.
\<close>

definition run_inside ::
  "'w driver_env \<Rightarrow> ShipshapeDriver \<Rightarrow> ShipshapeRequest \<Rightarrow> ShipshapeContext \<Rightarrow> string \<Rightarrow> string
     \<Rightarrow> 'w \<Rightarrow> (run_result \<times> ShipshapeDriver) go" where
  "run_inside env sd inp ctx root event w =
     (case loadConfig (ord_config env) (\<lambda>p. ReadFile (de_os env) p w) (de_yaml env)
             configFilename event of
        Inl err \<Rightarrow> Ret (\<lparr>rr_ars = [generateFailure ''Driver setup'' err],
                         rr_err = Some err, rr_calls = []\<rparr>, sd)
      | Inr cfg \<Rightarrow>
          go_bind (getAllServiceInfo env sd) (\<lambda>infos.
          let sd1 = sd\<lparr>serviceMap := infos\<rparr>; allC = allCats env sd1
          in case desired_categories sd (sreq_triggered_category inp) event cfg of
               Inl err \<Rightarrow> Ret (\<lparr>rr_ars = [], rr_err = Some err, rr_calls = []\<rparr>, sd)
             | Inr (shared, desiredCats) \<Rightarrow>
                 let missingCats = RemoveSet (AddSet (New []) desiredCats) allC;
                     ars = map (missing_failure sd) (ord_missing env (keys missingCats));
                     desiredCats = RemoveSet desiredCats missingCats;
                     sd2 = (if shared then sd\<lparr>defaultCategories := desiredCats\<rparr> else sd)
                 in if length desiredCats = 0
                    then Ret (\<lparr>rr_ars = ars, rr_err = None, rr_calls = []\<rparr>, sd2)
                    else Ret (run_analysis env sd1 ctx (sreq_stage inp) root cfg ars desiredCats w, sd2)))"

definition Run ::
  "'w driver_env \<Rightarrow> ShipshapeDriver \<Rightarrow> ShipshapeRequest \<Rightarrow> 'w
     \<Rightarrow> (run_result \<times> ShipshapeDriver \<times> 'w) go" where
  "Run env sd inp w =
     go_bind (deref (sreq_event inp)) (\<lambda>event.
     go_bind (deref (sreq_stage inp)) (\<lambda>_.
     go_bind (deref (sreq_context inp)) (\<lambda>ctx.
     go_bind (deref (ctx_repo_root ctx)) (\<lambda>_.
     case ctx_repo_root ctx of
       None \<Rightarrow> Ret (\<lparr>rr_ars = [], rr_err = Some ''No repo root was set'', rr_calls = []\<rparr>, sd, w)
     | Some root \<Rightarrow>
         (case ChangeDir (de_os env) root w of ((orgDir, restore, err), w1) \<Rightarrow>
            (case err of
               Some e \<Rightarrow> Ret (\<lparr>rr_ars = [generateFailure ''Driver setup'' e],
                               rr_err = Some e, rr_calls = []\<rparr>, sd, w1)
             | None \<Rightarrow>
                 go_bind (run_inside env sd inp ctx root event w1) (\<lambda>(res, sd').
                 Ret (res, sd', snd (restore_dir (de_os env) restore w1)))))))))"

text \<open>\<open>WaitForAnalyzers\<close>: \<open>finished\<close> is the order in which the health checks end.\<close>

definition WaitForAnalyzers ::
  "(string list \<Rightarrow> string list) \<Rightarrow> (string \<Rightarrow> string option) \<Rightarrow> string list \<Rightarrow> string option go_map" where
  "WaitForAnalyzers finished waitUntilReady analyzerList =
     fold (\<lambda>addr health. AList.update addr (waitUntilReady addr) health) (finished analyzerList) []"

subsection \<open>What the driver learns about the analyzers\<close>

text \<open>The categories an address offers: both RPCs have to succeed.\<close>

definition offers :: "'w driver_env \<Rightarrow> string \<Rightarrow> string \<Rightarrow> bool" where
  "offers env a c \<longleftrightarrow> (case (de_categories env a, de_stage env a) of
     (Inr cs, Inr _) \<Rightarrow> c \<in> set cs | _ \<Rightarrow> False)"

definition at_stage :: "'w driver_env \<Rightarrow> string \<Rightarrow> Stage \<Rightarrow> bool" where
  "at_stage env a s \<longleftrightarrow> de_stage env a = Inr (Some s)"

definition stages_set :: "'w driver_env \<Rightarrow> ShipshapeDriver \<Rightarrow> bool" where
  "stages_set env sd \<longleftrightarrow> (\<forall>a \<in> set (AnalyzerLocations sd). de_stage env a \<noteq> Inr None)"

lemma callGetAnalyzerInfo_Ret:
  assumes "callGetAnalyzerInfo env a = Ret info"
  shows "si_analyzer info = a" "wf_set (si_categories info)"
    "Set_Contains (si_categories info) c \<longleftrightarrow> offers env a c"
    "offers env a c \<Longrightarrow> si_stage info = s \<longleftrightarrow> at_stage env a s"
  using assms
  by (auto simp: callGetAnalyzerInfo_def offers_def at_stage_def deref_def strset_simps Let_def
      split: sum.splits option.splits)

lemma callGetAnalyzerInfo_panics: "panics (callGetAnalyzerInfo env a) \<longleftrightarrow> de_stage env a = Inr None"
  by (auto simp: callGetAnalyzerInfo_def deref_def Let_def split: sum.splits option.splits)

lemma collect_infos_panics:
  "panics (collect_infos env as) \<longleftrightarrow> (\<exists>a \<in> set as. de_stage env a = Inr None)"
proof (induction as)
  case (Cons a as)
  have "panics (callGetAnalyzerInfo env a) \<longleftrightarrow> de_stage env a = Inr None"
    by (rule callGetAnalyzerInfo_panics)
  with Cons show ?case
    by (cases "callGetAnalyzerInfo env a"; cases "collect_infos env as") auto
qed simp

lemma collect_infos_Ret:
  "collect_infos env as = Ret infos \<Longrightarrow>
     map si_analyzer infos = as \<and> (\<forall>i \<in> set infos. callGetAnalyzerInfo env (si_analyzer i) = Ret i)"
proof (induction as arbitrary: infos)
  case (Cons a as)
  then obtain i infs where i: "callGetAnalyzerInfo env a = Ret i" "collect_infos env as = Ret infs"
    and infos: "infos = i # infs"
    by (auto simp: go_bind_Ret_iff)
  from Cons.IH [OF i(2)] callGetAnalyzerInfo_Ret(1) [OF i(1)] i(1) show ?case
    unfolding infos by simp
qed simp

lemma map_of_fold_update:
  "map_of (fold (\<lambda>i m. AList.update (f i) i m) is m) k =
     (case first_such (\<lambda>i. f i = k) (rev is) of Some i \<Rightarrow> Some i | None \<Rightarrow> map_of m k)"
  by (induction "is" arbitrary: m)
    (auto simp: first_such_append update_conv' split: option.splits)

lemma distinct_fold_update:
  "distinct (keys m) \<Longrightarrow> distinct (keys (fold (\<lambda>i m. AList.update (f i) (g i) m) is m))"
  by (induction "is" arbitrary: m) (auto simp: distinct_update)

lemma getAllServiceInfo_Ret:
  assumes "getAllServiceInfo env sd = Ret m"
  shows "distinct (keys m)"
    and "set (keys m) = set (AnalyzerLocations sd)"
    and "map_of m a = Some info \<Longrightarrow> callGetAnalyzerInfo env a = Ret info"
proof -
  from assms obtain infos where c: "collect_infos env (AnalyzerLocations sd) = Ret infos"
    and m: "m = fold (\<lambda>info m. AList.update (si_analyzer info) info m) infos []"
    by (auto simp: getAllServiceInfo_def go_bind_Ret_iff)
  note i = collect_infos_Ret [OF c]
  show d: "distinct (keys m)" unfolding m by (rule distinct_fold_update) simp
  have k: "map_of m a = first_such (\<lambda>i. si_analyzer i = a) (rev infos)" for a
    unfolding m map_of_fold_update by (simp split: option.splits)
  show "callGetAnalyzerInfo env a = Ret info" if "map_of m a = Some info"
    using that i unfolding k by (auto dest: first_such_SomeD)
  have "a \<in> set (keys m) \<longleftrightarrow> a \<in> set (AnalyzerLocations sd)" for a
  proof -
    have "a \<in> set (keys m) \<longleftrightarrow> map_of m a \<noteq> None" by (simp add: map_of_eq_None_iff)
    also have "\<dots> \<longleftrightarrow> a \<in> si_analyzer ` set infos"
      unfolding k by (auto simp: first_such_None_iff)
    also have "si_analyzer ` set infos = set (AnalyzerLocations sd)"
      using i by (metis set_map)
    finally show ?thesis .
  qed
  then show "set (keys m) = set (AnalyzerLocations sd)" by blast
qed

lemma getAllServiceInfo_panics: "panics (getAllServiceInfo env sd) \<longleftrightarrow> \<not> stages_set env sd"
  using collect_infos_panics [of env "AnalyzerLocations sd"]
  by (cases "collect_infos env (AnalyzerLocations sd)") (auto simp: getAllServiceInfo_def stages_set_def)

lemma getAllServiceInfo_info:
  assumes "getAllServiceInfo env sd = Ret m"
  shows "(\<exists>info. map_of m a = Some info) \<longleftrightarrow> a \<in> set (AnalyzerLocations sd)"
    and "map_of m a = Some info \<Longrightarrow> callGetAnalyzerInfo env a = Ret info"
proof -
  have "(\<exists>info. map_of m a = Some info) \<longleftrightarrow> a \<in> set (keys m)"
    by (metis map_of_eq_None_iff not_Some_eq set_map)
  with getAllServiceInfo_Ret(2) [OF assms]
  show "(\<exists>info. map_of m a = Some info) \<longleftrightarrow> a \<in> set (AnalyzerLocations sd)" by simp
qed (rule getAllServiceInfo_Ret(3) [OF assms])

lemma allCats_fold:
  assumes "\<forall>a \<in> set as. \<forall>info. map_of m a = Some info \<longrightarrow> wf_set (si_categories info)" "wf_set s"
  shows "wf_set (fold (\<lambda>a s. case map_of m a of None \<Rightarrow> s | Some info \<Rightarrow> AddSet s (si_categories info)) as s)
    \<and> (Set_Contains (fold (\<lambda>a s. case map_of m a of None \<Rightarrow> s | Some info \<Rightarrow> AddSet s (si_categories info)) as s) c
      \<longleftrightarrow> Set_Contains s c \<or> (\<exists>a \<in> set as. \<exists>info. map_of m a = Some info \<and> Set_Contains (si_categories info) c))"
  using assms
proof (induction as arbitrary: s)
  case (Cons a as)
  define s' where "s' = (case map_of m a of None \<Rightarrow> s | Some info \<Rightarrow> AddSet s (si_categories info))"
  have s': "wf_set s'" "Set_Contains s' c \<longleftrightarrow> Set_Contains s c
      \<or> (\<exists>info. map_of m a = Some info \<and> Set_Contains (si_categories info) c)"
    using Cons.prems
    by (cases "map_of m a"; simp add: s'_def Set_Contains_AddSet wf_set_ops)+
  then show ?case
    using Cons.IH [OF _ s'(1)] s'(2) Cons.prems(1) by (simp add: s'_def [symmetric])
qed simp

lemma allCats_offers:
  assumes "getAllServiceInfo env sd = Ret m" "range_order (ord_services env)"
  shows "wf_set (allCats env (sd\<lparr>serviceMap := m\<rparr>))"
    and "Set_Contains (allCats env (sd\<lparr>serviceMap := m\<rparr>)) c
         \<longleftrightarrow> (\<exists>a \<in> set (AnalyzerLocations sd). offers env a c)"
proof -
  note g = getAllServiceInfo_Ret [OF assms(1)] getAllServiceInfo_info [OF assms(1)]
  let ?as = "ord_services env (keys m)"
  have as: "set ?as = set (AnalyzerLocations sd)" using assms(2) g(1,2) by simp
  have wf: "wf_set (si_categories info)" if "map_of m a = Some info" for a info
    using callGetAnalyzerInfo_Ret(2) [OF g(3)] that by blast
  have off: "Set_Contains (si_categories info) c \<longleftrightarrow> offers env a c" if "map_of m a = Some info" for a info
    using callGetAnalyzerInfo_Ret(3) [OF g(3)] that by blast
  have "\<forall>a \<in> set ?as. \<forall>info. map_of m a = Some info \<longrightarrow> wf_set (si_categories info)"
    using wf by blast
  note f = allCats_fold [OF this, of "New []" c]
  from f show "wf_set (allCats env (sd\<lparr>serviceMap := m\<rparr>))" by (simp add: allCats_def)
  from f have "Set_Contains (allCats env (sd\<lparr>serviceMap := m\<rparr>)) c \<longleftrightarrow>
     (\<exists>a \<in> set ?as. \<exists>info. map_of m a = Some info \<and> Set_Contains (si_categories info) c)"
    by (simp add: allCats_def strset_simps)
  also have "\<dots> \<longleftrightarrow> (\<exists>a \<in> set (AnalyzerLocations sd). offers env a c)"
    unfolding as using off g(4) by blast
  finally show "Set_Contains (allCats env (sd\<lparr>serviceMap := m\<rparr>)) c \<longleftrightarrow> \<dots>" .
qed

lemma analyzer_calls_iff:
  assumes "getAllServiceInfo env sd = Ret m" "driver_orders env"
  shows "(a, req) \<in> set (analyzer_calls env (sd\<lparr>serviceMap := m\<rparr>) desired ctx stage) \<longleftrightarrow>
    a \<in> set (AnalyzerLocations sd) \<and> (\<exists>info. map_of m a = Some info \<and> si_stage info = stage
      \<and> length (Intersect (si_categories info) desired) > 0
      \<and> req = \<lparr>areq_context = Some ctx,
               areq_category = ToSlice (ord_slice env) (Intersect (si_categories info) desired)\<rparr>)"
proof -
  note g = getAllServiceInfo_Ret [OF assms(1)]
  have "set (ord_services env (keys m)) = set (AnalyzerLocations sd)"
    using assms(2) g(1,2) by (simp add: driver_orders_def)
  then have "(a, req) \<in> set (analyzer_calls env (sd\<lparr>serviceMap := m\<rparr>) desired ctx stage) \<longleftrightarrow>
    (\<exists>b \<in> set (AnalyzerLocations sd). \<exists>info. map_of m b = Some info \<and> si_stage info = stage
      \<and> length (Intersect (si_categories info) desired) > 0
      \<and> (a, req) = (b, \<lparr>areq_context = Some ctx,
               areq_category = ToSlice (ord_slice env) (Intersect (si_categories info) desired)\<rparr>))"
    unfolding analyzer_calls_def set_concat set_map
    by (intro iffI; clarsimp simp: Let_def split: option.splits if_splits) force+
  then show ?thesis by auto
qed

text \<open>
  What a call looks like: it goes to an analyzer of the stage that offers one of the categories
  to run, and asks for exactly those of them it offers.
\<close>

definition runnable :: "'w driver_env \<Rightarrow> Set \<Rightarrow> string \<Rightarrow> string set" where
  "runnable env desired a = {c. offers env a c \<and> Set_Contains desired c}"

lemma analyzer_calls_exact:
  assumes "getAllServiceInfo env sd = Ret m" "driver_orders env"
  shows "(\<exists>req. (a, req) \<in> set (analyzer_calls env (sd\<lparr>serviceMap := m\<rparr>) desired ctx stage)) \<longleftrightarrow>
     a \<in> set (AnalyzerLocations sd) \<and> at_stage env a stage \<and> runnable env desired a \<noteq> {}"
    and "(a, req) \<in> set (analyzer_calls env (sd\<lparr>serviceMap := m\<rparr>) desired ctx stage) \<Longrightarrow>
     areq_context req = Some ctx \<and> distinct (areq_category req)
       \<and> set (areq_category req) = runnable env desired a"
proof -
  note iff = analyzer_calls_iff [OF assms, of a _ desired ctx stage]
  have cats: "set (ToSlice (ord_slice env) (Intersect (si_categories info) desired)) = runnable env desired a"
       "distinct (ToSlice (ord_slice env) (Intersect (si_categories info) desired))"
       "length (Intersect (si_categories info) desired) > 0 \<longleftrightarrow> runnable env desired a \<noteq> {}"
       "runnable env desired a \<noteq> {} \<Longrightarrow> si_stage info = stage \<longleftrightarrow> at_stage env a stage"
    if "map_of m a = Some info" for info
  proof -
    note c = callGetAnalyzerInfo_Ret [OF getAllServiceInfo_info(2) [OF assms(1) that]]
    have ord: "range_order (ord_slice env)" using assms(2) by (simp add: driver_orders_def)
    show "set (ToSlice (ord_slice env) (Intersect (si_categories info) desired)) = runnable env desired a"
      using strset.slice_meet [OF ord c(2)] c(3) by (simp add: runnable_def)
    show "distinct (ToSlice (ord_slice env) (Intersect (si_categories info) desired))"
      using ord by (simp add: strset.distinct_slice strset.inv_meet)
    show "length (Intersect (si_categories info) desired) > 0 \<longleftrightarrow> runnable env desired a \<noteq> {}"
      using strset.size_of_empty [OF strset.inv_meet [of "si_categories info" desired]] c(2,3)
      by (auto simp: runnable_def strset.mem_meet)
    show "runnable env desired a \<noteq> {} \<Longrightarrow> si_stage info = stage \<longleftrightarrow> at_stage env a stage"
      using c(4) by (auto simp: runnable_def)
  qed
  show "(\<exists>req. (a, req) \<in> set (analyzer_calls env (sd\<lparr>serviceMap := m\<rparr>) desired ctx stage)) \<longleftrightarrow>
     a \<in> set (AnalyzerLocations sd) \<and> at_stage env a stage \<and> runnable env desired a \<noteq> {}"
    unfolding iff using cats(3,4) getAllServiceInfo_info(1) [OF assms(1), of a] by blast
  show "(a, req) \<in> set (analyzer_calls env (sd\<lparr>serviceMap := m\<rparr>) desired ctx stage) \<Longrightarrow>
     areq_context req = Some ctx \<and> distinct (areq_category req)
       \<and> set (areq_category req) = runnable env desired a"
    unfolding iff using cats(1,2) by auto
qed

subsection \<open>What a run does\<close>

text \<open>
  The specification of a run: the categories it is asked for, the ones some analyzer offers,
  and the files it is about.
\<close>

definition wanted ::
  "ShipshapeDriver \<Rightarrow> string list \<Rightarrow> string \<Rightarrow> config option \<Rightarrow> string set option" where
  "wanted sd triggered event cfg =
     (let defaults = {c. Set_Contains (defaultCategories sd) c}
      in if triggered \<noteq> [] then Some (set triggered)
         else case cfg of
             None \<Rightarrow> Some defaults
           | Some c \<Rightarrow> if categories c \<noteq> [] then Some (set (categories c))
                        else if event = ''manual'' then Some defaults else None)"

definition offered :: "'w driver_env \<Rightarrow> ShipshapeDriver \<Rightarrow> string set" where
  "offered env sd = {c. \<exists>a \<in> set (AnalyzerLocations sd). offers env a c}"

definition selected_files ::
  "'w driver_env \<Rightarrow> ShipshapeContext \<Rightarrow> string \<Rightarrow> config option \<Rightarrow> 'w \<Rightarrow> string list" where
  "selected_files env ctx root cfg w =
     filter (\<lambda>f. case cfg of None \<Rightarrow> True | Some c \<Rightarrow> \<forall>dir \<in> set (ignore c). \<not> HasPrefix f dir)
       (if ctx_file_path ctx = [] then map rel_path (visible [] (Base root) (de_tree env root w))
        else ctx_file_path ctx)"

text \<open>The request names an event, a stage and a root that can be entered; \<open>w1\<close> is the world
  inside it.\<close>

definition enters ::
  "'w driver_env \<Rightarrow> ShipshapeRequest \<Rightarrow> 'w \<Rightarrow> string \<Rightarrow> Stage \<Rightarrow> ShipshapeContext \<Rightarrow> string \<Rightarrow> 'w \<Rightarrow> bool"
where
  "enters env inp w event stage ctx root w1 \<longleftrightarrow>
     sreq_event inp = Some event \<and> sreq_stage inp = Some stage \<and> sreq_context inp = Some ctx
     \<and> ctx_repo_root ctx = Some root \<and> (\<exists>d. Getwd (de_os env) w = Inr d)
     \<and> Chdir (de_os env) root w = (None, w1)"

definition config_in ::
  "'w driver_env \<Rightarrow> string \<Rightarrow> 'w \<Rightarrow> string + config option" where
  "config_in env event w =
     loadConfig (ord_config env) (\<lambda>p. ReadFile (de_os env) p w) (de_yaml env) configFilename event"

lemma length_New_0 [simp]: "length (New xs) = 0 \<longleftrightarrow> xs = []" "New xs = [] \<longleftrightarrow> xs = []"
  using strset.size_of_empty [OF strset.inv_make [of xs]]
  by (metis Set_Contains_New ex_in_conv list.set(1) list.size(3) length_0_conv set_empty)+

lemma desired_categories_wanted:
  "desired_categories sd triggered event cfg =
     (case wanted sd triggered event cfg of
        None \<Rightarrow> Inl (''No categories configured for event '' @ event)
      | Some _ \<Rightarrow>
         if triggered \<noteq> [] then Inr (False, New triggered)
         else case cfg of
             None \<Rightarrow> Inr (True, defaultCategories sd)
           | Some c \<Rightarrow> if categories c \<noteq> [] then Inr (False, New (categories c))
                        else Inr (True, defaultCategories sd))"
  by (auto simp: desired_categories_def wanted_def Let_def DefaultEvent_def split: option.splits)

lemma desired_categories_Inr:
  assumes "desired_categories sd triggered event cfg = Inr (shared, d)" "wf_set (defaultCategories sd)"
  shows "wanted sd triggered event cfg = Some {c. Set_Contains d c}" "wf_set d"
    "shared \<Longrightarrow> d = defaultCategories sd"
  using assms unfolding desired_categories_wanted
  by (auto simp: wanted_def Let_def strset_simps split: option.splits if_splits)

lemma retrieveAndFilterFiles_selected:
  "retrieveAndFilterFiles (\<lambda>r. de_tree env r w) root (ctx_file_path ctx)
      (case cfg of None \<Rightarrow> [] | Some c \<Rightarrow> ignore c) = Inr (selected_files env ctx root cfg w)"
proof -
  have "filterPaths (case cfg of None \<Rightarrow> [] | Some c \<Rightarrow> ignore c) fs =
     filter (\<lambda>f. case cfg of None \<Rightarrow> True | Some c \<Rightarrow> \<forall>dir \<in> set (ignore c). \<not> HasPrefix f dir) fs" for fs
    by (cases cfg) (simp_all add: filterPaths_def list_ex_iff)
  then show ?thesis
    by (simp add: retrieveAndFilterFiles_def selected_files_def collectAllFiles_visible)
qed

lemma run_analysis_result:
  "run_analysis env sd ctx (Some stage) root cfg ars desired w =
     (let files = selected_files env ctx root cfg w;
          contxt = ctx\<lparr>ctx_file_path := files\<rparr>;
          calls = (if files \<noteq> [] \<and> stage = Stage_PRE_BUILD
                   then analyzer_calls env sd desired contxt stage else [])
      in \<lparr>rr_ars = ars @ map (\<lambda>(a, req). filterResults contxt (callAnalyze env a req)) calls,
          rr_err = None, rr_calls = calls\<rparr>)"
  by (simp add: run_analysis_def retrieveAndFilterFiles_selected Let_def callAllAnalyzers_def)

lemma Run_enters:
  assumes "enters env inp w event stage ctx root w1" "Run env sd inp w = Ret (res, sd', w')"
  shows "run_inside env sd inp ctx root event w1 = Ret (res, sd')"
  using assms
  by (auto simp: enters_def Run_def ChangeDir_def go_bind_Ret_iff split: sum.splits)

lemma Run_Ret_cases:
  assumes "Run env sd inp w = Ret (res, sd', w')"
  obtains (fails) event e where "sreq_event inp = Some event"
      "res = \<lparr>rr_ars = [generateFailure ''Driver setup'' e], rr_err = Some e, rr_calls = []\<rparr>" "sd' = sd"
    | (enters) event stage ctx root w1 where "enters env inp w event stage ctx root w1"
  using assms
  by (auto simp: Run_def enters_def ChangeDir_def go_bind_Ret_iff deref_def
      split: option.splits sum.splits prod.splits)


definition uses_defaults :: "string list \<Rightarrow> config option \<Rightarrow> bool" where
  "uses_defaults triggered cfg \<longleftrightarrow>
     triggered = [] \<and> (\<forall>c. cfg = Some c \<longrightarrow> categories c = [])"

lemma desired_categories_shared:
  "desired_categories sd triggered event cfg = Inr (shared, d) \<Longrightarrow> shared \<longleftrightarrow> uses_defaults triggered cfg"
  unfolding desired_categories_wanted
  by (auto simp: uses_defaults_def split: option.splits if_splits)

definition planned_calls ::
  "'w driver_env \<Rightarrow> ShipshapeDriver \<Rightarrow> serviceInfo go_map \<Rightarrow> Set \<Rightarrow> ShipshapeContext \<Rightarrow> Stage
     \<Rightarrow> (string \<times> AnalyzeRequest) list" where
  "planned_calls env sd m desired contxt stage =
     (if ctx_file_path contxt \<noteq> [] \<and> stage = Stage_PRE_BUILD
      then analyzer_calls env (sd\<lparr>serviceMap := m\<rparr>) desired contxt stage else [])"

lemma planned_calls_empty:
  assumes "getAllServiceInfo env sd = Ret m" "driver_orders env" "\<And>c. \<not> Set_Contains desired c"
  shows "planned_calls env sd m desired contxt stage = []"
proof -
  have "x \<notin> set (analyzer_calls env (sd\<lparr>serviceMap := m\<rparr>) desired contxt stage)" for x
    using analyzer_calls_exact(1) [OF assms(1,2), of "fst x" desired contxt stage] assms(3)
    by (metis (mono_tags, lifting) empty_Collect_eq prod.collapse runnable_def)
  then have "analyzer_calls env (sd\<lparr>serviceMap := m\<rparr>) desired contxt stage = []"
    by (cases "analyzer_calls env (sd\<lparr>serviceMap := m\<rparr>) desired contxt stage") auto
  then show ?thesis by (auto simp: planned_calls_def)
qed

lemma run_inside_ran:
  assumes run: "run_inside env sd inp ctx root event w = Ret (res, sd')"
    and stage: "sreq_stage inp = Some stage"
    and ords: "driver_orders env" and wf: "wf_set (defaultCategories sd)"
    and cfg: "config_in env event w = Inr cfg"
    and W: "wanted sd (sreq_triggered_category inp) event cfg = Some W"
  obtains m ms desired where "getAllServiceInfo env sd = Ret m"
    "wf_set desired" "{c. Set_Contains desired c} = W \<inter> offered env sd"
    "distinct ms" "set ms = W - offered env sd"
    "let contxt = ctx\<lparr>ctx_file_path := selected_files env ctx root cfg w\<rparr>;
         calls = planned_calls env sd m desired contxt stage
     in res = \<lparr>rr_ars = map (missing_failure sd) ms
                 @ map (\<lambda>(a, req). filterResults contxt (callAnalyze env a req)) calls,
               rr_err = None, rr_calls = calls\<rparr>"
    "sd' = (if uses_defaults (sreq_triggered_category inp) cfg
            then sd\<lparr>defaultCategories := desired\<rparr> else sd)"
proof -
  obtain shared d where d: "desired_categories sd (sreq_triggered_category inp) event cfg = Inr (shared, d)"
    using W by (cases "desired_categories sd (sreq_triggered_category inp) event cfg")
      (auto simp: desired_categories_wanted split: option.splits if_splits)
  note dw = desired_categories_Inr [OF d wf] desired_categories_shared [OF d]
  have memd: "{c. Set_Contains d c} = W" using dw(1) W by simp
  from run cfg obtain m where m: "getAllServiceInfo env sd = Ret m"
    by (auto simp: run_inside_def config_in_def go_bind_Ret_iff split: sum.splits)
  let ?all = "allCats env (sd\<lparr>serviceMap := m\<rparr>)"
  define missing where "missing = RemoveSet (AddSet (New []) d) ?all"
  define desired where "desired = RemoveSet d missing"
  define ms where "ms = ord_missing env (keys missing)"
  have ord: "range_order (ord_services env)" "range_order (ord_missing env)"
    using ords by (simp_all add: driver_orders_def)
  note ac = allCats_offers [OF m ord(1)]
  have ms: "set ms = W - offered env sd" "distinct ms"
    using strset.set_slice_missing [OF ord(2) dw(2) ac(1)] strset.distinct_slice [OF ord(2) strset.inv_missing]
      ac(2) memd by (auto simp: ms_def missing_def ToSlice_def offered_def)
  have des: "wf_set desired" "{c. Set_Contains desired c} = W \<inter> offered env sd"
    using dw(2) strset.mem_runnable [OF dw(2) ac(1)] ac(2) memd
    by (auto simp: desired_def missing_def offered_def)
  let ?contxt = "ctx\<lparr>ctx_file_path := selected_files env ctx root cfg w\<rparr>"
  let ?calls = "planned_calls env sd m desired ?contxt stage"
  have res: "res = \<lparr>rr_ars = map (missing_failure sd) ms
                 @ map (\<lambda>(a, req). filterResults ?contxt (callAnalyze env a req)) ?calls,
               rr_err = None, rr_calls = ?calls\<rparr>
     \<and> sd' = (if shared then sd\<lparr>defaultCategories := desired\<rparr> else sd)"
  proof (cases "length desired = 0")
    case True
    then have "\<And>c. \<not> Set_Contains desired c" using strset.size_of_empty [OF des(1)] by simp
    then have "?calls = []" by (rule planned_calls_empty [OF m ords])
    then show ?thesis
      using run cfg m d True
      by (auto simp: run_inside_def config_in_def Let_def missing_def [symmetric]
          desired_def [symmetric] ms_def [symmetric])
  next
    case False
    then show ?thesis
      using run cfg m d stage
      by (auto simp: run_inside_def config_in_def Let_def missing_def [symmetric]
          desired_def [symmetric] ms_def [symmetric] run_analysis_result planned_calls_def)
  qed
  show thesis
    using that [OF m des ms(2,1)] res dw(4) by (simp add: Let_def)
qed

lemma run_inside_cases:
  assumes "run_inside env sd inp ctx root event w = Ret (res, sd')"
  obtains (config) e where "config_in env event w = Inl e"
      "res = \<lparr>rr_ars = [generateFailure ''Driver setup'' e], rr_err = Some e, rr_calls = []\<rparr>" "sd' = sd"
    | (unconfigured) cfg where "config_in env event w = Inr cfg"
      "wanted sd (sreq_triggered_category inp) event cfg = None"
      "res = \<lparr>rr_ars = [], rr_err = Some (''No categories configured for event '' @ event), rr_calls = []\<rparr>"
      "sd' = sd"
    | (ran) cfg W where "config_in env event w = Inr cfg"
      "wanted sd (sreq_triggered_category inp) event cfg = Some W"
proof (cases "config_in env event w")
  case (Inl e)
  with assms show ?thesis by (intro config) (auto simp: run_inside_def config_in_def)
next
  case (Inr cfg)
  show ?thesis
  proof (cases "wanted sd (sreq_triggered_category inp) event cfg")
    case None
    with Inr assms show ?thesis
      by (intro unconfigured)
        (auto simp: run_inside_def config_in_def desired_categories_wanted go_bind_Ret_iff Let_def)
  next
    case (Some W)
    with Inr show ?thesis by (rule ran)
  qed
qed


text \<open>Short of a panic, what a run sends is failures of its own and then the filtered response of
  every call it made.\<close>

lemma Run_responses:
  assumes "Run env sd inp w = Ret (res, sd', w')" "driver_orders env" "wf_set (defaultCategories sd)"
  shows "\<exists>own. (\<forall>ar \<in> set own. \<exists>c m. ar = generateFailure c m)
    \<and> rr_ars res = own @ map (\<lambda>(a, req). filterResults (the (areq_context req)) (callAnalyze env a req)) (rr_calls res)
    \<and> (\<forall>(a, req) \<in> set (rr_calls res). areq_context req \<noteq> None)"
  using assms(1)
proof (cases rule: Run_Ret_cases)
  case (enters event stage ctx root w1)
  then have st: "sreq_stage inp = Some stage" by (simp add: enters_def)
  note inside = Run_enters [OF enters assms(1)]
  from inside show ?thesis
  proof (cases rule: run_inside_cases)
    case (ran cfg W)
    let ?contxt = "ctx\<lparr>ctx_file_path := selected_files env ctx root cfg w1\<rparr>"
    obtain m ms desired where m: "getAllServiceInfo env sd = Ret m"
      and res: "let contxt = ?contxt; calls = planned_calls env sd m desired contxt stage
         in res = \<lparr>rr_ars = map (missing_failure sd) ms
                 @ map (\<lambda>(a, req). filterResults contxt (callAnalyze env a req)) calls,
               rr_err = None, rr_calls = calls\<rparr>"
      using run_inside_ran [OF inside st assms(2,3) ran] by metis
    have "areq_context req = Some ?contxt" if "(a, req) \<in> set (rr_calls res)" for a req
      using that res analyzer_calls_exact(2) [OF m assms(2), of a req desired ?contxt stage]
      by (auto simp: Let_def planned_calls_def split: if_splits)
    then have "\<forall>x \<in> set (rr_calls res). areq_context (snd x) = Some ?contxt" by auto
    then have "rr_ars res = map (missing_failure sd) ms
        @ map (\<lambda>(a, req). filterResults (the (areq_context req)) (callAnalyze env a req)) (rr_calls res)"
      using res by (auto simp: Let_def)
    moreover have "\<forall>ar \<in> set (map (missing_failure sd) ms). \<exists>c m. ar = generateFailure c m"
      by (auto simp: missing_failure_def)
    ultimately show ?thesis using \<open>\<forall>x \<in> set (rr_calls res). _ x\<close> by (intro exI [of _ "map (missing_failure sd) ms"]) auto
  qed auto
qed auto

subsection \<open>A concrete run\<close>

text \<open>One analyzer that offers \<open>go vet\<close> and reports a note in and one out of scope, a second
  address nothing listens at, and a configuration that ignores \<open>vendor/\<close>.\<close>

definition note_at :: "string \<Rightarrow> string \<Rightarrow> Note" where
  "note_at cat path = empty_note\<lparr>n_category := Some cat,
     n_location := Some (empty_location\<lparr>loc_path := Some path\<rparr>)\<rparr>"

definition demo_env :: "string \<Rightarrow> string list \<Rightarrow> string driver_env" where
  "demo_env event cats =
     \<lparr>de_os = plain_os\<lparr>ReadFile := (\<lambda>f w. FileContent ''yaml'')\<rparr>,
      de_yaml = (\<lambda>c. Inr \<lparr>sc_global = Some \<lparr>gc_images = [], gc_ignore = [''vendor/'']\<rparr>,
                           sc_events = [\<lparr>ec_event = Some event, ec_categories = cats\<rparr>]\<rparr>),
      de_tree = (\<lambda>r w. Directory [(''a.go'', File), (''vendor'', Directory [(''b.go'', File)])]),
      de_categories = (\<lambda>a. if a = ''localhost:10005'' then Inr [''go vet''] else Inl ''refused''),
      de_stage = (\<lambda>a. if a = ''localhost:10005'' then Inr (Some Stage_PRE_BUILD) else Inl ''refused''),
      de_analyze = (\<lambda>a req. Inr \<lparr>ar_note = [note_at ''go vet'' ''a.go'', note_at ''go vet'' ''vendor/b.go''],
                                   ar_failure = []\<rparr>),
      ord_config = (\<lambda>xs. xs), ord_missing = (\<lambda>xs. xs), ord_services = (\<lambda>xs. xs), ord_slice = (\<lambda>xs. xs)\<rparr>"

definition demo_driver :: ShipshapeDriver where
  "demo_driver = NewDriver [''http://localhost:10005'', ''localhost:10006''] (New [''go vet'', ''PyLint''])"

definition demo_context :: ShipshapeContext where
  "demo_context = empty_context\<lparr>ctx_repo_root := Some ''/shipshape-workspace''\<rparr>"

definition demo_request :: "string list \<Rightarrow> string \<Rightarrow> ShipshapeRequest" where
  "demo_request cats event = \<lparr>sreq_context = Some demo_context, sreq_triggered_category = cats,
     sreq_event = Some event, sreq_stage = Some Stage_PRE_BUILD\<rparr>"

lemma driver_orders_demo: "driver_orders (demo_env event cats)"
  by (simp add: driver_orders_def demo_env_def)

lemma enters_demo:
  "enters (demo_env e cs) (demo_request cats event) ''/home'' event Stage_PRE_BUILD demo_context
     ''/shipshape-workspace'' ''/shipshape-workspace''"
  by (simp add: enters_def demo_env_def demo_request_def demo_context_def empty_context_def plain_os_def)

lemma demo_run:
  "Run (demo_env ''manual'' [''go vet'']) demo_driver (demo_request [''go vet'', ''Ghost''] ''manual'') ''/home'' =
     Ret (\<lparr>rr_ars = [missing_failure demo_driver ''Ghost'',
                     \<lparr>ar_note = [note_at ''go vet'' ''a.go''], ar_failure = []\<rparr>], rr_err = None,
           rr_calls = [(''localhost:10005'',
             \<lparr>areq_context = Some (demo_context\<lparr>ctx_file_path := [''a.go'']\<rparr>),
              areq_category = [''go vet'']\<rparr>)]\<rparr>, demo_driver, ''/home'')"
  by code_simp


lemma config_demo:
  "config_in (demo_env ''manual'' [''go vet'']) ''manual'' w
     = Inr (Some \<lparr>images = [], ignore = [''vendor/''], categories = [''go vet'']\<rparr>)"
  "config_in (demo_env ''IDE'' [''go vet'']) ''manual'' w
     = Inr (Some \<lparr>images = [], ignore = [''vendor/''], categories = []\<rparr>)"
  "config_in (demo_env ''IDE'' [''go vet'']) ''REVIEW'' w
     = Inr (Some \<lparr>images = [], ignore = [''vendor/''], categories = []\<rparr>)"
  by (simp_all add: config_in_def demo_env_def plain_os_def loadConfig_def unmarshalConfigBytes_def
      validateConfig_def buildConfig_def new_config_def eventWithName_def GetEvent_def getNames_def
      defaultName_def)

lemma wf_demo_driver: "wf_set (defaultCategories demo_driver)"
  by (simp add: demo_driver_def NewDriver_def)

lemma stages_demo: "stages_set (demo_env e cs) demo_driver"
  by (simp add: stages_set_def demo_env_def)

lemma locations_demo: "AnalyzerLocations demo_driver = [''localhost:10005'', ''localhost:10006'']"
  by (simp add: demo_driver_def NewDriver_def TrimPrefix_def HasPrefix_def)

lemma offered_demo: "offered (demo_env e cs) demo_driver = {''go vet''}"
  by (auto simp: offered_def locations_demo offers_def demo_env_def)

lemma wanted_demo:
  "wanted demo_driver (sreq_triggered_category (demo_request [''go vet'', ''Ghost''] ''manual'')) ''manual'' cfg
     = Some {''go vet'', ''Ghost''}"
  "wanted demo_driver (sreq_triggered_category (demo_request [] ''manual'')) ''manual''
     (Some \<lparr>images = [], ignore = [''vendor/''], categories = []\<rparr>) = Some {''go vet'', ''PyLint''}"
  by (auto simp: wanted_def demo_request_def demo_driver_def NewDriver_def strset_simps)

lemmas demo_facts = driver_orders_demo wf_demo_driver

lemma demo_run_defaults:
  "\<exists>res sd' w'. Run (demo_env ''IDE'' [''go vet'']) demo_driver (demo_request [] ''manual'') ''/home''
     = Ret (res, sd', w')"
proof -
  have "\<not> panics (Run (demo_env ''IDE'' [''go vet'']) demo_driver (demo_request [] ''manual'') ''/home'')"
    by code_simp
  then show ?thesis
    by (cases "Run (demo_env ''IDE'' [''go vet'']) demo_driver (demo_request [] ''manual'') ''/home''") auto
qed

subsection \<open>Properties\<close>

text \<open>C3: in a run that gets as far as its categories, the responses start with one failure for
  each category asked for that no analyzer offers, each named once, followed by exactly the
  filtered responses of the analyzers called, in call order; no other error is reported.\<close>

theorem Run_reports_missing:
  assumes "Run env sd inp w = Ret (res, sd', w')" "enters env inp w event stage ctx root w1"
    and "config_in env event w1 = Inr cfg"
    and "wanted sd (sreq_triggered_category inp) event cfg = Some W"
    and "driver_orders env" "wf_set (defaultCategories sd)"
  shows "rr_err res = None \<and> (\<exists>ms. distinct ms \<and> set ms = W - offered env sd \<and>
    rr_ars res = map (missing_failure sd) ms
      @ map (\<lambda>(a, req). filterResults (the (areq_context req)) (callAnalyze env a req)) (rr_calls res))"
proof -
  from assms(2) have st: "sreq_stage inp = Some stage" by (simp add: enters_def)
  obtain m ms desired where m: "getAllServiceInfo env sd = Ret m"
    and ms: "distinct ms" "set ms = W - offered env sd"
    and res: "let contxt = ctx\<lparr>ctx_file_path := selected_files env ctx root cfg w1\<rparr>;
         calls = planned_calls env sd m desired contxt stage
     in res = \<lparr>rr_ars = map (missing_failure sd) ms
                 @ map (\<lambda>(a, req). filterResults contxt (callAnalyze env a req)) calls,
               rr_err = None, rr_calls = calls\<rparr>"
    using run_inside_ran [OF Run_enters [OF assms(2,1)] st assms(5,6,3,4)] by metis
  have "areq_context req = Some (ctx\<lparr>ctx_file_path := selected_files env ctx root cfg w1\<rparr>)"
    if "(a, req) \<in> set (rr_calls res)" for a req
    using that res analyzer_calls_exact(2) [OF m assms(5)]
    by (auto simp: Let_def planned_calls_def split: if_splits)
  then have "map (\<lambda>(a, req). filterResults (the (areq_context req)) (callAnalyze env a req)) (rr_calls res)
      = map (\<lambda>(a, req). filterResults (ctx\<lparr>ctx_file_path := selected_files env ctx root cfg w1\<rparr>)
               (callAnalyze env a req)) (rr_calls res)"
    by auto
  with ms res show ?thesis by (auto simp: Let_def)
qed

theorem Run_reports_missing_witness:
  "\<exists>res sd' w'. Run (demo_env ''manual'' [''go vet'']) demo_driver
       (demo_request [''go vet'', ''Ghost''] ''manual'') ''/home'' = Ret (res, sd', w')
     \<and> rr_err res = None \<and> missing_failure demo_driver ''Ghost'' \<in> set (rr_ars res)"
proof -
  note r = Run_reports_missing [OF demo_run enters_demo config_demo(1) wanted_demo(1) demo_facts,
      unfolded offered_demo]
  then show ?thesis using demo_run by auto
qed

text \<open>C2: such a run calls exactly the analyzers of the pre-build stage that offer a wanted
  category, and only in a pre-build run with files left to analyze; each is asked for exactly
  the wanted categories it offers, each once, on the files of the request (or all visible files
  of the root when it names none) that are not under an ignored directory.\<close>

theorem Run_calls_exact:
  assumes "Run env sd inp w = Ret (res, sd', w')" "enters env inp w event stage ctx root w1"
    and "config_in env event w1 = Inr cfg"
    and "wanted sd (sreq_triggered_category inp) event cfg = Some W"
    and "driver_orders env" "wf_set (defaultCategories sd)"
  shows "((\<exists>req. (a, req) \<in> set (rr_calls res)) \<longleftrightarrow>
      a \<in> set (AnalyzerLocations sd) \<and> stage = Stage_PRE_BUILD \<and> at_stage env a Stage_PRE_BUILD
      \<and> (\<exists>c \<in> W. offers env a c) \<and> selected_files env ctx root cfg w1 \<noteq> [])
    \<and> ((a, req) \<in> set (rr_calls res) \<longrightarrow>
         areq_context req = Some (ctx\<lparr>ctx_file_path := selected_files env ctx root cfg w1\<rparr>)
         \<and> distinct (areq_category req) \<and> set (areq_category req) = {c \<in> W. offers env a c})"
proof -
  from assms(2) have st: "sreq_stage inp = Some stage" by (simp add: enters_def)
  obtain m ms desired where m: "getAllServiceInfo env sd = Ret m"
    and des: "{c. Set_Contains desired c} = W \<inter> offered env sd"
    and res: "let contxt = ctx\<lparr>ctx_file_path := selected_files env ctx root cfg w1\<rparr>;
         calls = planned_calls env sd m desired contxt stage
     in res = \<lparr>rr_ars = map (missing_failure sd) ms
                 @ map (\<lambda>(a, req). filterResults contxt (callAnalyze env a req)) calls,
               rr_err = None, rr_calls = calls\<rparr>"
    using run_inside_ran [OF Run_enters [OF assms(2,1)] st assms(5,6,3,4)] by metis
  let ?contxt = "ctx\<lparr>ctx_file_path := selected_files env ctx root cfg w1\<rparr>"
  have calls: "rr_calls res = planned_calls env sd m desired ?contxt stage"
    using res by (simp add: Let_def)
  have run: "runnable env desired a = {c \<in> W. offers env a c}" if "a \<in> set (AnalyzerLocations sd)"
    using des that by (auto simp: runnable_def offered_def)
  have loc: "a \<in> set (AnalyzerLocations sd)" if "(a, req) \<in> set (rr_calls res)" for req
    using that calls analyzer_calls_exact(1) [OF m assms(5), of a desired ?contxt stage]
    by (auto simp: planned_calls_def split: if_splits)
  show ?thesis
    using calls run loc analyzer_calls_exact(1) [OF m assms(5), of a desired ?contxt stage]
      analyzer_calls_exact(2) [OF m assms(5), of a req desired ?contxt stage]
    by (auto simp: planned_calls_def split: if_splits)
qed

theorem Run_calls_exact_witness:
  "(\<exists>req. (''localhost:10005'', req) \<in> set (rr_calls (fst (case
       Run (demo_env ''manual'' [''go vet'']) demo_driver
         (demo_request [''go vet'', ''Ghost''] ''manual'') ''/home'' of Ret x \<Rightarrow> x))))"
proof -
  have "selected_files (demo_env ''manual'' [''go vet'']) demo_context ''/shipshape-workspace''
     (Some \<lparr>images = [], ignore = [''vendor/''], categories = [''go vet'']\<rparr>) ''/shipshape-workspace'' = [''a.go'']"
    by code_simp
  then show ?thesis
    using Run_calls_exact [OF demo_run enters_demo config_demo(1) wanted_demo(1) demo_facts,
        of "''localhost:10005''" undefined]
    unfolding demo_run by (auto simp: locations_demo at_stage_def offers_def demo_env_def)
qed

text \<open>C15: whatever the analyzers answer, every note a run sends back has a category and a
  location, and the path of that location, when there is one, is one of the files the request
  lists (if it lists any) and is not under a directory the configuration ignores.\<close>

theorem Run_notes_in_scope:
  assumes "Run env sd inp w = Ret (res, sd', w')" "driver_orders env" "wf_set (defaultCategories sd)"
    and "ar \<in> set (rr_ars res)" "n \<in> set (ar_note ar)"
  shows "\<exists>event stage ctx root w1 cfg. enters env inp w event stage ctx root w1
    \<and> config_in env event w1 = Inr cfg \<and> n_category n \<noteq> None
    \<and> (\<exists>loc. n_location n = Some loc \<and> (\<forall>p. loc_path loc = Some p \<longrightarrow>
          (ctx_file_path ctx \<noteq> [] \<longrightarrow> p \<in> set (ctx_file_path ctx))
          \<and> (\<forall>c. cfg = Some c \<longrightarrow> (\<forall>dir \<in> set (ignore c). \<not> HasPrefix p dir))))"
  using assms(1)
proof (cases rule: Run_Ret_cases)
  case (fails event e)
  with assms(4,5) show ?thesis by (simp add: generateFailure_def)
next
  case (enters event stage ctx root w1)
  then have st: "sreq_stage inp = Some stage" by (simp add: enters_def)
  note inside = Run_enters [OF enters assms(1)]
  from inside show ?thesis
  proof (cases rule: run_inside_cases)
    case (ran cfg W)
    obtain ms calls where res: "rr_ars res = map (missing_failure sd) ms
        @ map (\<lambda>(a, req). filterResults (ctx\<lparr>ctx_file_path := selected_files env ctx root cfg w1\<rparr>)
                 (callAnalyze env a req)) calls"
      using run_inside_ran [OF inside st assms(2,3) ran] by (metis run_result.select_convs(1))
    have "ar_note (missing_failure sd c) = []" for c by (simp add: missing_failure_def generateFailure_def)
    with assms(4,5) res obtain a req where
      n: "n \<in> set (ar_note (filterResults (ctx\<lparr>ctx_file_path := selected_files env ctx root cfg w1\<rparr>)
                           (callAnalyze env a req)))" by auto
    then obtain loc where loc: "n_category n \<noteq> None" "n_location n = Some loc"
      "\<forall>p. loc_path loc = Some p \<longrightarrow> p \<in> set (selected_files env ctx root cfg w1)"
      by (auto simp: filterResults_def Let_def strset_simps split: option.splits)
    then have "\<forall>p. loc_path loc = Some p \<longrightarrow>
        (ctx_file_path ctx \<noteq> [] \<longrightarrow> p \<in> set (ctx_file_path ctx))
        \<and> (\<forall>c. cfg = Some c \<longrightarrow> (\<forall>dir \<in> set (ignore c). \<not> HasPrefix p dir))"
      by (auto simp: selected_files_def split: if_splits option.splits)
    with enters ran(1) loc(1,2) show ?thesis by blast
  qed (use assms(4,5) in \<open>simp_all add: generateFailure_def\<close>)
qed

theorem Run_notes_in_scope_witness:
  "\<exists>event stage ctx root w1 cfg. enters (demo_env ''manual'' [''go vet''])
       (demo_request [''go vet'', ''Ghost''] ''manual'') ''/home'' event stage ctx root w1
    \<and> config_in (demo_env ''manual'' [''go vet'']) event w1 = Inr cfg
    \<and> (\<forall>c. cfg = Some c \<longrightarrow> (\<forall>dir \<in> set (ignore c). \<not> HasPrefix ''a.go'' dir))"
proof -
  have "\<lparr>ar_note = [note_at ''go vet'' ''a.go''], ar_failure = []\<rparr> \<in>
      set [missing_failure demo_driver ''Ghost'', \<lparr>ar_note = [note_at ''go vet'' ''a.go''], ar_failure = []\<rparr>]"
    by simp
  from Run_notes_in_scope [OF demo_run demo_facts, unfolded run_result.select_convs, OF this,
      of "note_at ''go vet'' ''a.go''"]
  obtain event stage ctx root w1 cfg where
    "enters (demo_env ''manual'' [''go vet'']) (demo_request [''go vet'', ''Ghost''] ''manual'') ''/home''
       event stage ctx root w1"
    "config_in (demo_env ''manual'' [''go vet'']) event w1 = Inr cfg"
    "\<forall>c. cfg = Some c \<longrightarrow> (\<forall>dir \<in> set (ignore c). \<not> HasPrefix ''a.go'' dir)"
    by (auto simp: note_at_def empty_note_def empty_location_def)
  then show ?thesis by blast
qed

text \<open>C24: a run that falls back on the default categories takes from the driver, for every later
  run, the defaults no analyzer offers at that moment; a run with categories of its own leaves
  them.\<close>

theorem Run_defaults_shrink:
  assumes "Run env sd inp w = Ret (res, sd', w')" "enters env inp w event stage ctx root w1"
    and "config_in env event w1 = Inr cfg"
    and "wanted sd (sreq_triggered_category inp) event cfg = Some W"
    and "driver_orders env" "wf_set (defaultCategories sd)"
  shows "Set_Contains (defaultCategories sd') c \<longleftrightarrow> Set_Contains (defaultCategories sd) c
     \<and> (uses_defaults (sreq_triggered_category inp) cfg \<longrightarrow> c \<in> offered env sd)"
proof -
  from assms(2) have st: "sreq_stage inp = Some stage" by (simp add: enters_def)
  obtain desired where d: "{c. Set_Contains desired c} = W \<inter> offered env sd"
    and sd': "sd' = (if uses_defaults (sreq_triggered_category inp) cfg
            then sd\<lparr>defaultCategories := desired\<rparr> else sd)"
    using run_inside_ran [OF Run_enters [OF assms(2,1)] st assms(5,6,3,4)] by metis
  have "W = {c. Set_Contains (defaultCategories sd) c}"
    if "uses_defaults (sreq_triggered_category inp) cfg"
    using that assms(4) by (auto simp: wanted_def uses_defaults_def Let_def split: option.splits if_splits)
  then show ?thesis using d sd' by auto
qed

theorem Run_defaults_shrink_witness:
  "\<exists>res sd' w'. Run (demo_env ''IDE'' [''go vet'']) demo_driver (demo_request [] ''manual'') ''/home''
       = Ret (res, sd', w')
     \<and> Set_Contains (defaultCategories demo_driver) ''PyLint''
     \<and> \<not> Set_Contains (defaultCategories sd') ''PyLint''"
proof -
  obtain res sd' w' where r: "Run (demo_env ''IDE'' [''go vet'']) demo_driver
      (demo_request [] ''manual'') ''/home'' = Ret (res, sd', w')"
    using demo_run_defaults by blast
  from Run_defaults_shrink [OF r enters_demo config_demo(2) wanted_demo(2) demo_facts, of "''PyLint''"]
  have "\<not> Set_Contains (defaultCategories sd') ''PyLint''"
    by (simp add: offered_demo uses_defaults_def demo_request_def)
  moreover have "Set_Contains (defaultCategories demo_driver) ''PyLint''"
    by (simp add: demo_driver_def NewDriver_def strset_simps)
  ultimately show ?thesis using r by blast
qed

lemma Run_home:
  assumes "returns_home (de_os env)" "Getwd (de_os env) w = Inr d"
    and "Run env sd inp w = Ret (res, sd', w')"
  shows "Getwd (de_os env) w' = Inr d"
proof -
  from assms(3) obtain event stage ctx root where r: "sreq_event inp = Some event"
      "sreq_stage inp = Some stage" "sreq_context inp = Some ctx" "ctx_repo_root ctx = Some root"
    by (auto simp: Run_def go_bind_Ret_iff deref_def split: option.splits)
  obtain err w1 where c: "Chdir (de_os env) root w = (err, w1)" by fastforce
  then have cd: "ChangeDir (de_os env) root w = ((d, Some d, err), w1)"
    using assms(2) by (simp add: ChangeDir_def)
  have w': "w' = (case err of None \<Rightarrow> snd (restore_dir (de_os env) (Some d) w1) | Some _ \<Rightarrow> w1)"
    using assms(3) r cd by (auto simp: Run_def go_bind_Ret_iff split: option.splits)
  show ?thesis
  proof (cases err)
    case None
    then show ?thesis using restore_dir_home [OF assms(1,2) cd] w' by simp
  next
    case (Some e)
    then show ?thesis using assms(1,2) c w' unfolding returns_home_def
      by (metis fst_conv option.simps(3,5) snd_conv)
  qed
qed

text \<open>However a run ends, short of a panic, the process is back in the directory it
  was in.\<close>

theorem Run_returns_home:
  assumes "returns_home (de_os env)" "Getwd (de_os env) w = Inr d"
    and "Run env sd inp w = Ret (res, sd', w')"
  shows "Getwd (de_os env) w' = Inr d"
  by (rule Run_home [OF assms])

theorem Run_returns_home_witness:
  "\<exists>res sd' w'. Run (demo_env ''manual'' [''go vet'']) demo_driver
       (demo_request [''go vet'', ''Ghost''] ''manual'') ''/home'' = Ret (res, sd', w')
     \<and> Getwd (de_os (demo_env ''manual'' [''go vet''])) w' = Inr ''/home''"
proof -
  have h: "returns_home (de_os (demo_env ''manual'' [''go vet'']))"
    "Getwd (de_os (demo_env ''manual'' [''go vet''])) ''/home'' = Inr ''/home''"
    using returns_home_plain_os by (simp_all add: returns_home_def demo_env_def plain_os_def)
  from demo_run Run_returns_home [OF h demo_run] show ?thesis by blast
qed

text \<open>As the model reads requests, configurations and replies (no list has a nil element, calls return), a run
  panics when the request misses its event, its stage, its context or the
  repository root, or when the configuration loads and an analyzer answers \<open>GetStage\<close> without a
  stage, and for no other reason.\<close>

theorem Run_panics_iff:
  "panics (Run env sd inp w) \<longleftrightarrow>
     sreq_event inp = None \<or> sreq_stage inp = None \<or> sreq_context inp = None
     \<or> (\<exists>ctx. sreq_context inp = Some ctx \<and> ctx_repo_root ctx = None)
     \<or> (\<exists>event stage ctx root w1 cfg. enters env inp w event stage ctx root w1
          \<and> config_in env event w1 = Inr cfg \<and> \<not> stages_set env sd)"
proof -
  have "panics (run_inside env sd inp ctx root event w1) \<longleftrightarrow>
      (\<exists>cfg. config_in env event w1 = Inr cfg) \<and> \<not> stages_set env sd" for ctx root event w1
    using getAllServiceInfo_panics [of env sd]
    by (cases "getAllServiceInfo env sd")
      (auto simp: run_inside_def config_in_def Let_def split: sum.splits prod.splits)
  then show ?thesis
    by (auto simp: Run_def enters_def ChangeDir_def deref_def panics_bind_Ret
        split: option.splits sum.splits prod.splits)
qed


text \<open>When the request names no category and the configuration has none for its event, a run
  for any event but \<open>manual\<close> ends with the error that says so: nothing is analyzed, no
  response is sent and the defaults are not used.\<close>

theorem Run_unconfigured_event:
  assumes "enters env inp w event stage ctx root w1" "stages_set env sd"
    and "sreq_triggered_category inp = []" "event \<noteq> ''manual''"
    and "config_in env event w1 = Inr (Some c)" "categories c = []"
  shows "\<exists>w'. Run env sd inp w =
    Ret (\<lparr>rr_ars = [], rr_err = Some (''No categories configured for event '' @ event),
           rr_calls = []\<rparr>, sd, w')"
proof -
  have "\<not> panics (getAllServiceInfo env sd)" using assms(2) by (simp add: getAllServiceInfo_panics)
  then obtain m where "getAllServiceInfo env sd = Ret m" by (cases "getAllServiceInfo env sd") auto
  then show ?thesis
    using assms
    by (auto simp: Run_def enters_def ChangeDir_def run_inside_def config_in_def
        desired_categories_wanted wanted_def Let_def)
qed

theorem Run_unconfigured_event_witness:
  "\<exists>w'. Run (demo_env ''IDE'' [''go vet'']) demo_driver (demo_request [] ''REVIEW'') ''/home'' =
    Ret (\<lparr>rr_ars = [], rr_err = Some ''No categories configured for event REVIEW'',
           rr_calls = []\<rparr>, demo_driver, w')"
proof -
  have "sreq_triggered_category (demo_request [] ''REVIEW'') = []" by (simp add: demo_request_def)
  from Run_unconfigured_event [OF enters_demo stages_demo this _ config_demo(3)]
  show ?thesis by simp
qed

end
