(* ===== verification/ServiceMain.thy ===== *)
theory ServiceMain
  imports Driver
begin

text \<open>
  \<open>shipshape/service/shipshape.go\<close>: the program that serves the driver, over HTTP or for one
  request on its standard input; and the driver over a series of requests.

  Reading the standard input, and the protocol buffer encoding of the request and the response, are
  parameters.  Waiting for the analyzers only writes to the log.
\<close>

definition service_defaults :: Set where
  "service_defaults = New [''CheckstyleGoogle'', ''ErrorProne'', ''CodeAlert'', ''JSHint'', ''PyLint'', ''go vet'']"

datatype service_end = Serving ShipshapeDriver | Wrote string | Fatal string

definition service_driver :: "string \<Rightarrow> ShipshapeDriver" where
  "service_driver analyzers = NewDriver (Split analyzers '','') service_defaults"

definition answer_stdin ::
  "'w driver_env \<Rightarrow> (string \<Rightarrow> string + ShipshapeRequest) \<Rightarrow> (ShipshapeResponse \<Rightarrow> string + string)
     \<Rightarrow> ShipshapeDriver \<Rightarrow> string + string \<Rightarrow> 'w \<Rightarrow> (service_end \<times> 'w) go" where
  "answer_stdin env unm mar sd stdin w =
     (case stdin of
        Inl err \<Rightarrow> Ret (Fatal (''failed to read stdin: '' @ err), w)
      | Inr requestBytes \<Rightarrow> (case unm requestBytes of
          Inl err \<Rightarrow> Ret (Fatal (''failed to unmarshal shipshape request stream: '' @ err), w)
        | Inr request \<Rightarrow> go_bind (Run env sd request w) (\<lambda>(res, sd', w1).
            Ret (case mar \<lparr>sresp_analyze_response = rr_ars res\<rparr> of
                Inl err \<Rightarrow> Fatal (''failed to marshal shipshape response: '' @ err)
              | Inr responseBytes \<Rightarrow> Wrote responseBytes, w1))))"

definition service_main ::
  "'w driver_env \<Rightarrow> (string \<Rightarrow> string + ShipshapeRequest) \<Rightarrow> (ShipshapeResponse \<Rightarrow> string + string)
     \<Rightarrow> string \<Rightarrow> bool \<Rightarrow> string + string \<Rightarrow> 'w \<Rightarrow> (service_end \<times> 'w) go" where
  "service_main env unm mar analyzers startService stdin w =
     (let sd = service_driver analyzers
      in if startService then Ret (Serving sd, w) else answer_stdin env unm mar sd stdin w)"

subsection \<open>A series of requests\<close>

definition serves :: "'w driver_env \<Rightarrow> ShipshapeDriver \<Rightarrow> ShipshapeDriver \<Rightarrow> bool" where
  "serves env sd sd' \<longleftrightarrow> (\<exists>inp w res w'. Run env sd inp w = Ret (res, sd', w'))"

definition driver_ok :: "ShipshapeDriver \<Rightarrow> ShipshapeDriver \<Rightarrow> bool" where
  "driver_ok sd sd' \<longleftrightarrow> wf_set (defaultCategories sd') \<and> AnalyzerLocations sd' = AnalyzerLocations sd
     \<and> serviceMap sd' = serviceMap sd
     \<and> (\<forall>c. Set_Contains (defaultCategories sd') c \<longrightarrow> Set_Contains (defaultCategories sd) c)"

lemma Run_driver_ok:
  assumes "Run env sd inp w = Ret (res, sd', w')" "driver_orders env" "wf_set (defaultCategories sd)"
  shows "driver_ok sd sd'"
  using assms(1)
proof (cases rule: Run_Ret_cases)
  case (enters event stage ctx root w1)
  then have st: "sreq_stage inp = Some stage" by (simp add: enters_def)
  note inside = Run_enters [OF enters assms(1)]
  from inside show ?thesis
  proof (cases rule: run_inside_cases)
    case (ran cfg W)
    obtain desired where d: "wf_set desired" "{c. Set_Contains desired c} = W \<inter> offered env sd"
      and sd': "sd' = (if uses_defaults (sreq_triggered_category inp) cfg
            then sd\<lparr>defaultCategories := desired\<rparr> else sd)"
      using run_inside_ran [OF inside st assms(2,3) ran] by metis
    have "W = {c. Set_Contains (defaultCategories sd) c}"
      if "uses_defaults (sreq_triggered_category inp) cfg"
      using that ran(2) by (auto simp: wanted_def uses_defaults_def Let_def split: option.splits if_splits)
    then show ?thesis using d sd' assms(3) by (auto simp: driver_ok_def)
  qed (use assms(3) in \<open>simp_all add: driver_ok_def\<close>)
qed (use assms(3) in \<open>simp add: driver_ok_def\<close>)

lemma wf_New: "wf_set (New xs)"
  using strset.inv_make by blast

lemma driver_ok_start: "driver_ok (service_driver analyzers) (service_driver analyzers)"
  by (simp add: driver_ok_def service_driver_def NewDriver_def service_defaults_def wf_New)

lemma driver_ok_trans: "driver_ok sd s \<Longrightarrow> driver_ok s t \<Longrightarrow> driver_ok sd t"
  by (simp add: driver_ok_def)

lemma driver_ok_service:
  assumes "driver_ok (service_driver analyzers) sd"
  shows "wf_set (defaultCategories sd) \<and> AnalyzerLocations sd = map (\<lambda>addr. TrimPrefix addr ''http://'') (Split analyzers '','')
    \<and> serviceMap sd = []
    \<and> {c. Set_Contains (defaultCategories sd) c} \<subseteq> {''CheckstyleGoogle'', ''ErrorProne'', ''CodeAlert'', ''JSHint'', ''PyLint'', ''go vet''}"
proof -
  define six where "six = {''CheckstyleGoogle'', ''ErrorProne'', ''CodeAlert'', ''JSHint'', ''PyLint'', ''go vet''}"
  have "Set_Contains service_defaults c \<longleftrightarrow> c \<in> six" for c
    by (simp only: six_def service_defaults_def strset_simps list.set)
  moreover have "Set_Contains (defaultCategories sd) c \<longrightarrow> Set_Contains service_defaults c" for c
    using assms by (simp add: driver_ok_def service_driver_def NewDriver_def)
  ultimately have "{c. Set_Contains (defaultCategories sd) c} \<subseteq> six" by auto
  moreover have "wf_set (defaultCategories sd)" "serviceMap sd = []"
    "AnalyzerLocations sd = map (\<lambda>addr. TrimPrefix addr ''http://'') (Split analyzers '','')"
    using assms by (simp_all add: driver_ok_def service_driver_def NewDriver_def)
  ultimately show ?thesis unfolding six_def by (intro conjI)
qed

text \<open>Over any series of requests that do not crash it, the service keeps a well-formed driver:
  its analyzers and its (empty) service map stay, its default categories stay a set, and they only
  ever get fewer, starting from the six the program has.\<close>

theorem service_driver_wf:
  assumes "driver_orders env" "(serves env)\<^sup>*\<^sup>* (service_driver analyzers) sd"
  shows "wf_set (defaultCategories sd) \<and> AnalyzerLocations sd = map (\<lambda>addr. TrimPrefix addr ''http://'') (Split analyzers '','')
    \<and> serviceMap sd = []
    \<and> {c. Set_Contains (defaultCategories sd) c} \<subseteq> {''CheckstyleGoogle'', ''ErrorProne'', ''CodeAlert'', ''JSHint'', ''PyLint'', ''go vet''}"
proof (rule driver_ok_service)
  show "driver_ok (service_driver analyzers) sd"
    using assms(2)
  proof (induction rule: rtranclp_induct)
    case (step s t)
    then obtain inp w res w' where "Run env s inp w = Ret (res, t, w')" by (auto simp: serves_def)
    from Run_driver_ok [OF this assms(1)] step.IH show ?case by (auto simp: driver_ok_def)
  qed (rule driver_ok_start)
qed

theorem service_driver_wf_witness:
  "\<exists>sd. serves (demo_env ''IDE'' [''go vet'']) (service_driver ''localhost:10005'') sd
     \<and> AnalyzerLocations sd = [''localhost:10005'']
     \<and> {c. Set_Contains (defaultCategories sd) c} \<subseteq> {''CheckstyleGoogle'', ''ErrorProne'', ''CodeAlert'', ''JSHint'', ''PyLint'', ''go vet''}"
proof -
  let ?env = "demo_env ''IDE'' [''go vet'']" and ?sd = "service_driver ''localhost:10005''"
  have "case Run ?env ?sd (demo_request [] ''manual'') ''/home'' of Ret _ \<Rightarrow> True | Panic _ \<Rightarrow> False"
    by code_simp
  then obtain res sd w' where r: "Run ?env ?sd (demo_request [] ''manual'') ''/home'' = Ret (res, sd, w')"
    by (auto split: go.splits)
  then have s: "serves ?env ?sd sd" by (auto simp: serves_def)
  have l: "map (\<lambda>addr. TrimPrefix addr ''http://'') (Split ''localhost:10005'' '','') = [''localhost:10005'']" by code_simp
  show ?thesis using service_driver_wf [OF driver_orders_demo r_into_rtranclp [of "serves ?env", OF s]] s unfolding l by metis
qed

end
