(* ===== verification/HealthChecks.thy ===== *)
theory HealthChecks
  imports Driver Client Steps
begin

text \<open>
  \<open>WaitForAnalyzers\<close> of \<open>shipshape/service/driver.go\<close> as it runs: one goroutine per address gets a
  client from the cache of \<open>getHTTPClient\<close>, waits until the server is ready and stores the result
  in a map they share.  Neither map is guarded.  Writing to a map takes a while, and
  an access that meets a write in progress is what the Go runtime stops the process for
  (\<open>concurrent map writes\<close>, \<open>concurrent map read and map write\<close>); the runtime may miss such an
  access, and the program has no meaning then, so in the model the access either comes after the write or
  is the end of the process.

  \<open>ready\<close> is what \<open>WaitUntilReady\<close> returns for an address, and \<open>net\<close> the network of a new client.
\<close>

subsection \<open>The step relation\<close>

datatype 'n checker =
    Entering
  | Missed
  | Storing
  | Stored
  | Holding "'n httpTransport"
  | Waited "string option"
  | Telling "string option"
  | Checked

datatype 'n checks =
    Checking "'n checker list" "'n httpTransport go_map" "string option go_map"
  | Died

definition storing :: "'n checker list \<Rightarrow> bool" where
  "storing ps \<longleftrightarrow> Storing \<in> set ps"

definition telling :: "'n checker list \<Rightarrow> bool" where
  "telling ps \<longleftrightarrow> (\<exists>e. Telling e \<in> set ps)"

text \<open>What a goroutine is about to do: touch the cache of clients, or the map of results.\<close>

fun wants_clients :: "'n checker \<Rightarrow> bool" where
  "wants_clients p \<longleftrightarrow> p = Entering \<or> p = Missed \<or> p = Stored"

inductive check_step ::
  "(string \<Rightarrow> string option) \<Rightarrow> 'n \<Rightarrow> string list \<Rightarrow> 'n checks \<Rightarrow> 'n checks \<Rightarrow> bool"
  for ready net addrs where
  spawn: "length ps < length addrs \<Longrightarrow>
    check_step ready net addrs (Checking ps cl h) (Checking (ps @ [Entering]) cl h)"
| hit: "i < length ps \<Longrightarrow> ps ! i = Entering \<Longrightarrow> \<not> storing ps \<Longrightarrow> map_of cl (addrs ! i) = Some c \<Longrightarrow>
    check_step ready net addrs (Checking ps cl h) (Checking (ps[i := Holding c]) cl h)"
| miss: "i < length ps \<Longrightarrow> ps ! i = Entering \<Longrightarrow> \<not> storing ps \<Longrightarrow> map_of cl (addrs ! i) = None \<Longrightarrow>
    check_step ready net addrs (Checking ps cl h) (Checking (ps[i := Missed]) cl h)"
| store: "i < length ps \<Longrightarrow> ps ! i = Missed \<Longrightarrow> \<not> storing ps \<Longrightarrow>
    check_step ready net addrs (Checking ps cl h) (Checking (ps[i := Storing]) cl h)"
| stored: "i < length ps \<Longrightarrow> ps ! i = Storing \<Longrightarrow>
    check_step ready net addrs (Checking ps cl h)
      (Checking (ps[i := Stored]) (AList.update (addrs ! i) (NewHTTPClient (addrs ! i) net) cl) h)"
| reread: "i < length ps \<Longrightarrow> ps ! i = Stored \<Longrightarrow> \<not> storing ps \<Longrightarrow> map_of cl (addrs ! i) = Some c \<Longrightarrow>
    check_step ready net addrs (Checking ps cl h) (Checking (ps[i := Holding c]) cl h)"
| waited: "i < length ps \<Longrightarrow> ps ! i = Holding c \<Longrightarrow>
    check_step ready net addrs (Checking ps cl h) (Checking (ps[i := Waited (ready (ht_host c))]) cl h)"
| tell: "i < length ps \<Longrightarrow> ps ! i = Waited e \<Longrightarrow> \<not> telling ps \<Longrightarrow>
    check_step ready net addrs (Checking ps cl h) (Checking (ps[i := Telling e]) cl h)"
| told: "i < length ps \<Longrightarrow> ps ! i = Telling e \<Longrightarrow>
    check_step ready net addrs (Checking ps cl h)
      (Checking (ps[i := Checked]) cl (AList.update (addrs ! i) e h))"
| clients_race: "i < length ps \<Longrightarrow> j < length ps \<Longrightarrow> wants_clients (ps ! i) \<Longrightarrow> ps ! j = Storing \<Longrightarrow>
    check_step ready net addrs (Checking ps cl h) Died"
| health_race: "i < length ps \<Longrightarrow> j < length ps \<Longrightarrow> ps ! i = Waited e \<Longrightarrow> ps ! j = Telling e' \<Longrightarrow>
    check_step ready net addrs (Checking ps cl h) Died"

inductive_simps check_step_Died [simp]: "check_step ready net addrs Died t"

definition check_start :: "'n httpTransport go_map \<Rightarrow> 'n checks" where
  "check_start clients = Checking [] clients []"

subsection \<open>Invariant and weight\<close>

definition hosts_ok :: "'n httpTransport go_map \<Rightarrow> bool" where
  "hosts_ok cl \<longleftrightarrow> (\<forall>a c. map_of cl a = Some c \<longrightarrow> ht_host c = a)"

fun checker_ok ::
  "(string \<Rightarrow> string option) \<Rightarrow> 'n httpTransport go_map \<Rightarrow> string option go_map \<Rightarrow> string \<Rightarrow> 'n checker \<Rightarrow> bool" where
  "checker_ok ready cl h a Stored \<longleftrightarrow> map_of cl a \<noteq> None"
| "checker_ok ready cl h a (Holding c) \<longleftrightarrow> map_of cl a \<noteq> None \<and> ht_host c = a"
| "checker_ok ready cl h a (Waited e) \<longleftrightarrow> map_of cl a \<noteq> None \<and> e = ready a"
| "checker_ok ready cl h a (Telling e) \<longleftrightarrow> map_of cl a \<noteq> None \<and> e = ready a"
| "checker_ok ready cl h a Checked \<longleftrightarrow> map_of cl a \<noteq> None \<and> map_of h a = Some (ready a)"
| "checker_ok ready cl h a _ \<longleftrightarrow> True"

fun checks_inv :: "(string \<Rightarrow> string option) \<Rightarrow> string list \<Rightarrow> 'n checks \<Rightarrow> bool" where
  "checks_inv ready addrs (Checking ps cl h) \<longleftrightarrow>
     length ps \<le> length addrs \<and> hosts_ok cl
     \<and> (\<forall>i < length ps. checker_ok ready cl h (addrs ! i) (ps ! i))
     \<and> (\<forall>a e. map_of h a = Some e \<longrightarrow> a \<in> set addrs \<and> e = ready a)"
| "checks_inv ready addrs Died \<longleftrightarrow> length addrs \<ge> 2"

fun checker_left :: "'n checker \<Rightarrow> nat" where
  "checker_left Entering = 7"
| "checker_left Missed = 6"
| "checker_left Storing = 5"
| "checker_left Stored = 4"
| "checker_left (Holding c) = 3"
| "checker_left (Waited e) = 2"
| "checker_left (Telling e) = 1"
| "checker_left Checked = 0"

fun checks_left :: "string list \<Rightarrow> 'n checks \<Rightarrow> nat" where
  "checks_left addrs (Checking ps cl h) =
     1 + 8 * (length addrs - length ps) + sum_list (map checker_left ps)"
| "checks_left addrs Died = 0"

lemma checker_ok_update_clients:
  "checker_ok ready cl h a p \<Longrightarrow> checker_ok ready (AList.update b c cl) h a p"
  by (cases p) (auto simp: update_conv')

lemma checker_ok_update_health:
  "checker_ok ready cl h a p \<Longrightarrow> e = ready b \<Longrightarrow> checker_ok ready cl (AList.update b e h) a p"
  by (cases p) (auto simp: update_conv')

text \<open>One goroutine moves and the maps stay as they are.\<close>

lemma checks_inv_move:
  assumes "checks_inv ready addrs (Checking ps cl h)" "checker_ok ready cl h (addrs ! i) p"
  shows "checks_inv ready addrs (Checking (ps[i := p]) cl h)"
proof -
  have "checker_ok ready cl h (addrs ! k) (ps[i := p] ! k)" if "k < length ps" for k
    using assms that by (cases "k = i") auto
  then show ?thesis using assms(1) by simp
qed

lemma hosts_ok_update: "hosts_ok cl \<Longrightarrow> hosts_ok (AList.update a (NewHTTPClient a net) cl)"
  by (auto simp: hosts_ok_def update_conv' NewHTTPClient_def)

lemma two_workers:
  assumes "i < length ps" "j < length ps" "ps ! i \<noteq> ps ! j" "length ps \<le> length addrs"
  shows "length addrs \<ge> 2"
proof -
  have "i \<noteq> j" using assms(3) by auto
  then show ?thesis using assms by linarith
qed

lemma checks_inv_step:
  assumes "checks_inv ready addrs s" "check_step ready net addrs s t"
  shows "checks_inv ready addrs t"
  using assms(2,1)
proof cases
  case (spawn ps cl h)
  then show ?thesis using assms(1) by (auto simp: nth_append less_Suc_eq)
next
  case (hit i ps cl c h)
  then have "checker_ok ready cl h (addrs ! i) (Holding c)" using assms(1) by (auto simp: hosts_ok_def)
  then show ?thesis using checks_inv_move assms(1) hit by blast
next
  case (miss i ps cl h)
  then show ?thesis using checks_inv_move [of ready addrs ps cl h i Missed] assms(1) by simp
next
  case (store i ps cl h)
  then show ?thesis using checks_inv_move [of ready addrs ps cl h i Storing] assms(1) by simp
next
  case (stored i ps cl h)
  let ?cl = "AList.update (addrs ! i) (NewHTTPClient (addrs ! i) net) cl"
  have "checks_inv ready addrs (Checking ps ?cl h)"
    using assms(1) stored by (auto intro: checker_ok_update_clients hosts_ok_update)
  moreover have "checker_ok ready ?cl h (addrs ! i) Stored" by (simp add: update_conv')
  ultimately show ?thesis using checks_inv_move stored by blast
next
  case (reread i ps cl c h)
  then have "checker_ok ready cl h (addrs ! i) (Holding c)" using assms(1) by (auto simp: hosts_ok_def)
  then show ?thesis using checks_inv_move assms(1) reread by blast
next
  case (waited i ps c cl h)
  then have "checker_ok ready cl h (addrs ! i) (Holding c)" using assms(1) by (metis checks_inv.simps(1))
  then have "checker_ok ready cl h (addrs ! i) (Waited (ready (ht_host c)))" by simp
  then show ?thesis using checks_inv_move assms(1) waited by blast
next
  case (tell i ps e cl h)
  then have "checker_ok ready cl h (addrs ! i) (Waited e)" using assms(1) by (metis checks_inv.simps(1))
  then have "checker_ok ready cl h (addrs ! i) (Telling e)" by simp
  then show ?thesis using checks_inv_move assms(1) tell by blast
next
  case (told i ps e cl h)
  let ?h = "AList.update (addrs ! i) e h"
  have t: "checker_ok ready cl h (addrs ! i) (Telling e)" using assms(1) told by (metis checks_inv.simps(1))
  then have "checks_inv ready addrs (Checking ps cl ?h)"
    using assms(1) told by (auto simp: update_conv' intro: checker_ok_update_health)
  moreover have "checker_ok ready cl ?h (addrs ! i) Checked" using t by (simp add: update_conv')
  ultimately show ?thesis using checks_inv_move told by blast
next
  case (clients_race i ps j cl h)
  then have "ps ! i \<noteq> ps ! j" by auto
  then show ?thesis using two_workers [of i ps j addrs] clients_race assms(1) by simp
next
  case (health_race i ps j e e' cl h)
  then have "ps ! i \<noteq> ps ! j" by auto
  then show ?thesis using two_workers [of i ps j addrs] health_race assms(1) by simp
qed

lemma checks_left_step:
  assumes "check_step ready net addrs s t"
  shows "checks_left addrs t < checks_left addrs s"
  using assms by cases (auto intro!: sum_update_less)

lemma checks_inv_start: "hosts_ok cl \<Longrightarrow> checks_inv ready addrs (check_start cl)"
  by (simp add: check_start_def)

text \<open>The cache a call starts with comes from earlier calls, so its clients lead to their keys.\<close>

interpretation checks: step_system "check_step ready net addrs" "check_start cl0"
    "\<lambda>s. hosts_ok cl0 \<longrightarrow> checks_inv ready addrs s" "checks_left addrs"
  for ready :: "string \<Rightarrow> string option" and net :: 'n and addrs and cl0
  by unfold_locales (simp add: checks_inv_start, blast intro: checks_inv_step, erule checks_left_step)

subsection \<open>Complete runs\<close>

lemma checker_moves:
  assumes "checks_inv ready addrs (Checking ps cl h)" "i < length ps" "ps ! i \<noteq> Checked"
  shows "\<exists>t. check_step ready net addrs (Checking ps cl h) t"
proof -
  have ok: "checker_ok ready cl h (addrs ! i) (ps ! i)" using assms(1,2) by simp
  show ?thesis
  proof (cases "storing ps \<or> telling ps")
    case True
    then obtain j where "j < length ps" "ps ! j = Storing \<or> (\<exists>e. ps ! j = Telling e)"
      by (auto simp: storing_def telling_def in_set_conv_nth)
    then show ?thesis using stored told by metis
  next
    case False
    show ?thesis
    proof (cases "ps ! i")
      case Entering
      then show ?thesis using False assms(2) hit miss by (metis not_None_eq)
    next
      case Stored
      then obtain c where "map_of cl (addrs ! i) = Some c" using ok by auto
      then show ?thesis using Stored False assms(2) reread by metis
    qed (use False assms(2,3) store stored waited tell told in \<open>metis+\<close>)
  qed
qed

lemma stuck_Checking:
  assumes "checks_inv ready addrs (Checking ps cl h)" "stuck (check_step ready net addrs) (Checking ps cl h)"
  shows "ps = replicate (length addrs) Checked"
proof -
  have stay: "\<not> check_step ready net addrs (Checking ps cl h) t" for t using assms(2) by (simp add: stuck_def)
  have "ps ! i = Checked" if "i < length ps" for i
    using checker_moves [OF assms(1) that] stay by blast
  moreover have "length ps = length addrs" using stay spawn assms(1) by (metis checks_inv.simps(1) le_neq_implies_less)
  ultimately show ?thesis by (simp add: list_eq_iff_nth_eq)
qed

definition health_of :: "(string \<Rightarrow> string option) \<Rightarrow> string list \<Rightarrow> string \<Rightarrow> string option option" where
  "health_of ready addrs a = (if a \<in> set addrs then Some (ready a) else None)"

lemma checks_end:
  assumes "checks_inv ready addrs t" "stuck (check_step ready net addrs) t"
  shows "(t = Died \<and> length addrs \<ge> 2)
    \<or> (\<exists>cl h. t = Checking (replicate (length addrs) Checked) cl h \<and> map_of h = health_of ready addrs
        \<and> hosts_ok cl \<and> (\<forall>a \<in> set addrs. map_of cl a \<noteq> None))"
proof (cases t)
  case (Checking ps cl h)
  have inv: "checks_inv ready addrs (Checking ps cl h)" using assms(1) by (simp only: Checking)
  then have I: "\<forall>i < length ps. checker_ok ready cl h (addrs ! i) (ps ! i)" "hosts_ok cl"
    "\<forall>a e. map_of h a = Some e \<longrightarrow> a \<in> set addrs \<and> e = ready a"
    unfolding checks_inv.simps by blast+
  have ps: "ps = replicate (length addrs) Checked"
    using stuck_Checking [OF inv] assms(2) by (simp only: Checking)
  have checked: "checker_ok ready cl h (addrs ! i) Checked" if "i < length addrs" for i
  proof -
    have "checker_ok ready cl h (addrs ! i) (ps ! i)" using I(1) that by (simp only: ps length_replicate)
    then show ?thesis using that by (simp only: ps nth_replicate)
  qed
  have all: "map_of cl a \<noteq> None \<and> map_of h a = Some (ready a)" if a: "a \<in> set addrs" for a
  proof -
    obtain i where "i < length addrs" "addrs ! i = a" using a by (auto simp: in_set_conv_nth)
    then show ?thesis using checked [of i] by simp
  qed
  have none: "map_of h a = None" if "a \<notin> set addrs" for a
    using I(3) that by (metis not_None_eq)
  have "map_of h = health_of ready addrs" using all none by (auto simp: health_of_def)
  with Checking ps all I(2) show ?thesis by simp
qed (use assms(1) in simp)

lemma map_of_WaitForAnalyzers:
  assumes "set (finished addrs) = set addrs"
  shows "map_of (WaitForAnalyzers finished ready addrs) = health_of ready addrs"
proof -
  have "map_of (fold (\<lambda>addr health. AList.update addr (ready addr) health) as h) a
      = (if a \<in> set as then Some (ready a) else map_of h a)" for as h a
    by (induction as arbitrary: h) (auto simp: update_conv')
  then show ?thesis using assms by (auto simp: WaitForAnalyzers_def health_of_def)
qed

text \<open>C39: however the goroutines of \<open>WaitForAnalyzers\<close> are scheduled, they all end within eight steps
  each; when no access to a shared map met a write in progress, the result is that of running the checks one after
  another, whatever the order they end in, and every address has a client in the cache, one that leads to
  it; and with a single address there is no such access.\<close>

theorem WaitForAnalyzers_schedule:
  assumes "hosts_ok clients" "set (finished addrs) = set addrs"
    and "(check_step ready net addrs ^^ n) (check_start clients) t"
  shows "n \<le> 8 * length addrs + 1
    \<and> (\<exists>u. (check_step ready net addrs)\<^sup>*\<^sup>* t u \<and> stuck (check_step ready net addrs) u)
    \<and> (stuck (check_step ready net addrs) t \<longrightarrow>
        (t = Died \<and> length addrs \<ge> 2)
        \<or> (\<exists>cl h. t = Checking (replicate (length addrs) Checked) cl h
            \<and> map_of h = map_of (WaitForAnalyzers finished ready addrs)
            \<and> hosts_ok cl \<and> (\<forall>a \<in> set addrs. map_of cl a \<noteq> None)))"
proof -
  have reach: "(check_step ready net addrs)\<^sup>*\<^sup>* (check_start clients) t"
    using assms(3) by (rule relpowp_imp_rtranclp)
  have inv: "checks_inv ready addrs t"
    using checks.reachable_inv [OF reach] assms(1) by blast
  have "n \<le> 8 * length addrs + 1"
    using checks.run_length [OF _ assms(3), of clients] checks_inv_start [OF assms(1)]
    by (simp add: check_start_def)
  then show ?thesis
    using checks.reachable_ends [OF reach] checks_end [OF inv] map_of_WaitForAnalyzers [of finished addrs ready, OF assms(2)] by simp
qed

text \<open>One address: the goroutine finds no client, makes one, and reports what it waited for.\<close>

lemma one_check:
  "(check_step ready net [a])\<^sup>*\<^sup>* (check_start []) (Checking [Checked] [(a, NewHTTPClient a net)] [(a, ready a)])"
proof -
  let ?s = "check_step ready net [a]" and ?c = "NewHTTPClient a net"
  let ?cl = "[(a, ?c)]"
  have host: "ht_host ?c = a" by (simp add: NewHTTPClient_def)
  have "?s (Checking [] [] []) (Checking [Entering] [] [])"
    using check_step.spawn [of "[]" "[a]" ready net "[]" "[]"] by simp
  moreover have "?s (Checking [Entering] [] []) (Checking [Missed] [] [])"
    using check_step.miss [of 0 "[Entering]" "[]" "[a]" ready net "[]"] by (simp add: storing_def)
  moreover have "?s (Checking [Missed] [] []) (Checking [Storing] [] [])"
    using check_step.store [of 0 "[Missed]" ready net "[a]" "[]" "[]"] by (simp add: storing_def)
  moreover have "?s (Checking [Storing] [] []) (Checking [Stored] ?cl [])"
    using check_step.stored [of 0 "[Storing]" ready net "[a]" "[]" "[]"] by simp
  moreover have "?s (Checking [Stored] ?cl []) (Checking [Holding ?c] ?cl [])"
    using check_step.reread [of 0 "[Stored]" ?cl "[a]" ?c ready net "[]"] by (simp add: storing_def)
  moreover have "?s (Checking [Holding ?c] ?cl []) (Checking [Waited (ready a)] ?cl [])"
    using check_step.waited [of 0 "[Holding ?c]" ?c ready net "[a]" ?cl "[]"] host by simp
  moreover have "?s (Checking [Waited (ready a)] ?cl []) (Checking [Telling (ready a)] ?cl [])"
    using check_step.tell [of 0 "[Waited (ready a)]" "ready a" ready net "[a]" ?cl "[]"] by (simp add: telling_def)
  moreover have "?s (Checking [Telling (ready a)] ?cl []) (Checking [Checked] ?cl [(a, ready a)])"
    using check_step.told [of 0 "[Telling (ready a)]" "ready a" ready net "[a]" ?cl "[]"] by simp
  ultimately show ?thesis
    unfolding check_start_def by (meson converse_rtranclp_into_rtranclp rtranclp.rtrancl_refl)
qed

theorem WaitForAnalyzers_schedule_witness:
  "\<exists>n \<le> 9. (check_step (\<lambda>a. None) () [''a:1''] ^^ n) (check_start [])
      (Checking [Checked] [(''a:1'', NewHTTPClient ''a:1'' ())] [(''a:1'', None)])
   \<and> map_of [(''a:1'', None)] = map_of (WaitForAnalyzers (\<lambda>as. as) (\<lambda>a. None) [''a:1''])"
proof -
  obtain n where run: "(check_step (\<lambda>a. None) () [''a:1''] ^^ n) (check_start [])
      (Checking [Checked] [(''a:1'', NewHTTPClient ''a:1'' ())] [(''a:1'', None)])"
    using rtranclp_imp_relpowp [OF one_check [of "\<lambda>a. None" "()" "''a:1''"]] by blast
  have "stuck (check_step (\<lambda>a. None) () [''a:1'']) (Checking [Checked] cl h)" for cl and h :: "string option go_map"
    by (auto simp: stuck_def elim!: check_step.cases)
  then show ?thesis
    using WaitForAnalyzers_schedule [OF _ _ run, of "\<lambda>as. as"] run by (auto simp: hosts_ok_def)
qed

text \<open>With two addresses that have no client yet the process can end: the first goroutine stores its
  client while the second looks for its own.\<close>

theorem health_checks_race:
  assumes "map_of clients a = None"
  shows "(check_step ready net (a # b # addrs))\<^sup>*\<^sup>* (check_start clients) Died"
proof -
  let ?s = "check_step ready net (a # b # addrs)"
  have "?s (Checking [] clients []) (Checking [Entering] clients [])"
    using check_step.spawn [of "[]" "a # b # addrs" ready net clients "[]"] by simp
  moreover have "?s (Checking [Entering] clients []) (Checking [Entering, Entering] clients [])"
    using check_step.spawn [of "[Entering]" "a # b # addrs" ready net clients "[]"] by simp
  moreover have "?s (Checking [Entering, Entering] clients []) (Checking [Missed, Entering] clients [])"
    using check_step.miss [of 0 "[Entering, Entering]" clients "a # b # addrs" ready net "[]"] assms
    by (simp add: storing_def)
  moreover have "?s (Checking [Missed, Entering] clients []) (Checking [Storing, Entering] clients [])"
    using check_step.store [of 0 "[Missed, Entering]" ready net "a # b # addrs" clients "[]"]
    by (simp add: storing_def)
  moreover have "?s (Checking [Storing, Entering] clients []) Died"
    using check_step.clients_race [of 1 "[Storing, Entering]" 0 ready net "a # b # addrs" clients "[]"] by simp
  ultimately show ?thesis
    unfolding check_start_def by (meson converse_rtranclp_into_rtranclp rtranclp.rtrancl_refl)
qed

theorem health_checks_race_witness:
  "(check_step (\<lambda>a. None) () [''a:1'', ''b:2''])\<^sup>*\<^sup>* (check_start []) Died"
  by (rule health_checks_race) simp

end
