(* ===== verification/Fanout.thy ===== *)
theory Fanout
  imports HealthChecks
begin

text \<open>
  The two fan-outs of \<open>shipshape/service/driver.go\<close> as they run: \<open>getAllServiceInfo\<close> and
  \<open>callAllAnalyzers\<close> start one goroutine per address, each with an unbuffered channel of its
  own, and then receive from the channels in the order they were made.

  A goroutine first gets its client from the cache of \<open>getHTTPClient\<close>, a map that all of them share and
  nothing guards.  As in \<open>HealthChecks\<close>, writing to that map takes a while, and an access that meets a
  write in progress either comes after the write or is the end of the process.  Then it calls the analyzer
  through its client and sends what it made of the answer; a goroutine that panics takes the
  process down.

  \<open>f\<close> is what a goroutine computes with its client, \<open>g\<close> what the driver does with a value it
  received, \<open>addr\<close> the address of a job, \<open>net\<close> the network of a new client.
\<close>

subsection \<open>The step relation\<close>

datatype ('n, 'r) worker =
    Looking
  | Absent
  | Writing
  | Written
  | Computing "'n httpTransport"
  | Sending 'r
  | Ended

datatype ('n, 'r, 'b) fan =
    Live (workers: "('n, 'r) worker list") (received: nat) (acc: 'b) (cache: "'n httpTransport go_map")
  | Crashed string
  | Raced

definition writing :: "('n, 'r) worker list \<Rightarrow> bool" where
  "writing ws \<longleftrightarrow> Writing \<in> set ws"

text \<open>The goroutine is about to read the cache, or to write to it.\<close>

fun wants_cache :: "('n, 'r) worker \<Rightarrow> bool" where
  "wants_cache p \<longleftrightarrow> p = Looking \<or> p = Absent \<or> p = Written"

inductive fan_step ::
  "('j \<Rightarrow> string) \<Rightarrow> 'n \<Rightarrow> ('n httpTransport \<Rightarrow> 'j \<Rightarrow> 'r go) \<Rightarrow> ('r \<Rightarrow> 'b \<Rightarrow> 'b) \<Rightarrow> 'j list
     \<Rightarrow> ('n, 'r, 'b) fan \<Rightarrow> ('n, 'r, 'b) fan \<Rightarrow> bool"
  for addr net f g jobs where
  spawn: "length ws < length jobs
    \<Longrightarrow> fan_step addr net f g jobs (Live ws k b cl) (Live (ws @ [Looking]) k b cl)"
| hit: "i < length ws \<Longrightarrow> ws ! i = Looking \<Longrightarrow> \<not> writing ws \<Longrightarrow> map_of cl (addr (jobs ! i)) = Some c
    \<Longrightarrow> fan_step addr net f g jobs (Live ws k b cl) (Live (ws[i := Computing c]) k b cl)"
| miss: "i < length ws \<Longrightarrow> ws ! i = Looking \<Longrightarrow> \<not> writing ws \<Longrightarrow> map_of cl (addr (jobs ! i)) = None
    \<Longrightarrow> fan_step addr net f g jobs (Live ws k b cl) (Live (ws[i := Absent]) k b cl)"
| store: "i < length ws \<Longrightarrow> ws ! i = Absent \<Longrightarrow> \<not> writing ws
    \<Longrightarrow> fan_step addr net f g jobs (Live ws k b cl) (Live (ws[i := Writing]) k b cl)"
| stored: "i < length ws \<Longrightarrow> ws ! i = Writing
    \<Longrightarrow> fan_step addr net f g jobs (Live ws k b cl) (Live (ws[i := Written]) k b
          (AList.update (addr (jobs ! i)) (NewHTTPClient (addr (jobs ! i)) net) cl))"
| reread: "i < length ws \<Longrightarrow> ws ! i = Written \<Longrightarrow> \<not> writing ws \<Longrightarrow> map_of cl (addr (jobs ! i)) = Some c
    \<Longrightarrow> fan_step addr net f g jobs (Live ws k b cl) (Live (ws[i := Computing c]) k b cl)"
| race: "i < length ws \<Longrightarrow> j < length ws \<Longrightarrow> wants_cache (ws ! i) \<Longrightarrow> ws ! j = Writing
    \<Longrightarrow> fan_step addr net f g jobs (Live ws k b cl) Raced"
| answer: "i < length ws \<Longrightarrow> ws ! i = Computing c \<Longrightarrow> f c (jobs ! i) = Ret r
    \<Longrightarrow> fan_step addr net f g jobs (Live ws k b cl) (Live (ws[i := Sending r]) k b cl)"
| panic: "i < length ws \<Longrightarrow> ws ! i = Computing c \<Longrightarrow> f c (jobs ! i) = Panic m
    \<Longrightarrow> fan_step addr net f g jobs (Live ws k b cl) (Crashed m)"
| receive: "length ws = length jobs \<Longrightarrow> k < length ws \<Longrightarrow> ws ! k = Sending r
    \<Longrightarrow> fan_step addr net f g jobs (Live ws k b cl) (Live (ws[k := Ended]) (Suc k) (g r b) cl)"

inductive_simps fan_step_Crashed [simp]: "fan_step addr net f g jobs (Crashed m) t"
inductive_simps fan_step_Raced [simp]: "fan_step addr net f g jobs Raced t"

definition fan_start :: "'n httpTransport go_map \<Rightarrow> 'b \<Rightarrow> ('n, 'r, 'b) fan" where
  "fan_start clients b = Live [] 0 b clients"

text \<open>What an analyzer answers is what comes back from the host the client leads to.\<close>

definition through :: "'n httpTransport \<Rightarrow> 'w driver_env \<Rightarrow> 'w driver_env" where
  "through c env = env\<lparr>de_categories := \<lambda>_. de_categories env (ht_host c),
     de_stage := \<lambda>_. de_stage env (ht_host c), de_analyze := \<lambda>_. de_analyze env (ht_host c)\<rparr>"

text \<open>The two instances.\<close>

definition info_step ::
  "'w driver_env \<Rightarrow> 'n \<Rightarrow> ShipshapeDriver \<Rightarrow> ('n, serviceInfo, serviceInfo go_map) fan
     \<Rightarrow> ('n, serviceInfo, serviceInfo go_map) fan \<Rightarrow> bool" where
  "info_step env net sd = fan_step (\<lambda>analyzer. analyzer) net
     (\<lambda>httpClient. callGetAnalyzerInfo (through httpClient env))
     (\<lambda>info m. AList.update (si_analyzer info) info m) (AnalyzerLocations sd)"

definition analyze_step ::
  "'w driver_env \<Rightarrow> 'n \<Rightarrow> ShipshapeDriver \<Rightarrow> Set \<Rightarrow> ShipshapeContext \<Rightarrow> Stage
     \<Rightarrow> ('n, AnalyzeResponse, AnalyzeResponse list) fan
     \<Rightarrow> ('n, AnalyzeResponse, AnalyzeResponse list) fan \<Rightarrow> bool" where
  "analyze_step env net sd desiredCats contxt stage = fan_step fst net
     (\<lambda>httpClient (analyzer, req). Ret (callAnalyze (through httpClient env) analyzer req))
     (\<lambda>ar ars. ars @ [filterResults contxt ar]) (analyzer_calls env sd desiredCats contxt stage)"

subsection \<open>Invariant and weight\<close>

text \<open>With a client that leads to the address of the job, a goroutine computes \<open>F\<close> of the job.\<close>

definition leads :: "('j \<Rightarrow> string) \<Rightarrow> ('n httpTransport \<Rightarrow> 'j \<Rightarrow> 'r go) \<Rightarrow> ('j \<Rightarrow> 'r go) \<Rightarrow> bool" where
  "leads addr f F \<longleftrightarrow> (\<forall>c j. ht_host c = addr j \<longrightarrow> f c j = F j)"

lemma leads_info: "leads (\<lambda>analyzer. analyzer) (\<lambda>c. callGetAnalyzerInfo (through c env)) (callGetAnalyzerInfo env)"
  by (simp add: leads_def callGetAnalyzerInfo_def through_def)

lemma leads_analyze:
  "leads fst (\<lambda>c (analyzer, req). Ret (callAnalyze (through c env) analyzer req))
     (\<lambda>(analyzer, req). Ret (callAnalyze env analyzer req))"
  by (simp add: leads_def callAnalyze_def through_def case_prod_unfold)

text \<open>No client is there for the address of some job.\<close>

definition uncached :: "('j \<Rightarrow> string) \<Rightarrow> 'j list \<Rightarrow> 'n httpTransport go_map \<Rightarrow> bool" where
  "uncached addr jobs cl \<longleftrightarrow> (\<exists>j \<in> set jobs. map_of cl (addr j) = None)"

fun go_all :: "('j \<Rightarrow> 'r go) \<Rightarrow> 'j list \<Rightarrow> 'r list go" where
  "go_all f [] = Ret []"
| "go_all f (j # js) = go_bind (f j) (\<lambda>r. go_bind (go_all f js) (\<lambda>rs. Ret (r # rs)))"

lemma go_all_snoc: "go_all f (js @ [j]) = go_bind (go_all f js) (\<lambda>rs. go_bind (f j) (\<lambda>r. Ret (rs @ [r])))"
  by (induction js) (simp_all add: go_bind_assoc)

lemma go_all_panics: "panics (go_all f js) \<longleftrightarrow> (\<exists>j \<in> set js. panics (f j))"
proof (induction js)
  case (Cons j js)
  then show ?case by (cases "f j"; cases "go_all f js") auto
qed simp

fun worker_ok :: "'n httpTransport go_map \<Rightarrow> 'n httpTransport go_map \<Rightarrow> string \<Rightarrow> 'r go \<Rightarrow> bool
     \<Rightarrow> ('n, 'r) worker \<Rightarrow> bool" where
  "worker_ok cl0 cl a v told Looking \<longleftrightarrow> \<not> told"
| "worker_ok cl0 cl a v told Absent \<longleftrightarrow> \<not> told \<and> map_of cl0 a = None"
| "worker_ok cl0 cl a v told Writing \<longleftrightarrow> \<not> told \<and> map_of cl0 a = None"
| "worker_ok cl0 cl a v told Written \<longleftrightarrow> \<not> told \<and> map_of cl a \<noteq> None"
| "worker_ok cl0 cl a v told (Computing c) \<longleftrightarrow> \<not> told \<and> map_of cl a \<noteq> None \<and> ht_host c = a"
| "worker_ok cl0 cl a v told (Sending r) \<longleftrightarrow> \<not> told \<and> map_of cl a \<noteq> None \<and> v = Ret r"
| "worker_ok cl0 cl a v told Ended \<longleftrightarrow> told \<and> map_of cl a \<noteq> None"

definition all_ok :: "('j \<Rightarrow> string) \<Rightarrow> ('j \<Rightarrow> 'r go) \<Rightarrow> 'j list \<Rightarrow> 'n httpTransport go_map
     \<Rightarrow> 'n httpTransport go_map \<Rightarrow> nat \<Rightarrow> ('n, 'r) worker list \<Rightarrow> bool" where
  "all_ok addr F jobs cl0 cl k ws \<longleftrightarrow>
     (\<forall>i < length ws. worker_ok cl0 cl (addr (jobs ! i)) (F (jobs ! i)) (i < k) (ws ! i))"

text \<open>The cache only grows, and its clients lead to their keys.\<close>

definition cache_ok :: "'n httpTransport go_map \<Rightarrow> 'n httpTransport go_map \<Rightarrow> bool" where
  "cache_ok cl0 cl \<longleftrightarrow> hosts_ok cl \<and> (\<forall>a. map_of cl0 a \<noteq> None \<longrightarrow> map_of cl a \<noteq> None)"

fun fan_inv :: "('j \<Rightarrow> string) \<Rightarrow> ('j \<Rightarrow> 'r go) \<Rightarrow> ('r \<Rightarrow> 'b \<Rightarrow> 'b) \<Rightarrow> 'j list
     \<Rightarrow> 'n httpTransport go_map \<Rightarrow> 'b \<Rightarrow> ('n, 'r, 'b) fan \<Rightarrow> bool" where
  "fan_inv addr F g jobs cl0 b0 (Live ws k b cl) \<longleftrightarrow>
     length ws \<le> length jobs \<and> k \<le> length ws \<and> (k \<noteq> 0 \<longrightarrow> length ws = length jobs)
     \<and> all_ok addr F jobs cl0 cl k ws \<and> cache_ok cl0 cl
     \<and> (\<exists>rs. go_all F (take k jobs) = Ret rs \<and> b = fold g rs b0)"
| "fan_inv addr F g jobs cl0 b0 (Crashed m) \<longleftrightarrow> (\<exists>j \<in> set jobs. F j = Panic m)"
| "fan_inv addr F g jobs cl0 b0 Raced \<longleftrightarrow> length jobs \<ge> 2 \<and> uncached addr jobs cl0"

fun worker_left :: "('n, 'r) worker \<Rightarrow> nat" where
  "worker_left Looking = 6"
| "worker_left Absent = 5"
| "worker_left Writing = 4"
| "worker_left Written = 3"
| "worker_left (Computing c) = 2"
| "worker_left (Sending r) = 1"
| "worker_left Ended = 0"

fun fan_left :: "'j list \<Rightarrow> ('n, 'r, 'b) fan \<Rightarrow> nat" where
  "fan_left jobs (Live ws k b cl) = 1 + 7 * (length jobs - length ws) + sum_list (map worker_left ws)"
| "fan_left jobs (Crashed m) = 0"
| "fan_left jobs Raced = 0"

lemma all_ok_at:
  "all_ok addr F jobs cl0 cl k ws \<Longrightarrow> i < length ws \<Longrightarrow> ws ! i = p
     \<Longrightarrow> worker_ok cl0 cl (addr (jobs ! i)) (F (jobs ! i)) (i < k) p"
  by (auto simp: all_ok_def)

lemma all_ok_put:
  assumes "all_ok addr F jobs cl0 cl k ws" "worker_ok cl0 cl (addr (jobs ! i)) (F (jobs ! i)) (i < k) p"
  shows "all_ok addr F jobs cl0 cl k (ws[i := p])"
  unfolding all_ok_def
proof (intro allI impI)
  fix l assume "l < length (ws[i := p])"
  then show "worker_ok cl0 cl (addr (jobs ! l)) (F (jobs ! l)) (l < k) (ws[i := p] ! l)"
    using assms by (cases "l = i") (simp_all add: all_ok_def)
qed

lemma worker_ok_update: "worker_ok cl0 cl a v told p \<Longrightarrow> worker_ok cl0 (AList.update b c cl) a v told p"
  by (cases p) (auto simp: update_conv')

lemma cache_ok_update: "cache_ok cl0 cl \<Longrightarrow> cache_ok cl0 (AList.update a (NewHTTPClient a net) cl)"
  by (auto simp: cache_ok_def hosts_ok_update) (auto simp: update_conv')

text \<open>One goroutine moves and the rest stays as it is.\<close>

lemma fan_inv_move:
  assumes "fan_inv addr F g jobs cl0 b0 (Live ws k b cl)"
    "worker_ok cl0 cl (addr (jobs ! i)) (F (jobs ! i)) (i < k) p"
  shows "fan_inv addr F g jobs cl0 b0 (Live (ws[i := p]) k b cl)"
  using assms all_ok_put [of addr F jobs cl0 cl k ws i p] by simp

lemma fan_inv_at:
  assumes "fan_inv addr F g jobs cl0 b0 (Live ws k b cl)" "i < length ws" "ws ! i = p"
  shows "worker_ok cl0 cl (addr (jobs ! i)) (F (jobs ! i)) (i < k) p"
  using assms all_ok_at [of addr F jobs cl0 cl k ws i p] by simp

lemma fan_inv_holds:
  assumes "fan_inv addr F g jobs cl0 b0 (Live ws k b cl)" "i < length ws" "wants_cache (ws ! i)"
    "map_of cl (addr (jobs ! i)) = Some c"
  shows "fan_inv addr F g jobs cl0 b0 (Live (ws[i := Computing c]) k b cl)"
proof -
  have "ht_host c = addr (jobs ! i)" using assms(1,4) by (auto simp: cache_ok_def hosts_ok_def)
  then show ?thesis
    using fan_inv_move [OF assms(1), of i "Computing c"] fan_inv_at [OF assms(1,2) refl] assms(3,4) by auto
qed

lemma fan_inv_receive:
  assumes "fan_inv addr F g jobs cl0 b0 (Live ws k b cl)" "length ws = length jobs" "k < length ws" "ws ! k = Sending r"
  shows "fan_inv addr F g jobs cl0 b0 (Live (ws[k := Ended]) (Suc k) (g r b) cl)"
proof -
  obtain rs where rs: "go_all F (take k jobs) = Ret rs" "b = fold g rs b0" and ok: "all_ok addr F jobs cl0 cl k ws"
    using assms(1) by auto
  have at: "worker_ok cl0 cl (addr (jobs ! k)) (F (jobs ! k)) (k < k) (Sending r)"
    using fan_inv_at [OF assms(1,3,4)] .
  have "take (Suc k) jobs = take k jobs @ [jobs ! k]"
    using assms(2,3) by (simp add: take_Suc_conv_app_nth)
  then have "go_all F (take (Suc k) jobs) = Ret (rs @ [r])" "g r b = fold g (rs @ [r]) b0"
    using rs at by (simp_all add: go_all_snoc)
  moreover have "all_ok addr F jobs cl0 cl (Suc k) (ws[k := Ended])"
    using ok at assms(3) by (auto simp: all_ok_def nth_list_update less_Suc_eq)
  ultimately show ?thesis using assms by auto
qed

lemma fan_inv_step:
  assumes "leads addr f F" "fan_inv addr F g jobs cl0 b0 s" "fan_step addr net f g jobs s t"
  shows "fan_inv addr F g jobs cl0 b0 t"
  using assms(3,2)
proof cases
  case (spawn ws k b cl)
  then show ?thesis using assms(2) by (auto simp: all_ok_def nth_append less_Suc_eq)
next
  case (hit i ws cl c k b)
  then show ?thesis using fan_inv_holds [of addr F g jobs cl0 b0 ws k b cl i c] assms(2) by simp
next
  case (miss i ws cl k b)
  then have "map_of cl0 (addr (jobs ! i)) = None" using assms(2) by (auto simp: cache_ok_def)
  then show ?thesis
    using fan_inv_move [of addr F g jobs cl0 b0 ws k b cl i Absent] fan_inv_at [of addr F g jobs cl0 b0 ws k b cl i Looking]
      miss assms(2) by simp
next
  case (store i ws k b cl)
  then show ?thesis
    using fan_inv_move [of addr F g jobs cl0 b0 ws k b cl i Writing] fan_inv_at [of addr F g jobs cl0 b0 ws k b cl i Absent]
      assms(2) by simp
next
  case (stored i ws k b cl)
  let ?cl = "AList.update (addr (jobs ! i)) (NewHTTPClient (addr (jobs ! i)) net) cl"
  have "fan_inv addr F g jobs cl0 b0 (Live ws k b ?cl)"
    using assms(2) stored cache_ok_update by (auto simp: all_ok_def worker_ok_update)
  moreover have "worker_ok cl0 ?cl (addr (jobs ! i)) (F (jobs ! i)) (i < k) Written"
    using fan_inv_at [of addr F g jobs cl0 b0 ws k b cl i Writing] stored assms(2) by (simp add: update_conv')
  ultimately show ?thesis unfolding stored(2) by (rule fan_inv_move)
next
  case (reread i ws cl c k b)
  then show ?thesis using fan_inv_holds [of addr F g jobs cl0 b0 ws k b cl i c] assms(2) by simp
next
  case (race i ws j k b cl)
  then have "ws ! i \<noteq> ws ! j" by auto
  moreover have inv: "fan_inv addr F g jobs cl0 b0 (Live ws k b cl)" using race assms(2) by simp
  then have l: "length ws \<le> length jobs" by simp
  moreover have "map_of cl0 (addr (jobs ! j)) = None" using fan_inv_at [OF inv race(4,6)] by simp
  then have "uncached addr jobs cl0" using race(4) l by (auto simp: uncached_def)
  ultimately show ?thesis using two_workers [of i ws j jobs] race by simp
next
  case (answer i ws c r k b cl)
  then have w: "worker_ok cl0 cl (addr (jobs ! i)) (F (jobs ! i)) (i < k) (Computing c)"
    using fan_inv_at [of addr F g jobs cl0 b0 ws k b cl i "Computing c"] assms(2) by simp
  then have "F (jobs ! i) = Ret r" using answer assms(1) by (simp add: leads_def)
  then show ?thesis
    using fan_inv_move [of addr F g jobs cl0 b0 ws k b cl i "Sending r"] w answer assms(2) by simp
next
  case (panic i ws c m k b cl)
  then have "worker_ok cl0 cl (addr (jobs ! i)) (F (jobs ! i)) (i < k) (Computing c)"
    using fan_inv_at [of addr F g jobs cl0 b0 ws k b cl i "Computing c"] assms(2) by simp
  then have "F (jobs ! i) = Panic m" using panic assms(1) by (simp add: leads_def)
  then show ?thesis using panic assms(2) by (auto intro!: bexI [of _ "jobs ! i"])
next
  case (receive ws k r b cl)
  have "fan_inv addr F g jobs cl0 b0 (Live ws k b cl)" using assms(2) by (simp only: receive(1))
  then show ?thesis unfolding receive(2) using receive(3-5) by (rule fan_inv_receive)
qed

lemma fan_left_step:
  assumes "fan_step addr net f g jobs s t"
  shows "fan_left jobs t < fan_left jobs s"
  using assms by cases (auto intro!: sum_update_less)

lemma fan_inv_start: "hosts_ok cl0 \<Longrightarrow> fan_inv addr F g jobs cl0 b0 (fan_start cl0 b0)"
  by (simp add: fan_start_def all_ok_def cache_ok_def)

text \<open>The cache a fan-out starts with comes from earlier calls, so its clients lead to their keys.\<close>

interpretation fan: step_system "fan_step addr net f g jobs" "fan_start cl0 b0"
    "\<lambda>s. leads addr f F \<and> hosts_ok cl0 \<longrightarrow> fan_inv addr F g jobs cl0 b0 s" "fan_left jobs"
  for addr :: "'j \<Rightarrow> string" and net :: 'n and f :: "'n httpTransport \<Rightarrow> 'j \<Rightarrow> 'r go"
    and g :: "'r \<Rightarrow> 'b \<Rightarrow> 'b" and jobs and cl0 b0 F
  by unfold_locales (simp add: fan_inv_start, blast intro: fan_inv_step, erule fan_left_step)

text \<open>The schedules without a race: the same steps, less the one to \<open>Raced\<close>.\<close>

definition calm_step ::
  "('j \<Rightarrow> string) \<Rightarrow> 'n \<Rightarrow> ('n httpTransport \<Rightarrow> 'j \<Rightarrow> 'r go) \<Rightarrow> ('r \<Rightarrow> 'b \<Rightarrow> 'b) \<Rightarrow> 'j list
     \<Rightarrow> ('n, 'r, 'b) fan \<Rightarrow> ('n, 'r, 'b) fan \<Rightarrow> bool" where
  "calm_step addr net f g jobs s t \<longleftrightarrow> fan_step addr net f g jobs s t \<and> t \<noteq> Raced"

interpretation calm: step_system "calm_step addr net f g jobs" "fan_start cl0 b0"
    "\<lambda>s. leads addr f F \<and> hosts_ok cl0 \<longrightarrow> fan_inv addr F g jobs cl0 b0 s \<and> s \<noteq> Raced" "fan_left jobs"
  for addr :: "'j \<Rightarrow> string" and net :: 'n and f :: "'n httpTransport \<Rightarrow> 'j \<Rightarrow> 'r go"
    and g :: "'r \<Rightarrow> 'b \<Rightarrow> 'b" and jobs and cl0 b0 F
  by unfold_locales (simp add: fan_inv_start fan_start_def all_ok_def cache_ok_def,
    (simp only: calm_step_def, blast intro: fan_inv_step), simp only: calm_step_def, blast intro: fan_left_step)

lemma calm_fan: "(calm_step addr net f g jobs)\<^sup>*\<^sup>* s t \<Longrightarrow> (fan_step addr net f g jobs)\<^sup>*\<^sup>* s t"
  by (rule rtranclp_mono [THEN predicate2D, rotated]) (auto simp: calm_step_def)

subsection \<open>Complete runs\<close>

text \<open>A goroutine that is not waiting for its receiver can always move, without a race.\<close>

lemma worker_moves:
  assumes "fan_inv addr F g jobs cl0 b0 (Live ws k b cl)" "i < length ws" "ws ! i \<noteq> Ended" "\<nexists>r. ws ! i = Sending r"
  shows "\<exists>t. calm_step addr net f g jobs (Live ws k b cl) t"
proof -
  have ok: "worker_ok cl0 cl (addr (jobs ! i)) (F (jobs ! i)) (i < k) (ws ! i)"
    by (rule fan_inv_at [OF assms(1,2) refl])
  show ?thesis
  proof (cases "writing ws")
    case True
    then obtain j where "j < length ws" "ws ! j = Writing" by (auto simp: writing_def in_set_conv_nth)
    then show ?thesis unfolding calm_step_def using stored by (metis fan.distinct(3))
  next
    case False
    show ?thesis
    proof (cases "ws ! i")
      case Looking
      then show ?thesis
        unfolding calm_step_def using False assms(2) hit miss by (metis fan.distinct(3) not_None_eq)
    next
      case Absent
      then show ?thesis unfolding calm_step_def using False assms(2) store by (metis fan.distinct(3))
    next
      case Writing
      then show ?thesis using False assms(2) nth_mem by (fastforce simp: writing_def)
    next
      case Written
      then obtain c where "map_of cl (addr (jobs ! i)) = Some c" using ok by auto
      then show ?thesis unfolding calm_step_def using Written False assms(2) reread by (metis fan.distinct(3))
    next
      case (Computing c)
      show ?thesis
      proof (cases "f c (jobs ! i)")
        case (Ret r)
        then show ?thesis
          unfolding calm_step_def using answer [of i ws c f jobs r addr net g k b cl, OF assms(2) Computing] by blast
      next
        case (Panic m)
        then show ?thesis
          unfolding calm_step_def using panic [of i ws c f jobs m addr net g k b cl, OF assms(2) Computing] by blast
      qed
    qed (use assms(3,4) in simp_all)
  qed
qed

text \<open>The end of a fan-out, whatever the schedule: every answer was received and every goroutine has ended.\<close>

definition fan_end :: "('j \<Rightarrow> string) \<Rightarrow> ('j \<Rightarrow> 'r go) \<Rightarrow> ('r \<Rightarrow> 'b \<Rightarrow> 'b) \<Rightarrow> 'j list
     \<Rightarrow> 'n httpTransport go_map \<Rightarrow> 'b \<Rightarrow> ('n, 'r, 'b) fan \<Rightarrow> bool" where
  "fan_end addr F g jobs cl0 b0 t \<longleftrightarrow> (case go_all F jobs of
     Ret rs \<Rightarrow> \<exists>cl. t = Live (replicate (length jobs) Ended) (length jobs) (fold g rs b0) cl
       \<and> cache_ok cl0 cl \<and> \<not> uncached addr jobs cl
   | Panic _ \<Rightarrow> \<exists>j \<in> set jobs. \<exists>m. F j = Panic m \<and> t = Crashed m)"

lemma stuck_Live:
  assumes "fan_inv addr F g jobs cl0 b0 (Live ws k b cl)" "stuck (calm_step addr net f g jobs) (Live ws k b cl)"
  shows "fan_end addr F g jobs cl0 b0 (Live ws k b cl)"
proof -
  have stay: "\<not> calm_step addr net f g jobs (Live ws k b cl) t" for t using assms(2) by (simp add: stuck_def)
  have I: "length ws \<le> length jobs" "k \<le> length ws" "cache_ok cl0 cl"
    "\<exists>rs. go_all F (take k jobs) = Ret rs \<and> b = fold g rs b0"
    using assms(1) by simp_all
  have len: "length ws = length jobs"
    using stay I(1) spawn unfolding calm_step_def by (metis fan.distinct(3) le_neq_implies_less)
  have sends: "ws ! i = Ended \<or> (\<exists>r. ws ! i = Sending r)" if "i < length ws" for i
    using worker_moves [OF assms(1) that] stay by blast
  have k: "k = length ws"
  proof (rule ccontr)
    assume "k \<noteq> length ws"
    then have k: "k < length ws" using I(2) by simp
    have "ws ! k \<noteq> Sending r" for r
      using stay receive [OF len k] unfolding calm_step_def by (metis fan.distinct(3))
    then show False using sends [OF k] fan_inv_at [OF assms(1) k refl] by auto
  qed
  have ended: "ws ! i = Ended" if "i < length ws" for i
    using sends [OF that] fan_inv_at [OF assms(1) that refl] that k by auto
  have "map_of cl (addr (jobs ! i)) \<noteq> None" if "i < length jobs" for i
    using fan_inv_at [OF assms(1), of i Ended] ended that len by simp
  then have "\<not> uncached addr jobs cl" by (metis uncached_def in_set_conv_nth)
  moreover have "ws = replicate (length jobs) Ended" using ended len by (simp add: list_eq_iff_nth_eq)
  ultimately show ?thesis using I k len by (auto simp: fan_end_def)
qed

lemma calm_end:
  assumes "fan_inv addr F g jobs cl0 b0 t" "t \<noteq> Raced" "stuck (calm_step addr net f g jobs) t"
  shows "fan_end addr F g jobs cl0 b0 t"
proof (cases t)
  case (Live ws k b cl)
  then show ?thesis using stuck_Live [of addr F g jobs cl0 b0 ws k b cl net f] assms(1,3) by simp
next
  case (Crashed m)
  then have e: "\<exists>j \<in> set jobs. F j = Panic m" using assms(1) by simp
  then have "panics (go_all F jobs)" by (force simp: go_all_panics)
  then show ?thesis using Crashed e by (cases "go_all F jobs") (auto simp: fan_end_def)
qed (use assms(2) in simp)

text \<open>The three things that hold of every schedule: it is short, it can still end without a race when it
  has not met one, and where it stops is the end above, or a race over an address without a client.\<close>

lemma fan_schedule:
  fixes f :: "'n httpTransport \<Rightarrow> 'j \<Rightarrow> 'r go" and g :: "'r \<Rightarrow> 'b \<Rightarrow> 'b"
  assumes "leads addr f F" "hosts_ok cl0" "(fan_step addr net f g jobs ^^ n) (fan_start cl0 b0) s"
  shows "n \<le> 7 * length jobs + 1"
    and "s \<noteq> Raced \<Longrightarrow> \<exists>t. (fan_step addr net f g jobs)\<^sup>*\<^sup>* s t \<and> fan_end addr F g jobs cl0 b0 t"
    and "stuck (fan_step addr net f g jobs) s
      \<Longrightarrow> fan_end addr F g jobs cl0 b0 s \<or> s = Raced"
    and "s = Raced \<Longrightarrow> length jobs \<ge> 2 \<and> uncached addr jobs cl0"
proof -
  have "leads addr f F \<and> hosts_ok cl0 \<longrightarrow> fan_inv addr F g jobs cl0 b0 s"
    by (rule fan.reachable_inv) (rule relpowp_imp_rtranclp [OF assms(3)])
  then have inv: "fan_inv addr F g jobs cl0 b0 s" using assms(1,2) by blast
  have "n + fan_left jobs s \<le> fan_left jobs (fan_start cl0 b0 :: ('n, 'r, 'b) fan)"
    by (rule fan.run_length [where F = F and ?cl0.0 = cl0 and ?b0.0 = b0, OF _ assms(3)])
      (simp only: fan_inv_start assms(2) simp_thms)
  then show "n \<le> 7 * length jobs + 1" by (simp add: fan_start_def)
  show "\<exists>t. (fan_step addr net f g jobs)\<^sup>*\<^sup>* s t \<and> fan_end addr F g jobs cl0 b0 t" if "s \<noteq> Raced"
  proof -
    have ok: "leads addr f F \<and> hosts_ok cl0 \<longrightarrow> fan_inv addr F g jobs cl0 b0 s \<and> s \<noteq> Raced" using inv that by simp
    obtain t where t: "(calm_step addr net f g jobs)\<^sup>*\<^sup>* s t" "stuck (calm_step addr net f g jobs) t"
      using calm.ends [OF ok] by blast
    have "fan_inv addr F g jobs cl0 b0 t \<and> t \<noteq> Raced" using calm.inv_steps [OF ok t(1)] assms(1,2) by blast
    then have "fan_end addr F g jobs cl0 b0 t" using calm_end [OF _ _ t(2)] by blast
    then show ?thesis using calm_fan [OF t(1)] by blast
  qed
  show "fan_end addr F g jobs cl0 b0 s \<or> s = Raced" if "stuck (fan_step addr net f g jobs) s"
    using calm_end [OF inv, of net f] that by (auto simp: stuck_def calm_step_def)
  show "length jobs \<ge> 2 \<and> uncached addr jobs cl0" if "s = Raced" using inv that by simp
qed

lemma ended_stuck:
  "stuck (fan_step addr net f g jobs) (Live (replicate (length jobs) Ended) (length jobs) b cl)"
  by (auto simp: stuck_def elim!: fan_step.cases)

text \<open>Two goroutines without a client can meet: the first stores its client while the second looks for its own.\<close>

lemma fan_race:
  assumes "length jobs \<ge> 2" "map_of cl (addr (jobs ! 0)) = None"
  shows "(fan_step addr net f g jobs)\<^sup>*\<^sup>* (fan_start cl b) Raced"
proof -
  let ?s = "fan_step addr net f g jobs"
  have "?s (Live [] 0 b cl) (Live [Looking] 0 b cl)"
    using fan_step.spawn [of "[]" jobs addr net f g 0 b cl] assms(1) by fastforce
  moreover have "?s (Live [Looking] 0 b cl) (Live [Looking, Looking] 0 b cl)"
    using fan_step.spawn [of "[Looking]" jobs addr net f g 0 b cl] assms(1) by simp
  moreover have "?s (Live [Looking, Looking] 0 b cl) (Live [Absent, Looking] 0 b cl)"
    using fan_step.miss [of 0 "[Looking, Looking]" cl addr jobs net f g 0 b] assms(2) by (simp add: writing_def)
  moreover have "?s (Live [Absent, Looking] 0 b cl) (Live [Writing, Looking] 0 b cl)"
    using fan_step.store [of 0 "[Absent, Looking]" addr net f g jobs 0 b cl] by (simp add: writing_def)
  moreover have "?s (Live [Writing, Looking] 0 b cl) Raced"
    using fan_step.race [of 1 "[Writing, Looking]" 0 addr net f g jobs 0 b cl] by simp
  ultimately show ?thesis
    unfolding fan_start_def by (meson converse_rtranclp_into_rtranclp rtranclp.rtrancl_refl)
qed

subsection \<open>The driver\<close>

lemma collect_infos_go_all: "collect_infos env as = go_all (callGetAnalyzerInfo env) as"
  by (induction as) simp_all

lemma go_all_Ret: "go_all (\<lambda>x. Ret (h x)) js = Ret (map h js)"
  by (induction js) simp_all

lemma callAllAnalyzers_fold:
  "callAllAnalyzers env sd desired contxt stage
     = fold (\<lambda>ar ars. ars @ [filterResults contxt ar])
         (map (\<lambda>(a, req). callAnalyze env a req) (analyzer_calls env sd desired contxt stage)) []"
proof -
  have "fold (\<lambda>ar ars. ars @ [filterResults contxt ar]) rs ars = ars @ map (filterResults contxt) rs" for rs ars
    by (induction rs arbitrary: ars) simp_all
  then show ?thesis by (simp add: callAllAnalyzers_def case_prod_unfold comp_def)
qed

lemma callAllAnalyzers_end:
  "fan_end fst (\<lambda>(a, req). Ret (callAnalyze env a req)) (\<lambda>ar ars. ars @ [filterResults contxt ar])
       (analyzer_calls env sd desired contxt stage) cl0 [] t
     \<longleftrightarrow> (\<exists>cl. t = Live (replicate (length (analyzer_calls env sd desired contxt stage)) Ended)
             (length (analyzer_calls env sd desired contxt stage)) (callAllAnalyzers env sd desired contxt stage) cl
           \<and> cache_ok cl0 cl \<and> \<not> uncached fst (analyzer_calls env sd desired contxt stage) cl)"
proof -
  have "go_all (\<lambda>(a, req). Ret (callAnalyze env a req)) js = Ret (map (\<lambda>(a, req). callAnalyze env a req) js)" for js
    using go_all_Ret [of "\<lambda>(a, req). callAnalyze env a req" js] by (simp add: case_prod_unfold)
  then show ?thesis by (simp add: fan_end_def callAllAnalyzers_fold)
qed

lemma getAllServiceInfo_end:
  assumes "fan_end (\<lambda>a. a) (callGetAnalyzerInfo env) (\<lambda>info m. AList.update (si_analyzer info) info m)
    (AnalyzerLocations sd) cl0 [] t"
  shows "case getAllServiceInfo env sd of
      Ret m \<Rightarrow> \<exists>cl. t = Live (replicate (length (AnalyzerLocations sd)) Ended) (length (AnalyzerLocations sd)) m cl
        \<and> cache_ok cl0 cl \<and> \<not> uncached (\<lambda>a. a) (AnalyzerLocations sd) cl
    | Panic _ \<Rightarrow> (\<exists>a \<in> set (AnalyzerLocations sd). de_stage env a = Inr None) \<and> (\<exists>msg. t = Crashed msg)"
proof (cases "collect_infos env (AnalyzerLocations sd)")
  case (Ret infos)
  then show ?thesis using assms by (simp add: fan_end_def getAllServiceInfo_def collect_infos_go_all)
next
  case (Panic m)
  then obtain a msg where "a \<in> set (AnalyzerLocations sd)" "panics (callGetAnalyzerInfo env a)" "t = Crashed msg"
    using assms by (auto simp: fan_end_def collect_infos_go_all)
  then show ?thesis using Panic by (auto simp: getAllServiceInfo_def callGetAnalyzerInfo_panics)
qed

text \<open>C11: however the goroutines of \<open>getAllServiceInfo\<close> are scheduled, they take at most seven steps
  each, and when nothing moves any more one of three things has happened.  The driver has exactly the
  map the sequential reading gives, every goroutine has ended, and every address has a client in the
  cache; or some analyzer answered without a stage and the process has crashed; or the Go runtime has stopped
  the process over the cache of clients, which takes two addresses at least, one of them without a client
  when the fan-out began.\<close>

theorem getAllServiceInfo_concurrent:
  assumes "hosts_ok clients" "(info_step env net sd ^^ n) (fan_start clients []) t"
  shows "n \<le> 7 * length (AnalyzerLocations sd) + 1
    \<and> (t = Raced \<longrightarrow> length (AnalyzerLocations sd) \<ge> 2 \<and> (\<exists>a \<in> set (AnalyzerLocations sd). map_of clients a = None))
    \<and> (stuck (info_step env net sd) t \<longrightarrow> t = Raced \<or>
        (case getAllServiceInfo env sd of
           Ret m \<Rightarrow> \<exists>cl. t = Live (replicate (length (AnalyzerLocations sd)) Ended) (length (AnalyzerLocations sd)) m cl
             \<and> hosts_ok cl \<and> (\<forall>a \<in> set (AnalyzerLocations sd). map_of cl a \<noteq> None)
         | Panic _ \<Rightarrow> (\<exists>a \<in> set (AnalyzerLocations sd). de_stage env a = Inr None) \<and> (\<exists>msg. t = Crashed msg)))"
proof -
  note s = fan_schedule [OF leads_info assms(1) assms(2) [unfolded info_step_def], folded info_step_def]
  have "t = Raced \<or> (case getAllServiceInfo env sd of
      Ret m \<Rightarrow> \<exists>cl. t = Live (replicate (length (AnalyzerLocations sd)) Ended) (length (AnalyzerLocations sd)) m cl
        \<and> hosts_ok cl \<and> (\<forall>a \<in> set (AnalyzerLocations sd). map_of cl a \<noteq> None)
    | Panic _ \<Rightarrow> (\<exists>a \<in> set (AnalyzerLocations sd). de_stage env a = Inr None) \<and> (\<exists>msg. t = Crashed msg))"
    if "stuck (info_step env net sd) t"
    using s(3) [OF that] getAllServiceInfo_end [of env sd clients t]
    by (cases "getAllServiceInfo env sd") (auto simp: uncached_def cache_ok_def)
  then show ?thesis using s(1,4) by (auto simp: uncached_def)
qed

text \<open>The two analyzers of the demo driver, whose clients the health check has put into the cache.\<close>

definition demo_clients :: "unit httpTransport go_map" where
  "demo_clients = map (\<lambda>a. (a, NewHTTPClient a ())) (AnalyzerLocations demo_driver)"

lemma demo_clients_ok: "hosts_ok demo_clients" "\<forall>a \<in> set (AnalyzerLocations demo_driver). map_of demo_clients a \<noteq> None"
  by (auto simp: demo_clients_def locations_demo hosts_ok_def NewHTTPClient_def)

lemma info_demo:
  assumes "hosts_ok clients"
  shows "\<exists>t m cl. (info_step (demo_env ''manual'' [''go vet'']) net demo_driver)\<^sup>*\<^sup>* (fan_start clients []) t
    \<and> stuck (info_step (demo_env ''manual'' [''go vet'']) net demo_driver) t \<and> t = Live [Ended, Ended] 2 m cl
    \<and> getAllServiceInfo (demo_env ''manual'' [''go vet'']) demo_driver = Ret m"
proof -
  let ?env = "demo_env ''manual'' [''go vet'']"
  obtain m where m: "getAllServiceInfo ?env demo_driver = Ret m"
    using stages_demo getAllServiceInfo_panics not_panics by metis
  have z: "(info_step ?env net demo_driver ^^ 0) (fan_start clients []) (fan_start clients [])" by simp
  obtain t where t: "(info_step ?env net demo_driver)\<^sup>*\<^sup>* (fan_start clients []) t"
      "fan_end (\<lambda>a. a) (callGetAnalyzerInfo ?env) (\<lambda>info m. AList.update (si_analyzer info) info m)
        (AnalyzerLocations demo_driver) clients [] t"
    using fan_schedule(2) [OF leads_info assms z [unfolded info_step_def], folded info_step_def]
    by (auto simp: fan_start_def)
  obtain cl where "t = Live [Ended, Ended] 2 m cl"
    using getAllServiceInfo_end [OF t(2)] m by (auto simp: locations_demo numeral_2_eq_2)
  moreover have "stuck (info_step ?env net demo_driver) (Live [Ended, Ended] 2 m cl)"
    using ended_stuck [of "\<lambda>a. a" net "\<lambda>c. callGetAnalyzerInfo (through c ?env)" _ "AnalyzerLocations demo_driver" m cl]
    by (simp add: info_step_def locations_demo numeral_2_eq_2)
  ultimately show ?thesis using t(1) m by blast
qed

theorem getAllServiceInfo_concurrent_witness:
  "\<exists>n m cl. n \<le> 15 \<and> (info_step (demo_env ''manual'' [''go vet'']) () demo_driver ^^ n) (fan_start demo_clients [])
       (Live [Ended, Ended] 2 m cl)
     \<and> getAllServiceInfo (demo_env ''manual'' [''go vet'']) demo_driver = Ret m
     \<and> (\<forall>a \<in> set (AnalyzerLocations demo_driver). map_of cl a \<noteq> None)"
proof -
  obtain m cl where t: "(info_step (demo_env ''manual'' [''go vet'']) () demo_driver)\<^sup>*\<^sup>* (fan_start demo_clients []) (Live [Ended, Ended] 2 m cl)"
    "stuck (info_step (demo_env ''manual'' [''go vet'']) () demo_driver) (Live [Ended, Ended] 2 m cl)"
    "getAllServiceInfo (demo_env ''manual'' [''go vet'']) demo_driver = Ret m"
    using info_demo [OF demo_clients_ok(1)] by blast
  obtain n where n: "(info_step (demo_env ''manual'' [''go vet'']) () demo_driver ^^ n) (fan_start demo_clients []) (Live [Ended, Ended] 2 m cl)"
    using rtranclp_imp_relpowp [OF t(1)] by blast
  show ?thesis
    using getAllServiceInfo_concurrent [OF demo_clients_ok(1) n] t(2,3) n
    by (intro exI [of _ n] exI [of _ m] exI [of _ cl]) (simp add: locations_demo)
qed

text \<open>With a cache that is still empty the process can end while it asks the analyzers what they offer: the
  first goroutine stores its client while the second looks for its own.\<close>

theorem getAllServiceInfo_race:
  assumes "AnalyzerLocations sd = a # b # rest" "map_of clients a = None"
  shows "(info_step env net sd)\<^sup>*\<^sup>* (fan_start clients []) Raced"
  unfolding info_step_def using assms by (intro fan_race) simp_all

theorem getAllServiceInfo_race_witness:
  "(info_step (demo_env ''manual'' [''go vet'']) () demo_driver)\<^sup>*\<^sup>* (fan_start [] []) Raced"
  by (rule getAllServiceInfo_race [OF locations_demo]) simp

lemma analyze_fanout:
  assumes "hosts_ok clients" "(analyze_step env net sd desiredCats contxt stage ^^ n) (fan_start clients []) s"
  defines "calls \<equiv> analyzer_calls env sd desiredCats contxt stage"
  defines "finished \<equiv> Live (replicate (length calls) Ended) (length calls) (callAllAnalyzers env sd desiredCats contxt stage)"
  shows "n \<le> 7 * length calls + 1"
    and "s \<noteq> Raced \<Longrightarrow> \<exists>cl. (analyze_step env net sd desiredCats contxt stage)\<^sup>*\<^sup>* s (finished cl)"
    and "stuck (analyze_step env net sd desiredCats contxt stage) s \<Longrightarrow> s = Raced \<or> (\<exists>cl. s = finished cl)"
    and "s = Raced \<Longrightarrow> length calls \<ge> 2 \<and> uncached fst calls clients"
proof -
  let ?F = "\<lambda>(a, req). Ret (callAnalyze env a req)" and ?g = "\<lambda>ar ars. ars @ [filterResults contxt ar]"
  note s = fan_schedule [OF leads_analyze assms(1) assms(2) [unfolded analyze_step_def],
    folded analyze_step_def, folded calls_def]
  have e: "\<exists>cl. t = finished cl" if "fan_end fst ?F ?g calls clients [] t" for t
    using that unfolding calls_def callAllAnalyzers_end finished_def by (elim exE conjE) (rule exI)
  show "\<exists>cl. (analyze_step env net sd desiredCats contxt stage)\<^sup>*\<^sup>* s (finished cl)" if calm: "s \<noteq> Raced"
  proof -
    obtain t where t: "(analyze_step env net sd desiredCats contxt stage)\<^sup>*\<^sup>* s t" "fan_end fst ?F ?g calls clients [] t"
      using s(2) [OF calm] by (elim exE conjE)
    obtain cl where "t = finished cl" using e [OF t(2)] by (elim exE)
    then show ?thesis using t(1) by (intro exI [of _ cl]) simp
  qed
  show "s = Raced \<or> (\<exists>cl. s = finished cl)" if "stuck (analyze_step env net sd desiredCats contxt stage) s"
    using s(3) [OF that] e by (elim disjE) simp_all
  show "n \<le> 7 * length calls + 1" "s = Raced \<Longrightarrow> length calls \<ge> 2 \<and> uncached fst calls clients"
    by (rule s(1), rule s(4))
qed

text \<open>C10: from every state \<open>callAllAnalyzers\<close> can get into, unless the Go runtime has stopped the
  process, it can finish with the responses of the sequential reading, in the order of the calls, with
  no goroutine left; no schedule is longer than seven steps per call, and it can stop nowhere else but
  in a race on the cache of clients, which takes two calls at least, one of them to an address without a
  client when the fan-out began.\<close>

theorem callAllAnalyzers_delivers:
  assumes "hosts_ok clients" "(analyze_step env net sd desiredCats contxt stage ^^ n) (fan_start clients []) s"
  defines "calls \<equiv> analyzer_calls env sd desiredCats contxt stage"
  defines "finished \<equiv> Live (replicate (length calls) Ended) (length calls) (callAllAnalyzers env sd desiredCats contxt stage)"
  shows "n \<le> 7 * length calls + 1
    \<and> (s \<noteq> Raced \<longrightarrow> (\<exists>cl. (analyze_step env net sd desiredCats contxt stage)\<^sup>*\<^sup>* s (finished cl)))
    \<and> (stuck (analyze_step env net sd desiredCats contxt stage) s \<longrightarrow> s = Raced \<or> (\<exists>cl. s = finished cl))
    \<and> (s = Raced \<longrightarrow> length calls \<ge> 2 \<and> (\<exists>(analyzer, req) \<in> set calls. map_of clients analyzer = None))"
  using analyze_fanout [OF assms(1,2)] unfolding calls_def finished_def uncached_def by (simp add: case_prod_unfold)

text \<open>Two analyzers, the first without a client yet; the second one answers first.\<close>

definition pair_driver :: ShipshapeDriver where
  "pair_driver = NewTestDriver
     [\<lparr>si_analyzer = ''a:1'', si_categories = New [''go vet''], si_stage = Stage_PRE_BUILD\<rparr>,
      \<lparr>si_analyzer = ''b:2'', si_categories = New [''go vet''], si_stage = Stage_PRE_BUILD\<rparr>]"

definition pair_clients :: "unit httpTransport go_map" where
  "pair_clients = [(''b:2'', NewHTTPClient ''b:2'' ())]"

lemma hosts_ok_pair: "hosts_ok pair_clients"
  by (simp add: hosts_ok_def pair_clients_def NewHTTPClient_def)

definition pair_calls :: "(string \<times> AnalyzeRequest) list" where
  "pair_calls = analyzer_calls (demo_env ''manual'' []) pair_driver (New [''go vet'']) demo_context Stage_PRE_BUILD"

lemma pair_calls_hosts: "map fst pair_calls = [''a:1'', ''b:2'']"
  by code_simp

theorem callAllAnalyzers_delivers_witness:
  "\<exists>r cl. (analyze_step (demo_env ''manual'' []) () pair_driver (New [''go vet'']) demo_context Stage_PRE_BUILD ^^ 4)
       (fan_start pair_clients []) (Live [Looking, Sending r] 0 [] pair_clients)
   \<and> (analyze_step (demo_env ''manual'' []) () pair_driver (New [''go vet'']) demo_context Stage_PRE_BUILD)\<^sup>*\<^sup>*
       (Live [Looking, Sending r] 0 [] pair_clients) (Live [Ended, Ended] 2
         (callAllAnalyzers (demo_env ''manual'' []) pair_driver (New [''go vet'']) demo_context Stage_PRE_BUILD) cl)"
proof -
  let ?s = "analyze_step (demo_env ''manual'' []) () pair_driver (New [''go vet'']) demo_context Stage_PRE_BUILD"
  let ?c = "NewHTTPClient ''b:2'' ()" and ?f = "\<lambda>c (a, req). Ret (callAnalyze (through c (demo_env ''manual'' [])) a req)"
  let ?g = "\<lambda>ar ars. ars @ [filterResults demo_context ar]"
  let ?r = "callAnalyze (through ?c (demo_env ''manual'' [])) (fst (pair_calls ! 1)) (snd (pair_calls ! 1))"
  have two: "length pair_calls = 2"
    using arg_cong [OF pair_calls_hosts, of length] by (simp only: length_map) simp
  have host: "fst (pair_calls ! 1) = ''b:2''"
    using arg_cong [OF pair_calls_hosts, of "\<lambda>as. as ! 1"] two by simp
  have "?s (fan_start pair_clients []) (Live [Looking] 0 [] pair_clients)"
    using fan_step.spawn [of "[]" pair_calls fst "()" ?f ?g 0 "[]" pair_clients] two
    by (fastforce simp: analyze_step_def fan_start_def pair_calls_def)
  moreover have "?s (Live [Looking] 0 [] pair_clients) (Live [Looking, Looking] 0 [] pair_clients)"
    using fan_step.spawn [of "[Looking]" pair_calls fst "()" ?f ?g 0 "[]" pair_clients] two
    by (simp add: analyze_step_def pair_calls_def)
  moreover have "?s (Live [Looking, Looking] 0 [] pair_clients) (Live [Looking, Computing ?c] 0 [] pair_clients)"
    using fan_step.hit [of 1 "[Looking, Looking]" pair_clients fst pair_calls ?c "()" ?f ?g 0 "[]"] host
    by (simp add: analyze_step_def pair_calls_def pair_clients_def writing_def)
  moreover have "?s (Live [Looking, Computing ?c] 0 [] pair_clients) (Live [Looking, Sending ?r] 0 [] pair_clients)"
    using fan_step.answer [of 1 "[Looking, Computing ?c]" ?c ?f pair_calls ?r fst "()" ?g 0 "[]" pair_clients]
    by (simp add: analyze_step_def pair_calls_def case_prod_unfold)
  ultimately have run: "(?s ^^ 4) (fan_start pair_clients []) (Live [Looking, Sending ?r] 0 [] pair_clients)"
    by (auto simp: eval_nat_numeral relcompp_apply)
  have len: "length (analyzer_calls (demo_env ''manual'' []) pair_driver (New [''go vet'']) demo_context Stage_PRE_BUILD) = 2"
    using two by (simp add: pair_calls_def)
  show ?thesis
    using callAllAnalyzers_delivers [OF hosts_ok_pair run] run unfolding len
    by (intro exI [of _ ?r]) (simp add: numeral_2_eq_2)
qed

subsection \<open>The two fan-outs of one run\<close>

text \<open>The analyzers a run calls are among those it has asked before.\<close>

lemma calls_cached:
  assumes "getAllServiceInfo env sd = Ret infos" "driver_orders env"
    and "\<forall>a \<in> set (AnalyzerLocations sd). map_of cl a \<noteq> None"
  shows "\<not> uncached fst (analyzer_calls env (sd\<lparr>serviceMap := infos\<rparr>) desired contxt stage) cl"
  using analyzer_calls_iff [OF assms(1,2)] assms(3) by (auto simp: uncached_def)

text \<open>C23: once the first fan-out of a run has delivered its map, the second cannot be stopped by a race: the
  analyzers it calls all have clients by then.  Whatever the schedules of the two, the map is the one of
  the sequential reading, and every schedule of \<open>callAllAnalyzers\<close> can be completed, is bounded,
  and stops only with all its responses delivered.  (Nothing else of the process may write to the
  cache meanwhile: another run of the same service would.)\<close>

theorem second_fanout_never_races:
  assumes "hosts_ok clients" "driver_orders env"
    and "(info_step env net sd)\<^sup>*\<^sup>* (fan_start clients []) (Live ws k infos cl)"
    and "stuck (info_step env net sd) (Live ws k infos cl)"
    and "(analyze_step env net (sd\<lparr>serviceMap := infos\<rparr>) desiredCats contxt stage ^^ n) (fan_start cl []) s"
  defines "calls \<equiv> analyzer_calls env (sd\<lparr>serviceMap := infos\<rparr>) desiredCats contxt stage"
  defines "responses \<equiv> callAllAnalyzers env (sd\<lparr>serviceMap := infos\<rparr>) desiredCats contxt stage"
  shows "getAllServiceInfo env sd = Ret infos \<and> s \<noteq> Raced \<and> n \<le> 7 * length calls + 1
    \<and> (\<exists>cl'. (analyze_step env net (sd\<lparr>serviceMap := infos\<rparr>) desiredCats contxt stage)\<^sup>*\<^sup>* s
          (Live (replicate (length calls) Ended) (length calls) responses cl'))
    \<and> (stuck (analyze_step env net (sd\<lparr>serviceMap := infos\<rparr>) desiredCats contxt stage) s
        \<longrightarrow> (\<exists>cl'. s = Live (replicate (length calls) Ended) (length calls) responses cl'))"
proof -
  obtain m where "(info_step env net sd ^^ m) (fan_start clients []) (Live ws k infos cl)"
    using rtranclp_imp_relpowp [OF assms(3)] by blast
  note i = fan_schedule [OF leads_info assms(1) this [unfolded info_step_def], folded info_step_def]
  have g: "getAllServiceInfo env sd = Ret infos" "hosts_ok cl" "\<forall>a \<in> set (AnalyzerLocations sd). map_of cl a \<noteq> None"
    using getAllServiceInfo_end [of env sd clients "Live ws k infos cl"] i(3) [OF assms(4)]
    by (cases "getAllServiceInfo env sd"; auto simp: cache_ok_def uncached_def)+
  have never: "s \<noteq> Raced"
    using analyze_fanout(4) [OF g(2) assms(5)] calls_cached [OF g(1) assms(2) g(3)] by blast
  show ?thesis
    using analyze_fanout(1-3) [OF g(2) assms(5)] never g(1) unfolding calls_def responses_def by simp
qed

theorem second_fanout_never_races_witness:
  "\<exists>infos cl cl'. (info_step (demo_env ''manual'' [''go vet'']) () demo_driver)\<^sup>*\<^sup>* (fan_start [] [])
       (Live [Ended, Ended] 2 infos cl)
     \<and> (let calls = analyzer_calls (demo_env ''manual'' [''go vet'']) (demo_driver\<lparr>serviceMap := infos\<rparr>)
              (New [''go vet'']) demo_context Stage_PRE_BUILD;
            responses = callAllAnalyzers (demo_env ''manual'' [''go vet'']) (demo_driver\<lparr>serviceMap := infos\<rparr>)
              (New [''go vet'']) demo_context Stage_PRE_BUILD
        in (analyze_step (demo_env ''manual'' [''go vet'']) () (demo_driver\<lparr>serviceMap := infos\<rparr>)
              (New [''go vet'']) demo_context Stage_PRE_BUILD)\<^sup>*\<^sup>* (fan_start cl [])
              (Live (replicate (length calls) Ended) (length calls) responses cl'))"
proof -
  have "hosts_ok ([] :: unit httpTransport go_map)" by (simp add: hosts_ok_def)
  then obtain infos cl where t: "(info_step (demo_env ''manual'' [''go vet'']) () demo_driver)\<^sup>*\<^sup>* (fan_start [] []) (Live [Ended, Ended] 2 infos cl)"
    "stuck (info_step (demo_env ''manual'' [''go vet'']) () demo_driver) (Live [Ended, Ended] 2 infos cl)" "hosts_ok ([] :: unit httpTransport go_map)"
    using info_demo [of "[]" "()"] by blast
  have z: "(analyze_step (demo_env ''manual'' [''go vet'']) () (demo_driver\<lparr>serviceMap := infos\<rparr>) (New [''go vet'']) demo_context
    Stage_PRE_BUILD ^^ 0) (fan_start cl []) (fan_start cl [])" by simp
  show ?thesis
    using second_fanout_never_races [OF t(3) driver_orders_demo t(1,2) z] t(1)
    unfolding Let_def by blast
qed

end
