(* ===== verification/ClientBodies.thy ===== *)
theory ClientBodies
  imports Client
begin

text \<open>
  The rest of \<open>shipshape/util/rpc/client/client.go\<close>: \<open>WriteStream\<close>, which copies a response
  without decoding it, and the closing of response bodies.
\<close>

subsection \<open>Closing\<close>

text \<open>What is left of a body is read to its end, with the errors of that ignored, and the body is
  closed.  Reading a body whose reader is nil panics.\<close>

definition discardAndClose ::
  "(contents \<Rightarrow> string option) \<Rightarrow> (contents \<Rightarrow> string option) \<Rightarrow> body_reader \<Rightarrow> string option go" where
  "discardAndClose codec_close close r =
     go_bind (read_body r) (\<lambda>_. go_bind (Close_body codec_close close r) (\<lambda>err.
       Ret (case err of
           Some e \<Rightarrow> Some (''error closing rpc/client response body: '' @ e)
         | None \<Rightarrow> None)))"

text \<open>\<open>Reader.Close\<close>, on the body of the reader, which is nil when the request failed.\<close>

definition Reader_Close ::
  "(contents \<Rightarrow> string option) \<Rightarrow> (contents \<Rightarrow> string option) \<Rightarrow> body_reader option \<Rightarrow> string option go" where
  "Reader_Close codec_close close resp =
     (case resp of None \<Rightarrow> Ret None | Some r \<Rightarrow> discardAndClose codec_close close r)"

subsection \<open>Copying\<close>

text \<open>
  An \<open>io.Writer\<close> says how many bytes it took and its error.  \<open>io.Copy\<close> reads the source in pieces, of
  sizes that depend on the source (\<open>pieces\<close>), writes each, and stops at the first error.
\<close>

type_synonym 'o writer = "string \<Rightarrow> 'o \<Rightarrow> (nat \<times> string option) \<times> 'o"

fun copy_pieces :: "'o writer \<Rightarrow> string list \<Rightarrow> 'o \<Rightarrow> string option \<times> 'o" where
  "copy_pieces wr [] o1 = (None, o1)"
| "copy_pieces wr (b # bs) o1 =
     (case wr b o1 of
        ((n, Some err), o2) \<Rightarrow> (Some err, o2)
      | ((n, None), o2) \<Rightarrow> if n \<noteq> length b then (Some ''short write'', o2) else copy_pieces wr bs o2)"

definition Copy :: "(string \<Rightarrow> string list) \<Rightarrow> 'o writer \<Rightarrow> contents \<Rightarrow> 'o \<Rightarrow> string option \<times> 'o" where
  "Copy pieces wr b o1 =
     (case copy_pieces wr (pieces (fst b)) o1 of
        (Some err, o2) \<Rightarrow> (Some err, o2)
      | (None, o2) \<Rightarrow> (snd b, o2))"

text \<open>\<open>WriteStream\<close>: its error, what the writer took, and the transport.  The deferred
  \<open>logDiscardAndClose\<close> only logs.\<close>

definition WriteStream ::
  "'n network \<Rightarrow> (string \<Rightarrow> string list) \<Rightarrow> 'o writer \<Rightarrow> string \<Rightarrow> string + json \<Rightarrow> 'o \<Rightarrow> 'n httpTransport
     \<Rightarrow> (string option \<times> 'o) go \<times> 'n httpTransport" where
  "WriteStream nw pieces wr serviceMethod params o1 c =
     (case send_http nw Version2Streaming serviceMethod params c of
        (Inl err, c1) \<Rightarrow> (Ret (Some err, o1), c1)
      | (Inr resp, c1) \<Rightarrow> (go_bind (read_body resp) (\<lambda>b. Ret (Copy pieces wr b o1)), c1))"

subsection \<open>What is copied\<close>

text \<open>A writer that takes all it is given, and shows it in what \<open>out\<close> reads of it.\<close>

definition takes_all :: "'o writer \<Rightarrow> ('o \<Rightarrow> string) \<Rightarrow> bool" where
  "takes_all wr out \<longleftrightarrow>
     (\<forall>b o1. fst (wr b o1) = (length b, None) \<and> out (snd (wr b o1)) = out o1 @ b)"

lemma takes_all_wr:
  assumes "takes_all wr out"
  obtains o2 where "wr b o1 = ((length b, None), o2)" "out o2 = out o1 @ b"
  using assms by (metis takes_all_def prod.collapse)

lemma copy_pieces_all:
  assumes "takes_all wr out"
  shows "\<exists>o2. copy_pieces wr bs o1 = (None, o2) \<and> out o2 = out o1 @ concat bs"
proof (induction bs arbitrary: o1)
  case (Cons b bs)
  obtain o2 where o2: "wr b o1 = ((length b, None), o2)" "out o2 = out o1 @ b"
    using takes_all_wr [OF assms] .
  with Cons.IH [of o2] show ?case by auto
qed simp

text \<open>Whatever the writer does, when no error is reported every byte went into it, piece by piece.\<close>

lemma Copy_all:
  assumes "takes_all wr out" "concat (pieces (fst b)) = fst b"
  shows "\<exists>o2. Copy pieces wr b o1 = (snd b, o2) \<and> out o2 = out o1 @ fst b"
  using copy_pieces_all [OF assms(1), of "pieces (fst b)" o1] assms(2) by (auto simp: Copy_def)

text \<open>Copying a streaming response loses nothing: for a writer that takes all it is given,
  \<open>WriteStream\<close> reports exactly the errors \<open>Stream\<close> meets, and when it reports none, the bytes it wrote
  are those the reader of \<open>Stream\<close> decodes.\<close>

theorem WriteStream_Stream:
  assumes "takes_all wr out" "\<And>b. concat (pieces b) = b"
    and "Stream (http_transport nw) path params c = (rd, c1)"
  shows "case rd_err rd of
      Some e \<Rightarrow> \<exists>err. e = Local err \<and> WriteStream nw pieces wr path params o1 c = (Ret (Some err, o1), c1)
    | None \<Rightarrow> (\<exists>b err o2. WriteStream nw pieces wr path params o1 c = (Ret (err, o2), c1)
          \<and> out o2 = out o1 @ b \<and> rd_dec rd = Ret (decoded (b, err)))
        \<or> panics (rd_dec rd) \<and> panics (fst (WriteStream nw pieces wr path params o1 c))"
proof -
  obtain res c2 where send: "send_http nw Version2Streaming path params c = (res, c2)" by fastforce
  show ?thesis
  proof (cases res)
    case (Inl err)
    then show ?thesis
      using assms(3) send by (auto simp: Stream_def WriteStream_def http_transport_def httpTransport_SendRequest_def)
  next
    case (Inr body)
    then have rd: "rd = \<lparr>rd_dec = body_values body, rd_err = None\<rparr>" "c2 = c1"
      using assms(3) send by (auto simp: Stream_def http_transport_def httpTransport_SendRequest_def)
    have ws: "WriteStream nw pieces wr path params o1 c = (go_bind (read_body body) (\<lambda>b. Ret (Copy pieces wr b o1)), c1)"
      using send Inr rd(2) by (simp add: WriteStream_def)
    show ?thesis
    proof (cases "read_body body")
      case (Ret b)
      obtain o2 where "Copy pieces wr b o1 = (snd b, o2)" "out o2 = out o1 @ fst b"
        using Copy_all [OF assms(1), of pieces b o1] assms(2) by blast
      moreover have "rd_dec rd = Ret (decoded (fst b, snd b))" using rd(1) Ret by (simp add: body_values_def)
      ultimately show ?thesis using ws rd(1) Ret by auto
    qed (simp add: rd(1) ws body_values_def)
  qed
qed

definition text_writer :: "string writer" where
  "text_writer b o1 = ((length b, None), o1 @ b)"

definition echo_network :: "unit network" where
  "echo_network = \<lparr>nw_Do = (\<lambda>host req w. (Inr \<lparr>hp_status = 200, hp_header = [(''Content-Encoding'', ''gzip'')],
     hp_body = (''g{}'', None)\<rparr>, w)), nw_codecs = plain_codecs\<rparr>"

theorem WriteStream_Stream_witness:
  "\<exists>err o2 c1. WriteStream echo_network (map (\<lambda>x. [x])) text_writer ''/EchoService/Echo'' (Inr JNull) [] (NewHTTPClient ''localhost:1'' ())
     = (Ret (err, o2), c1) \<and> decoded (o2, err) = [Value (JObj [])]"
proof -
  let ?c = "NewHTTPClient ''localhost:1'' ()"
  have "takes_all text_writer (\<lambda>o1. o1)" by (simp add: takes_all_def text_writer_def)
  moreover have "concat (map (\<lambda>x. [x]) b) = b" for b :: string by (induction b) simp_all
  moreover obtain rd c1 where s: "Stream (http_transport echo_network) ''/EchoService/Echo'' (Inr JNull) ?c = (rd, c1)"
    by fastforce
  moreover have "rd = \<lparr>rd_dec = Ret (decoded (''{}'', None)), rd_err = None\<rparr>"
    using s by (auto simp: Stream_def http_transport_def httpTransport_SendRequest_def send_http_def encodeRequest_def
        NewHTTPClient_def echo_network_def UncompressData_def Map_Get_def plain_codecs_def body_values_def read_body_def Let_def)
  moreover have "decoded (''{}'', None) = [Value (JObj [])]" using decoded_object [of "[]"] by simp
  ultimately show ?thesis
    using WriteStream_Stream [of text_writer "\<lambda>o1. o1" "map (\<lambda>x. [x])" echo_network "''/EchoService/Echo''" "Inr JNull" ?c rd c1 "[]"]
    by (auto simp: panics_def)
qed

text \<open>Closing a reader of a failed request is harmless, and closing panics only on a body
  whose reading panics.\<close>

lemma Reader_Close_panics:
  "panics (Reader_Close codec_close close resp) \<longleftrightarrow> (\<exists>r. resp = Some r \<and> panics (read_body r))"
  by (auto simp: Reader_Close_def discardAndClose_def Close_body_def decodedReader_Close_def read_body_def
      deref_def panics_def split: option.splits body_reader.splits)

end
