(* ===== verification/TestClient.thy ===== *)
theory TestClient
  imports Cli FileUtil
begin

text \<open>
  \<open>shipshape/test/test_shipshape_client.go\<close>: a program that builds one request from its flags, sends it
  to a service and logs every response.

  What it logs of the responses is the list of them; a program that ends by \<open>log.Fatal\<close> has the text
  as the second component.  The file system and the network are two views of one world.
\<close>

record client_flags =
  cf_servicePort :: string
  cf_filePaths :: string
  cf_projectName :: string
  cf_hash :: string
  cf_categories :: string
  cf_repoKind :: string
  cf_repoBase :: string
  cf_volumeName :: string
  cf_event :: string
  cf_stage :: string

definition cloudRepo :: string where "cloudRepo = ''CLOUD''"
definition local_repo :: string where "local_repo = ''LOCAL''"

subsection \<open>The request\<close>

definition client_root ::
  "'w os \<Rightarrow> (string \<Rightarrow> string + string) \<Rightarrow> client_flags \<Rightarrow> 'w
     \<Rightarrow> ((string + SourceContext option \<times> string) \<times> 'w) go" where
  "client_root os json fl w =
     (if cf_repoKind fl = cloudRepo then
        go_bind (SetupCloudRepo os json (cf_projectName fl) (cf_hash fl) (cf_repoBase fl) (cf_volumeName fl) w)
          (\<lambda>((sourceContext, root, err), w1). Ret (case err of
              Some e \<Rightarrow> Inl (''Failed to setup Cloud repo: '' @ e)
            | None \<Rightarrow> Inr (sourceContext, root), w1))
      else if cf_repoKind fl = local_repo then
        Ret (if cf_repoBase fl = ''/tmp'' then Inl ''Must specify the repo_base for local runs''
             else Inr (None, cf_repoBase fl), w)
      else Ret (Inl (''Invalid repo kind '' @ Quote (cf_repoKind fl)), w))"

text \<open>A comma-separated flag, empty when the flag is.\<close>

definition flag_list :: "string \<Rightarrow> string list" where
  "flag_list v = (if v \<noteq> [] then Split v '','' else [])"

definition stage_flag :: "string \<Rightarrow> string + Stage" where
  "stage_flag v =
     (if v = ''POST_BUILD'' then Inr Stage_POST_BUILD
      else if v = ''PRE_BUILD'' then Inr Stage_PRE_BUILD
      else Inl (''Invalid stage '' @ Quote v))"

definition client_message ::
  "client_flags \<Rightarrow> SourceContext option \<Rightarrow> string \<Rightarrow> Stage \<Rightarrow> ShipshapeRequest" where
  "client_message fl sourceContext root stage =
     \<lparr>sreq_context = Some (empty_context\<lparr>ctx_file_path := flag_list (cf_filePaths fl),
        ctx_source_context := sourceContext, ctx_repo_root := Some root\<rparr>),
      sreq_triggered_category = flag_list (cf_categories fl), sreq_event = Some (cf_event fl),
      sreq_stage = Some stage\<rparr>"

subsection \<open>The responses\<close>

function log_responses ::
  "(json \<Rightarrow> string + ShipshapeResponse) \<Rightarrow> ShipshapeResponse list \<Rightarrow> Reader
     \<Rightarrow> (ShipshapeResponse list \<times> string option) go" where
  "log_responses unm logged rd =
     (case NextResult unm rd of
        Panic m \<Rightarrow> Panic m
      | Ret ((v, Some err), rd1) \<Rightarrow>
          Ret (logged, if err = Client.EOF then None else Some (''Error from call: '' @ client_error_text err))
      | Ret ((v, None), rd1) \<Rightarrow>
          log_responses unm (logged @ [case v of None \<Rightarrow> \<lparr>sresp_analyze_response = []\<rparr> | Some msg \<Rightarrow> msg]) rd1)"
  by pat_completeness auto
termination
  by (relation "measure (\<lambda>(unm, logged, rd). stream_left rd)") (auto dest: NextResult_consumes)

declare log_responses.simps [simp del]

definition test_client_main ::
  "'w os \<Rightarrow> (string \<Rightarrow> string + string) \<Rightarrow> 'w network \<Rightarrow> (ShipshapeRequest \<Rightarrow> string + json)
     \<Rightarrow> (json \<Rightarrow> string + ShipshapeResponse) \<Rightarrow> client_flags \<Rightarrow> 'w
     \<Rightarrow> ((ShipshapeResponse list \<times> string option) \<times> 'w) go" where
  "test_client_main os json nw enc unm fl w =
     go_bind (client_root os json fl w) (\<lambda>(root, w1).
       case root of
         Inl err \<Rightarrow> Ret (([], Some err), w1)
       | Inr (sourceContext, root) \<Rightarrow> (case stage_flag (cf_stage fl) of
           Inl err \<Rightarrow> Ret (([], Some err), w1)
         | Inr stage \<Rightarrow>
             (case Stream (http_transport nw) ''/ShipshapeService/Run''
                 (enc (client_message fl sourceContext root stage)) (NewHTTPClient (cf_servicePort fl) w1) of
                (rd, c) \<Rightarrow> go_bind (log_responses unm [] rd) (\<lambda>r. Ret (r, ht_net c)))))"

subsection \<open>Against a service\<close>

lemma log_responses_end:
  assumes "rq_version req = Version2Streaming" "code_in_range er"
  shows "log_responses unm logged \<lparr>rd_dec = Ret [Value (encode_response (stamp req
        (if fine then success_response else error_response er)))], rd_err = None\<rparr>
    = Ret (logged, if fine then None else Some (''Error from call: '' @ Error_Error er))"
  using assms by (subst log_responses.simps) (simp add: NextResult_stamped)

lemma log_responses_all:
  assumes "rq_version req = Version2Streaming" "code_in_range er" "\<And>msg. msg \<in> set msgs \<Longrightarrow> unm (enc msg) = Inr msg"
  shows "log_responses unm logged \<lparr>rd_dec = Ret (map (\<lambda>r. Value (encode_response (stamp req r)))
         (map (\<lambda>msg. result_response (enc msg)) msgs @ [if fine then success_response else error_response er])), rd_err = None\<rparr>
    = Ret (logged @ msgs, if fine then None else Some (''Error from call: '' @ Error_Error er))"
  using assms(3)
proof (induction msgs arbitrary: logged)
  case Nil
  then show ?case using log_responses_end [OF assms(1,2)] by simp
next
  case (Cons msg msgs)
  then show ?case using NextResult_decoded [OF assms(1), of unm "enc msg" msg]
    by (subst log_responses.simps) simp
qed

text \<open>The test client logs all that the service answers: for a request the flags describe, the
  responses the service's method sends, in order and decoded, and it ends well exactly when the method
  returns no error, and otherwise with that error.\<close>

theorem test_client_end_to_end:
  assumes "codecs_ok c" "fin_in_range fin"
    and "client_root os json fl w = Ret (Inr (sourceContext, root), w1)" "stage_flag (cf_stage fl) = Inr stage"
    and "encode (client_message fl sourceContext root stage) = Inr j"
    and "reaches e (client_request Version2Streaming 0 ''/ShipshapeService/Run'' j) m" "m_Stream m"
    and "run_method m client_header (Some j) w1 = (map enc msgs, fin, w2)"
    and "\<And>msg. msg \<in> set msgs \<Longrightarrow> unm (enc msg) = Inr msg"
  shows "test_client_main os json (server_network e text_of c) encode unm fl w
    = Ret ((msgs, if fin = Returns None then None else Some (''Error from call: '' @ Error_Error (end_error fin))), w2)"
proof -
  let ?t = "NewHTTPClient (cf_servicePort fl) w1"
  have t: "ht_id ?t = 0" "ht_net ?t = w1" by (simp_all add: NewHTTPClient_def)
  let ?req = "client_request Version2Streaming 0 ''/ShipshapeService/Run'' j"
  have v: "rq_version ?req = Version2Streaming" by (simp add: client_request_def)
  have cr: "code_in_range (end_error fin)" using assms(2) by (simp add: fin_in_range_def)
  have a: "method_answer Version2Streaming True (map enc msgs) fin = map (\<lambda>msg. result_response (enc msg)) msgs
      @ [if fin = Returns None then success_response else error_response (end_error fin)]"
    by (simp add: method_answer_def comp_def)
  have "SendRequest (http_transport (server_network e text_of c)) Version2Streaming ''/ShipshapeService/Run'' (Inr j) ?t
      = (Inr (Ret (map (\<lambda>r. Value (encode_response (stamp ?req r)))
          (method_answer Version2Streaming True (map enc msgs) fin))), ?t\<lparr>ht_id := ht_id ?t + 1, ht_net := w2\<rparr>)"
    using SendRequest_server [OF assms(1), of e Version2Streaming ?t "''/ShipshapeService/Run''" j m "map enc msgs" fin w2 text_of]
      assms(2,6-8) t by (simp add: fin_in_range_def)
  then have "Stream (http_transport (server_network e text_of c)) ''/ShipshapeService/Run'' (Inr j) ?t
      = (\<lparr>rd_dec = Ret (map (\<lambda>r. Value (encode_response (stamp ?req r)))
           (method_answer Version2Streaming True (map enc msgs) fin)), rd_err = None\<rparr>, ?t\<lparr>ht_id := ht_id ?t + 1, ht_net := w2\<rparr>)"
    by (simp add: Stream_def)
  then show ?thesis
    using log_responses_all [OF v cr, of msgs unm enc "[]" "fin = Returns None"] assms(9)
    by (simp add: test_client_main_def assms(3-5) a)
qed

text \<open>A service whose method sends two empty responses and then fails.\<close>

definition run_impl :: "(json, string) Method" where
  "run_impl = \<lparr>m_Name = ''Run'', m_Params = [], m_Stream = True, m_zero = JNull,
     m_unmarshal = Inr, m_results = 1,
     m_call = (\<lambda>ctx i w. ((i, Returns None), w)),
     m_callStream = (\<lambda>ctx i w. (([JObj [], JObj []], Panics (PanicOther ''boom'')), w))\<rparr>"

definition run_endpoint :: "(json, string) Endpoint" where
  "run_endpoint = [\<lparr>s_Name = ''ShipshapeService'', s_Methods = [run_impl]\<rparr>]"

definition local_flags :: client_flags where
  "local_flags = \<lparr>cf_servicePort = ''localhost:10007'', cf_filePaths = ''a.go,b.go'', cf_projectName = [],
     cf_hash = [], cf_categories = [], cf_repoKind = ''LOCAL'', cf_repoBase = ''/src'', cf_volumeName = [],
     cf_event = ''manual'', cf_stage = ''PRE_BUILD''\<rparr>"

definition no_responses :: ShipshapeResponse where
  "no_responses = \<lparr>sresp_analyze_response = []\<rparr>"

theorem test_client_end_to_end_witness:
  "test_client_main plain_os Inr (server_network run_endpoint (\<lambda>r. []) plain_codecs)
      (\<lambda>msg. Inr (JObj [])) (\<lambda>j. Inr no_responses) local_flags ''/home''
   = Ret (([no_responses, no_responses], Some ''Error from call: boom''), ''/home'')"
proof -
  let ?fin = "Panics (PanicOther ''boom'')"
  have "fin_in_range ?fin"
    by (simp add: fin_in_range_def end_error_def code_in_range_def ErrorInternal_def)
  moreover have "client_root plain_os Inr local_flags ''/home'' = Ret (Inr (None, ''/src''), ''/home'')"
    by (simp add: client_root_def local_flags_def cloudRepo_def local_repo_def)
  moreover have "stage_flag (cf_stage local_flags) = Inr Stage_PRE_BUILD"
    by (simp add: stage_flag_def local_flags_def)
  moreover have "reaches run_endpoint (client_request Version2Streaming 0 ''/ShipshapeService/Run'' (JObj [])) run_impl"
    by (auto simp: reaches_def client_request_def valid_id_def parseServiceMethod_def Trim_def trim_by_def
      SplitN2_def serverInfoService_def Resolve_def run_endpoint_def Service_Method_def run_impl_def)
  moreover have "m_Stream run_impl" by (simp add: run_impl_def)
  moreover have "run_method run_impl client_header (Some (JObj [])) ''/home''
      = (map (\<lambda>msg. JObj []) [no_responses, no_responses], ?fin, ''/home'')"
    by (simp add: run_method_def Invoke_def decode_input_def run_impl_def)
  moreover have "Error_Error (end_error ?fin) = ''boom''" by code_simp
  ultimately show ?thesis
    using test_client_end_to_end [OF codecs_ok_plain, of ?fin plain_os Inr local_flags "''/home''" None "''/src''"
        "''/home''" Stage_PRE_BUILD "\<lambda>msg. Inr (JObj [])" "JObj []" run_endpoint run_impl "\<lambda>msg. JObj []"
        "[no_responses, no_responses]" "''/home''" "\<lambda>j. Inr no_responses" "\<lambda>r. []"]
    by (simp add: no_responses_def)
qed

end
