(* ===== verification/Testmain.thy ===== *)
theory Testmain
  imports Osys
begin

text \<open>
  \<open>tools/go/testmain_generator.go\<close>: the build tool that reads the test files of a package and
  writes the \<open>main\<close> function that runs their tests.

  Go's parser, \<open>doc.Examples\<close> and \<open>filepath.Rel\<close> are parameters: what the tool uses of a parsed file is
  the package name, the declared functions and the examples.  Creating and writing the output change
  the world \<open>'w\<close>.
\<close>

subsection \<open>State\<close>

record testFunc =
  tf_Package :: string
  tf_Name :: string
  tf_Output :: string

record testFuncs =
  Tests :: "testFunc list"
  Benchmarks :: "testFunc list"
  Examples :: "testFunc list"
  ImportFile :: string

text \<open>A declaration of a file: a function, with a receiver or not, or anything else.\<close>

datatype decl = FuncDecl (has_recv: bool) (func_name: string) | OtherDecl

record go_file =
  gf_Name :: string
  gf_Decls :: "decl list"
  gf_Examples :: "(string \<times> string) list"

record scan_error =
  se_Filename :: string
  se_Line :: int
  se_Column :: int
  se_Msg :: string

datatype parse_error = ErrorList "scan_error list" | OtherParseError string

text \<open>\<open>te_lower\<close> is \<open>unicode.IsLower\<close> of the first rune of a name that does not start in ASCII.\<close>

record 'w testmain_env =
  te_os :: "'w os"
  te_cwd :: string
  te_rel :: "string \<Rightarrow> string \<Rightarrow> string + string"
  te_parse :: "string \<Rightarrow> string \<Rightarrow> parse_error + go_file"
  te_lower :: "string \<Rightarrow> bool"
  te_create :: "string \<Rightarrow> 'w \<Rightarrow> string option \<times> 'w"
  te_write :: "string \<Rightarrow> string \<Rightarrow> 'w \<Rightarrow> string option \<times> 'w"

subsection \<open>Tests and errors\<close>

definition IsLower :: "(string \<Rightarrow> bool) \<Rightarrow> string \<Rightarrow> bool" where
  "IsLower lower s = (case s of
     [] \<Rightarrow> False
   | c # _ \<Rightarrow> let n = (of_char c :: nat) in if n < 128 then 97 \<le> n \<and> n \<le> 122 else lower s)"

definition isTest :: "(string \<Rightarrow> bool) \<Rightarrow> string \<Rightarrow> string \<Rightarrow> bool" where
  "isTest lower name prefix =
     (if \<not> HasPrefix name prefix then False
      else if length name = length prefix then True
      else \<not> IsLower lower (drop (length prefix) name))"

definition shortPath :: "'w testmain_env \<Rightarrow> string \<Rightarrow> string" where
  "shortPath env path = (case te_rel env (te_cwd env) path of
     Inr rel \<Rightarrow> if length rel < length path then rel else path | Inl err \<Rightarrow> path)"

text \<open>\<open>Error\<close> of a scanner error: its position, when it has one, and its message.\<close>

definition position_text :: "scan_error \<Rightarrow> string" where
  "position_text e =
     (let s = se_Filename e
            @ (if se_Line e > 0 then (if se_Filename e \<noteq> [] then '':'' else []) @ Itoa (se_Line e) @ '':'' @ Itoa (se_Column e)
               else [])
      in if s = [] then ''-'' else s)"

definition scan_error_text :: "scan_error \<Rightarrow> string" where
  "scan_error_text e =
     (if se_Filename e \<noteq> [] \<or> se_Line e > 0 then position_text e @ '': '' @ se_Msg e else se_Msg e)"

fun expandScanner :: "'w testmain_env \<Rightarrow> parse_error \<Rightarrow> string" where
  "expandScanner env (ErrorList es) =
     concat (map (\<lambda>e. [CHR_nl] @ scan_error_text (e\<lparr>se_Filename := shortPath env (se_Filename e)\<rparr>)) es)"
| "expandScanner env (OtherParseError err) = err"

subsection \<open>Loading a file\<close>

fun load_decls :: "(string \<Rightarrow> bool) \<Rightarrow> string \<Rightarrow> decl list \<Rightarrow> testFuncs \<Rightarrow> testFuncs" where
  "load_decls lower pkg [] t = t"
| "load_decls lower pkg (OtherDecl # ds) t = load_decls lower pkg ds t"
| "load_decls lower pkg (FuncDecl recv name # ds) t =
     load_decls lower pkg ds
       (if recv then t
        else if isTest lower name ''Test''
        then t\<lparr>Tests := Tests t @ [\<lparr>tf_Package = pkg, tf_Name = name, tf_Output = []\<rparr>]\<rparr>
        else if isTest lower name ''Benchmark''
        then t\<lparr>Benchmarks := Benchmarks t @ [\<lparr>tf_Package = pkg, tf_Name = name, tf_Output = []\<rparr>]\<rparr>
        else t)"

fun load_examples :: "string \<Rightarrow> (string \<times> string) list \<Rightarrow> testFuncs \<Rightarrow> testFuncs" where
  "load_examples pkg [] t = t"
| "load_examples pkg ((name, output) # es) t =
     load_examples pkg es
       (if output = [] then t
        else t\<lparr>Examples := Examples t @ [\<lparr>tf_Package = pkg, tf_Name = ''Example'' @ name, tf_Output = output\<rparr>]\<rparr>)"

definition load :: "'w testmain_env \<Rightarrow> string \<Rightarrow> 'w \<Rightarrow> testFuncs \<Rightarrow> string option \<times> testFuncs" where
  "load env filename w t =
     (case read_all (ReadFile (te_os env) filename w) of
        Inl err \<Rightarrow> (Some err, t)
      | Inr content \<Rightarrow> (case te_parse env filename content of
          Inl err \<Rightarrow> (Some (expandScanner env err), t)
        | Inr f \<Rightarrow> (None, load_examples (gf_Name f) (gf_Examples f)
            (load_decls (te_lower env) (gf_Name f) (gf_Decls f) t))))"

fun load_all :: "'w testmain_env \<Rightarrow> string list \<Rightarrow> 'w \<Rightarrow> testFuncs \<Rightarrow> string option \<times> testFuncs" where
  "load_all env [] w t = (None, t)"
| "load_all env (pkgFile # pkgFiles) w t = (case load env pkgFile w t of
     (Some err, t1) \<Rightarrow> (Some err, t1)
   | (None, t1) \<Rightarrow> load_all env pkgFiles w t1)"

subsection \<open>The generated program\<close>

definition tab :: string where "tab = [CHR 0x09]"
definition dquote :: string where "dquote = [CHR 0x22]"

definition unlines :: "string list \<Rightarrow> string" where
  "unlines ls = concat (map (\<lambda>l. l @ [CHR_nl]) ls)"

text \<open>One entry of the tests or benchmarks, and one of the examples, as lines.\<close>

definition test_entry :: "testFunc \<Rightarrow> string list" where
  "test_entry t = [[], tab @ ''{'' @ dquote @ tf_Name t @ dquote @ '', _test.'' @ tf_Name t @ ''},'']"

definition example_entry :: "testFunc \<Rightarrow> string list" where
  "example_entry t = [[], tab @ ''{'' @ dquote @ tf_Name t @ dquote @ '', _test.'' @ tf_Name t @ '', ''
     @ Quote (tf_Output t) @ ''},'']"

definition testmain_head :: "string \<Rightarrow> string list" where
  "testmain_head importFile =
     [[], ''package main'', [], ''import ('', tab @ dquote @ ''regexp'' @ dquote, tab @ dquote @ ''testing'' @ dquote, [],
      tab @ ''_test '' @ Quote importFile, '')'', [], ''var tests = []testing.InternalTest{'']"

definition testmain_benchmarks :: "string list" where
  "testmain_benchmarks = [[], ''}'', [], ''var benchmarks = []testing.InternalBenchmark{'']"

definition testmain_examples :: "string list" where
  "testmain_examples = [[], ''}'', [], ''var examples = []testing.InternalExample{'']"

definition testmain_tail :: "string list" where
  "testmain_tail =
     [[], ''}'', [], ''var matchPat string'', ''var matchRe *regexp.Regexp'', [],
      ''func matchString(pat, str string) (result bool, err error) {'',
      tab @ ''if matchRe == nil || matchPat != pat {'',
      tab @ tab @ ''matchPat = pat'',
      tab @ tab @ ''matchRe, err = regexp.Compile(matchPat)'',
      tab @ tab @ ''if err != nil {'',
      tab @ tab @ tab @ ''return'',
      tab @ tab @ ''}'',
      tab @ ''}'',
      tab @ ''return matchRe.MatchString(str), nil'',
      ''}'', [],
      ''func main() {'',
      tab @ ''testing.Main(matchString, tests, benchmarks, examples)'',
      ''}'']"

definition testmain_lines :: "testFuncs \<Rightarrow> string list" where
  "testmain_lines t = testmain_head (ImportFile t) @ concat (map test_entry (Tests t))
     @ testmain_benchmarks @ concat (map test_entry (Benchmarks t))
     @ testmain_examples @ concat (map example_entry (Examples t)) @ testmain_tail"

definition testmainTmpl :: "testFuncs \<Rightarrow> string" where
  "testmainTmpl t = unlines (testmain_lines t)"

definition writeTestmain :: "'w testmain_env \<Rightarrow> string \<Rightarrow> string \<Rightarrow> string list \<Rightarrow> 'w \<Rightarrow> string option \<times> 'w" where
  "writeTestmain env importFile outputFile pkgFiles w =
     (case load_all env pkgFiles w \<lparr>Tests = [], Benchmarks = [], Examples = [], ImportFile = importFile\<rparr> of
        (Some err, t) \<Rightarrow> (Some err, w)
      | (None, t) \<Rightarrow>
          if length (Tests t) = 0 \<and> length (Benchmarks t) = 0 \<and> length (Examples t) = 0
          then (Some ''no tests/benchmarks/examples found'', w)
          else (case te_create env outputFile w of
                  (Some err, w1) \<Rightarrow> (Some err, w1)
                | (None, w1) \<Rightarrow> te_write env outputFile (testmainTmpl t) w1))"

text \<open>\<open>main\<close>: the exit code, and what goes to the standard error; the usage text is left out.\<close>

definition testmain_main :: "'w testmain_env \<Rightarrow> string \<Rightarrow> string list \<Rightarrow> 'w \<Rightarrow> (int \<times> string) \<times> 'w" where
  "testmain_main env arg0 args w =
     (case args of
        importFile # outputFile # pkgFile # pkgFiles \<Rightarrow>
          (case writeTestmain env importFile outputFile (pkgFile # pkgFiles) w of
             (Some err, w1) \<Rightarrow> ((2, arg0 @ '': '' @ print_slice args @ '': '' @ err @ [CHR_nl]), w1)
           | (None, w1) \<Rightarrow> ((0, []), w1))
      | _ \<Rightarrow> ((2, []), w))"

subsection \<open>What the generated program runs\<close>

text \<open>Reading the names back from the text: the lines that start an entry, up to the closing quote.\<close>

definition entry_name :: "string \<Rightarrow> string" where
  "entry_name l = takeWhile (\<lambda>c. c \<noteq> CHR 0x22) (drop 3 l)"

definition is_entry :: "string \<Rightarrow> bool" where
  "is_entry l \<longleftrightarrow> HasPrefix l (tab @ ''{'' @ dquote)"

definition registered :: "string \<Rightarrow> string list" where
  "registered txt = map entry_name (filter is_entry (lines_of txt))"

definition one_line :: "string \<Rightarrow> bool" where
  "one_line l \<longleftrightarrow> CHR_nl \<notin> set l"

lemma lines_of_unlines:
  assumes "list_all one_line ls"
  shows "lines_of (unlines ls) = ls @ [[]]"
proof -
  have "unlines ls = Join (ls @ [[]]) [CHR_nl]"
  proof (induction ls)
    case (Cons l ls)
    then show ?case by (simp add: unlines_def Join_Cons)
  qed (simp add: unlines_def)
  moreover have "lines_of (Join (ls @ [[]]) [CHR_nl]) = ls @ [[]]"
    using assms by (intro lines_of_Join) (auto simp: list_all_iff one_line_def)
  ultimately show ?thesis by simp
qed

lemma one_line_simps:
  "one_line []" "one_line (c # l) \<longleftrightarrow> c \<noteq> CHR_nl \<and> one_line l" "one_line (l @ m) \<longleftrightarrow> one_line l \<and> one_line m"
  by (auto simp: one_line_def)

lemma hex_digit_nl: "n < 16 \<Longrightarrow> hex_digit n \<noteq> CHR_nl"
proof
  assume n: "n < 16" and h: "hex_digit n = CHR_nl"
  have "(of_char (hex_digit n) :: nat) = (of_char CHR_nl :: nat)" using h by simp
  then show False using n by (auto simp: hex_digit_def CHR_nl_def split: if_splits)
qed

lemma one_line_quote_char: "one_line (quote_char c)"
proof -
  have "(of_char c :: nat) < 256" by (rule nat_of_char_less_256)
  then have hex: "hex_digit (of_char c div 16) \<noteq> CHR_nl" "hex_digit (of_char c mod 16) \<noteq> CHR_nl"
    by (simp_all add: hex_digit_nl less_mult_imp_div_less)
  then show ?thesis by (simp add: quote_char_def one_line_simps Let_def) (simp add: CHR_nl_def)
qed

lemma one_line_Quote: "one_line (Quote s)"
proof -
  have "one_line (concat (map quote_char s))"
    by (induction s) (simp_all add: one_line_simps one_line_quote_char)
  then show ?thesis by (simp add: Quote_def one_line_simps) (simp add: CHR_nl_def)
qed

text \<open>The functions a file declares that count as tests, benchmarks and examples.\<close>

definition test_names :: "(string \<Rightarrow> bool) \<Rightarrow> string \<Rightarrow> go_file \<Rightarrow> string list" where
  "test_names lower prefix f =
     map func_name (filter (\<lambda>d. d \<noteq> OtherDecl \<and> \<not> has_recv d \<and> isTest lower (func_name d) prefix) (gf_Decls f))"

definition example_names :: "go_file \<Rightarrow> string list" where
  "example_names f = map (\<lambda>e. ''Example'' @ fst e) (filter (\<lambda>e. snd e \<noteq> []) (gf_Examples f))"

lemma not_both: "isTest lower name ''Benchmark'' \<Longrightarrow> \<not> isTest lower name ''Test''"
  by (auto simp: isTest_def HasPrefix_iff split: if_splits)

lemma load_decls_names:
  "map tf_Name (Tests (load_decls lower pkg ds t)) = map tf_Name (Tests t) @ test_names lower ''Test'' (f\<lparr>gf_Decls := ds\<rparr>)"
  "map tf_Name (Benchmarks (load_decls lower pkg ds t))
     = map tf_Name (Benchmarks t) @ test_names lower ''Benchmark'' (f\<lparr>gf_Decls := ds\<rparr>)"
  "Examples (load_decls lower pkg ds t) = Examples t" "ImportFile (load_decls lower pkg ds t) = ImportFile t"
  by (induction lower pkg ds t rule: load_decls.induct) (auto simp: test_names_def dest: not_both)

lemma load_examples_names:
  "map tf_Name (Examples (load_examples pkg es t)) = map tf_Name (Examples t) @ example_names (f\<lparr>gf_Examples := es\<rparr>)"
  "Tests (load_examples pkg es t) = Tests t" "Benchmarks (load_examples pkg es t) = Benchmarks t"
  "ImportFile (load_examples pkg es t) = ImportFile t"
  by (induction pkg es t rule: load_examples.induct) (auto simp: example_names_def)

text \<open>What parsing a file gives.\<close>

definition parsed :: "'w testmain_env \<Rightarrow> 'w \<Rightarrow> string \<Rightarrow> go_file \<Rightarrow> bool" where
  "parsed env w filename f \<longleftrightarrow>
     (\<exists>content. read_all (ReadFile (te_os env) filename w) = Inr content \<and> te_parse env filename content = Inr f)"

lemma load_parsed:
  assumes "parsed env w filename f"
  shows "\<exists>t1. load env filename w t = (None, t1) \<and> ImportFile t1 = ImportFile t
    \<and> map tf_Name (Tests t1) = map tf_Name (Tests t) @ test_names (te_lower env) ''Test'' f
    \<and> map tf_Name (Benchmarks t1) = map tf_Name (Benchmarks t) @ test_names (te_lower env) ''Benchmark'' f
    \<and> map tf_Name (Examples t1) = map tf_Name (Examples t) @ example_names f"
  using assms load_decls_names(1,2) [of "te_lower env" "gf_Name f" "gf_Decls f" t f]
    load_examples_names(1) [of "gf_Name f" "gf_Examples f" "load_decls (te_lower env) (gf_Name f) (gf_Decls f) t" f]
  by (auto simp: parsed_def load_def load_decls_names(3,4) load_examples_names(2-4))

lemma load_all_parsed:
  assumes "\<And>pf. pf \<in> set files \<Longrightarrow> parsed env w pf (src pf)"
  shows "\<exists>t1. load_all env files w t = (None, t1) \<and> ImportFile t1 = ImportFile t
    \<and> map tf_Name (Tests t1) = map tf_Name (Tests t) @ concat (map (\<lambda>pf. test_names (te_lower env) ''Test'' (src pf)) files)
    \<and> map tf_Name (Benchmarks t1)
        = map tf_Name (Benchmarks t) @ concat (map (\<lambda>pf. test_names (te_lower env) ''Benchmark'' (src pf)) files)
    \<and> map tf_Name (Examples t1) = map tf_Name (Examples t) @ concat (map (\<lambda>pf. example_names (src pf)) files)"
  using assms
proof (induction files arbitrary: t)
  case (Cons pf files)
  obtain t1 where t1: "load env pf w t = (None, t1)" "ImportFile t1 = ImportFile t"
    "map tf_Name (Tests t1) = map tf_Name (Tests t) @ test_names (te_lower env) ''Test'' (src pf)"
    "map tf_Name (Benchmarks t1) = map tf_Name (Benchmarks t) @ test_names (te_lower env) ''Benchmark'' (src pf)"
    "map tf_Name (Examples t1) = map tf_Name (Examples t) @ example_names (src pf)"
    using load_parsed [of env w pf "src pf" t] Cons.prems [of pf] by auto
  with Cons.IH [of t1] Cons.prems show ?case by auto
qed simp

text \<open>An identifier has no quote and no line break.\<close>

definition is_ident :: "string \<Rightarrow> bool" where
  "is_ident name \<longleftrightarrow> CHR 0x22 \<notin> set name \<and> one_line name"

lemma entry_lines:
  assumes "is_ident (tf_Name t)"
  shows "list_all one_line (test_entry t)" "list_all one_line (example_entry t)"
    "map entry_name (filter is_entry (test_entry t)) = [tf_Name t]"
    "map entry_name (filter is_entry (example_entry t)) = [tf_Name t]"
proof -
  have nl: "tab = [CHR 0x09]" "dquote = [CHR 0x22]" "CHR_nl = CHR 0x0A" by (simp_all add: tab_def dquote_def CHR_nl_def)
  have name: "one_line (tf_Name t)" "takeWhile (\<lambda>c. c \<noteq> CHR 0x22) (tf_Name t @ CHR 0x22 # r) = tf_Name t" for r
    using assms by (auto simp: is_ident_def intro!: takeWhile_tail takeWhile_append2 [THEN trans])
  show "list_all one_line (test_entry t)" "list_all one_line (example_entry t)"
    using name(1) one_line_Quote by (simp_all add: test_entry_def example_entry_def one_line_simps nl)
  show "map entry_name (filter is_entry (test_entry t)) = [tf_Name t]"
    "map entry_name (filter is_entry (example_entry t)) = [tf_Name t]"
    using name(2) by (simp_all add: test_entry_def example_entry_def entry_name_def is_entry_def HasPrefix_Cons HasPrefix_def nl)
qed

lemma entries_lines:
  assumes "\<And>t. t \<in> set ts \<Longrightarrow> is_ident (tf_Name t)"
  shows "list_all one_line (concat (map test_entry ts))" "list_all one_line (concat (map example_entry ts))"
    "map entry_name (filter is_entry (concat (map test_entry ts))) = map tf_Name ts"
    "map entry_name (filter is_entry (concat (map example_entry ts))) = map tf_Name ts"
  using assms by (induction ts) (auto simp: entry_lines)

lemma fixed_lines:
  "list_all one_line (testmain_head imp)" "list_all one_line testmain_benchmarks"
  "list_all one_line testmain_examples" "list_all one_line testmain_tail"
  "filter is_entry (testmain_head imp) = []"
  "filter is_entry testmain_benchmarks = []"
  "filter is_entry testmain_examples = []"
  "filter is_entry testmain_tail = []"
  using one_line_Quote [of imp]
  by (simp_all add: testmain_head_def testmain_benchmarks_def testmain_examples_def testmain_tail_def
      tab_def dquote_def one_line_simps CHR_nl_def is_entry_def HasPrefix_def)

lemma registered_template:
  assumes "\<And>u. u \<in> set (Tests t) \<union> set (Benchmarks t) \<union> set (Examples t) \<Longrightarrow> is_ident (tf_Name u)"
  shows "registered (testmainTmpl t)
    = map tf_Name (Tests t) @ map tf_Name (Benchmarks t) @ map tf_Name (Examples t)"
proof -
  have "list_all one_line (testmain_lines t)"
    using assms by (simp add: testmain_lines_def fixed_lines entries_lines)
  then have "lines_of (testmainTmpl t) = testmain_lines t @ [[]]"
    by (simp add: testmainTmpl_def lines_of_unlines)
  then show ?thesis
    using assms by (simp add: registered_def testmain_lines_def fixed_lines entries_lines)
      (simp add: is_entry_def HasPrefix_def tab_def)
qed

text \<open>All the names the generated program is to run.\<close>

definition runnable_names :: "(string \<Rightarrow> bool) \<Rightarrow> go_file list \<Rightarrow> string list" where
  "runnable_names lower fs = concat (map (test_names lower ''Test'') fs)
     @ concat (map (test_names lower ''Benchmark'') fs) @ concat (map example_names fs)"

text \<open>When all files parse, the generator fails on a package without anything to run, and otherwise
  writes a program that registers, in the order of the files, every test, then every benchmark, then
  every example with an output, and nothing else.\<close>

theorem writeTestmain_registers:
  assumes "\<And>pf. pf \<in> set pkgFiles \<Longrightarrow> parsed env w pf (src pf)"
    and "\<And>name. name \<in> set (runnable_names (te_lower env) (map src pkgFiles)) \<Longrightarrow> is_ident name"
  shows "\<exists>txt. registered txt = runnable_names (te_lower env) (map src pkgFiles)
    \<and> writeTestmain env importFile outputFile pkgFiles w =
        (if runnable_names (te_lower env) (map src pkgFiles) = [] then (Some ''no tests/benchmarks/examples found'', w)
         else case te_create env outputFile w of
           (Some err, w1) \<Rightarrow> (Some err, w1) | (None, w1) \<Rightarrow> te_write env outputFile txt w1)"
proof -
  let ?t0 = "\<lparr>Tests = [], Benchmarks = [], Examples = [], ImportFile = importFile\<rparr>"
  obtain t where t: "load_all env pkgFiles w ?t0 = (None, t)"
    "map tf_Name (Tests t) = concat (map (\<lambda>pf. test_names (te_lower env) ''Test'' (src pf)) pkgFiles)"
    "map tf_Name (Benchmarks t) = concat (map (\<lambda>pf. test_names (te_lower env) ''Benchmark'' (src pf)) pkgFiles)"
    "map tf_Name (Examples t) = concat (map (\<lambda>pf. example_names (src pf)) pkgFiles)"
    using load_all_parsed [OF assms(1), where t = ?t0] by auto
  have names: "map tf_Name (Tests t) @ map tf_Name (Benchmarks t) @ map tf_Name (Examples t)
      = runnable_names (te_lower env) (map src pkgFiles)"
    using t(2-4) by (simp add: runnable_names_def comp_def)
  have "is_ident (tf_Name u)" if "u \<in> set (Tests t) \<union> set (Benchmarks t) \<union> set (Examples t)" for u
  proof -
    have "tf_Name u \<in> set (map tf_Name (Tests t) @ map tf_Name (Benchmarks t) @ map tf_Name (Examples t))"
      using that by auto
    then show ?thesis using assms(2) unfolding names by blast
  qed
  then have "registered (testmainTmpl t) = runnable_names (te_lower env) (map src pkgFiles)"
    using registered_template [of t] names by simp
  moreover have "Tests t = [] \<and> Benchmarks t = [] \<and> Examples t = [] \<longleftrightarrow> runnable_names (te_lower env) (map src pkgFiles) = []"
    by (simp flip: names)
  ultimately show ?thesis using t(1) by (intro exI [of _ "testmainTmpl t"]) (simp add: writeTestmain_def)
qed

definition demo_go_file :: go_file where
  "demo_go_file = \<lparr>gf_Name = ''p'', gf_Decls = [OtherDecl, FuncDecl False ''TestA'', FuncDecl True ''TestB'',
     FuncDecl False ''Testify'', FuncDecl False ''BenchmarkC''], gf_Examples = [(''D'', ''1''), (''E'', [])]\<rparr>"

definition demo_testmain :: "string testmain_env" where
  "demo_testmain = \<lparr>te_os = plain_os\<lparr>ReadFile := (\<lambda>f w. FileContent [])\<rparr>, te_cwd = ''/'', te_rel = (\<lambda>b t. Inr t),
     te_parse = (\<lambda>f content. Inr demo_go_file), te_lower = (\<lambda>s. False),
     te_create = (\<lambda>f w. (None, [])), te_write = (\<lambda>f txt w. (None, w @ txt))\<rparr>"

theorem writeTestmain_registers_witness:
  "\<exists>txt. registered txt = [''TestA'', ''BenchmarkC'', ''ExampleD'']
     \<and> writeTestmain demo_testmain ''pkg'' ''out.go'' [''a_test.go''] ''/home'' = (None, txt)"
proof -
  have p: "parsed demo_testmain ''/home'' pf demo_go_file" for pf
    by (simp add: parsed_def demo_testmain_def)
  have r: "runnable_names (te_lower demo_testmain) (map (\<lambda>pf. demo_go_file) [''a_test.go'']) = [''TestA'', ''BenchmarkC'', ''ExampleD'']"
    by code_simp
  have i: "list_all is_ident [''TestA'', ''BenchmarkC'', ''ExampleD'']"
    by (simp add: is_ident_def one_line_def CHR_nl_def)
  then have "is_ident name" if "name \<in> set (runnable_names (te_lower demo_testmain) (map (\<lambda>pf. demo_go_file) [''a_test.go'']))" for name
    using that unfolding r list_all_iff by blast
  from writeTestmain_registers [of "[''a_test.go'']" demo_testmain "''/home''" "\<lambda>pf. demo_go_file" "''pkg''" "''out.go''", OF p this]
  show ?thesis unfolding r by (auto simp: demo_testmain_def)
qed

end
