(* ===== verification/Stack.thy ===== *)
theory Stack
  imports MessageJson CliMain ServiceMain Dispatcher AndroidLint
begin

text \<open>
  The parts put together: the services of the Go programs as they are registered with an RPC
  endpoint, and their clients at the other end.

  \<^item> \<open>service/go_dispatcher.go\<close> and \<open>androidlint_analyzer\<close> serve a pack of analyzers as
    \<open>AnalyzerService\<close>, and the driver calls it;
  \<^item> \<open>service/shipshape.go\<close> serves the driver as \<open>ShipshapeService\<close>, and the command line client calls it.

  Messages travel as the JSON of \<open>MessageJson\<close>, in requests and responses of \<open>Protocol\<close>, over the HTTP
  of \<open>Client\<close> and \<open>Endpoint\<close>.
\<close>

subsection \<open>Handlers\<close>

text \<open>The input of a method of either service.  An empty message is the empty struct.\<close>

datatype rpc_input = Nothing_in | Analyze_in AnalyzeRequest | Run_in ShipshapeRequest

definition empty_codec :: "string \<Rightarrow> unit jcodec" where
  "empty_codec tname = struct_codec tname [] ()"

text \<open>
  A method that returns a response and an error.  A panic is an \<open>error\<close> of the Go runtime, and leaves the
  world as it was: the deferred calls of a handler put its directory back, and what else it did before
  it panicked is left out.
\<close>

definition plain_impl ::
  "'a jcodec \<Rightarrow> ('a \<Rightarrow> rpc_input) \<Rightarrow> 'b jcodec \<Rightarrow> (rpc_input \<Rightarrow> 'w \<Rightarrow> (('b \<times> string option) \<times> 'w) go)
     \<Rightarrow> (rpc_input, 'w) Method" where
  "plain_impl cin wrap cout f =
     \<lparr>m_Name = [], m_Params = [], m_Stream = False, m_zero = wrap (jc_zero cin),
      m_unmarshal = (\<lambda>j. map_sum id wrap (unmarshal cin j)), m_results = 0,
      m_call = (\<lambda>ctx i w. case f i w of
          Panic msg \<Rightarrow> ((JNull, Panics (PanicError msg)), w)
        | Ret ((resp, err), w1) \<Rightarrow> ((marshal cout resp, Returns (map_option PlainErr err)), w1)),
      m_callStream = (\<lambda>ctx i w. (([], Returns None), w))\<rparr>"

text \<open>A method that sends its responses on a channel and returns an error.\<close>

definition stream_impl ::
  "'a jcodec \<Rightarrow> ('a \<Rightarrow> rpc_input) \<Rightarrow> 'b jcodec \<Rightarrow> (rpc_input \<Rightarrow> 'w \<Rightarrow> (('b list \<times> string option) \<times> 'w) go)
     \<Rightarrow> (rpc_input, 'w) Method" where
  "stream_impl cin wrap cout f =
     \<lparr>m_Name = [], m_Params = [], m_Stream = True, m_zero = wrap (jc_zero cin),
      m_unmarshal = (\<lambda>j. map_sum id wrap (unmarshal cin j)), m_results = 0,
      m_call = (\<lambda>ctx i w. ((JNull, Returns None), w)),
      m_callStream = (\<lambda>ctx i w. case f i w of
          Panic msg \<Rightarrow> (([], Panics (PanicError msg)), w)
        | Ret ((resps, err), w1) \<Rightarrow> ((map (marshal cout) resps, Returns (map_option PlainErr err)), w1))\<rparr>"

definition message :: "string \<Rightarrow> string list \<Rightarrow> gotype" where
  "message name fs = TPtr (TStruct name (fs @ [''XXX_unrecognized'']))"

subsection \<open>The analyzer service\<close>

definition GetCategory_impl :: "'w analyzerService \<Rightarrow> (rpc_input, 'w) Method" where
  "GetCategory_impl s = plain_impl (empty_codec ''GetCategoryRequest'') (\<lambda>_. Nothing_in) GetCategoryResponse_codec
     (\<lambda>i w. Ret ((\<lparr>gcr_category = Dispatcher.GetCategory s\<rparr>, None), w))"

definition GetStage_impl :: "'w analyzerService \<Rightarrow> (rpc_input, 'w) Method" where
  "GetStage_impl s = plain_impl (empty_codec ''GetStageRequest'') (\<lambda>_. Nothing_in) GetStageResponse_codec
     (\<lambda>i w. Ret ((\<lparr>gsr_stage = GetStage s\<rparr>, None), w))"

definition Analyze_impl :: "'w os \<Rightarrow> 'w analyzerService \<Rightarrow> (rpc_input, 'w) Method" where
  "Analyze_impl os s = plain_impl AnalyzeRequest_codec Analyze_in AnalyzeResponse_codec
     (\<lambda>i w. case i of Analyze_in req \<Rightarrow> Dispatcher.Analyze os s req w | _ \<Rightarrow> Panic ''not a request'')"

text \<open>Reflection lists the methods by name.\<close>

definition analyzer_handler :: "'w os \<Rightarrow> 'w analyzerService \<Rightarrow> (rpc_input, 'w) Service.handler" where
  "analyzer_handler os s =
     (let recv = TStruct ''analyzerService'' [''analyzers'', ''stage'']
      in \<lparr>h_type_name = ''analyzerService'',
          h_methods =
            [\<lparr>rm_Name = ''Analyze'', rm_In = [recv, TContext, message ''AnalyzeRequest'' [''ShipshapeContext'', ''Category'']],
              rm_Out = [message ''AnalyzeResponse'' [''Note'', ''Failure''], TError], rm_impl = Analyze_impl os s\<rparr>,
             \<lparr>rm_Name = ''GetCategory'', rm_In = [recv, TContext, message ''GetCategoryRequest'' []],
              rm_Out = [message ''GetCategoryResponse'' [''Category''], TError], rm_impl = GetCategory_impl s\<rparr>,
             \<lparr>rm_Name = ''GetStage'', rm_In = [recv, TContext, message ''GetStageRequest'' []],
              rm_Out = [message ''GetStageResponse'' [''Stage''], TError], rm_impl = GetStage_impl s\<rparr>],
          h_text = ''analyzerService''\<rparr>)"

text \<open>\<open>main\<close> of \<open>go_dispatcher.go\<close>: a service with a name, the handler registered, one endpoint.\<close>

definition analyzer_endpoint :: "'w os \<Rightarrow> 'w analyzerService \<Rightarrow> (rpc_input, 'w) Endpoint" where
  "analyzer_endpoint os s = [snd (Register \<lparr>s_Name = ''AnalyzerService'', s_Methods = []\<rparr> (analyzer_handler os s))]"

text \<open>\<open>main\<close> of \<open>androidlint_analyzer/androidlint/service.go\<close> does the same with its own pack.\<close>

definition androidlint_endpoint :: "'w lint_env \<Rightarrow> (rpc_input, 'w) Endpoint" where
  "androidlint_endpoint env = analyzer_endpoint (le_os env) (androidlint_service env)"

definition registered_method :: "string \<Rightarrow> bool \<Rightarrow> string list \<Rightarrow> nat \<Rightarrow> ('i, 'w) Method \<Rightarrow> ('i, 'w) Method" where
  "registered_method name stream params outs m =
     m\<lparr>m_Name := name, m_Stream := stream, m_Params := params, m_results := outs\<rparr>"

lemma analyzer_endpoint_methods:
  "Resolve (analyzer_endpoint os s) ''AnalyzerService'' ''Analyze'' = Inr (registered_method ''Analyze'' False
     (sort [''ShipshapeContext'', ''Category'', ''XXX_unrecognized'']) 2 (Analyze_impl os s))"
  "Resolve (analyzer_endpoint os s) ''AnalyzerService'' ''GetCategory''
     = Inr (registered_method ''GetCategory'' False (sort [''XXX_unrecognized'']) 2 (GetCategory_impl s))"
  "Resolve (analyzer_endpoint os s) ''AnalyzerService'' ''GetStage''
     = Inr (registered_method ''GetStage'' False (sort [''XXX_unrecognized'']) 2 (GetStage_impl s))"
  "fst (Register \<lparr>s_Name = ''AnalyzerService'', s_Methods = []\<rparr> (analyzer_handler os s)) = None"
  by (simp_all add: analyzer_endpoint_def analyzer_handler_def Register_def checkInterface_def checkMethod_def
      IsExported_def message_def duplicate_name_def Resolve_def Service_Method_def registered_method_def Let_def
      numeral_2_eq_2 del: sort_key_simps)

subsection \<open>Calling a method\<close>

lemma unmarshalResult_raw:
  "fst (unmarshalResult unm dec) = (case fst (unmarshalResult Inr dec) of
     Inl e \<Rightarrow> Inl e
   | Inr (resp, None) \<Rightarrow> Inr (resp, None)
   | Inr (resp, Some j) \<Rightarrow> (case unm j of
       Inl err \<Rightarrow> Inl (Local (''error unmarshalling result: '' @ err)) | Inr v \<Rightarrow> Inr (resp, Some v)))"
  by (simp add: unmarshalResult_def unmarshal_raw_def Let_def
      split: list.splits wire.splits prod.splits option.splits sum.splits)

lemma Call_raw:
  assumes "Call tr Inr path params t = (Ret res, t')"
  shows "Call tr unm path params t = (Ret (case res of
      Inl e \<Rightarrow> Inl e
    | Inr None \<Rightarrow> Inr None
    | Inr (Some j) \<Rightarrow> (case unm j of
        Inl err \<Rightarrow> Inl (Local (''error unmarshalling result: '' @ err)) | Inr v \<Rightarrow> Inr (Some v))), t')"
proof -
  obtain sent t1 where s: "SendRequest tr Version2 path params t = (sent, t1)" by fastforce
  show ?thesis
  proof (cases sent)
    case (Inl err)
    then show ?thesis using assms s by (auto simp: Call_def)
  next
    case (Inr resp)
    then obtain dec where "resp = Ret dec" using assms s by (cases resp) (auto simp: Call_def)
    then show ?thesis
      using assms s Inr by (auto simp: Call_def unmarshalResult_raw [of unm] split: sum.splits option.splits)
  qed
qed

text \<open>What a method that returns a response and an error gives its client.\<close>

definition method_reply :: "(('b \<times> string option) \<times> 'w) go \<Rightarrow> client_error + 'b option" where
  "method_reply r = (case r of
     Panic msg \<Rightarrow> Inl (Remote \<lparr>e_code = ErrorInternal, e_message = msg, e_data = None\<rparr>)
   | Ret ((resp, Some err), _) \<Rightarrow> Inl (Remote \<lparr>e_code = ErrorApplication, e_message = err, e_data = None\<rparr>)
   | Ret ((resp, None), _) \<Rightarrow> Inr (Some resp))"

definition method_world :: "(('b \<times> string option) \<times> 'w) go \<Rightarrow> 'w \<Rightarrow> 'w" where
  "method_world r w = (case r of Panic _ \<Rightarrow> w | Ret (_, w1) \<Rightarrow> w1)"

lemma Call_method:
  assumes "codecs_ok c" "codec_ok cin" "codec_ok cout"
    and "parseServiceMethod path = Inr (svc, name)" "svc \<noteq> serverInfoService"
    and "Resolve e svc name = Inr (registered_method name False params 2 (plain_impl cin wrap cout f))"
  shows "Call (http_transport (server_network e text_of c)) (unmarshal cout) path
      (Inr (marshal cin req)) t
    = (Ret (method_reply (f (wrap req) (ht_net t))),
       t\<lparr>ht_id := ht_id t + 1, ht_net := method_world (f (wrap req) (ht_net t)) (ht_net t)\<rparr>)"
proof -
  let ?m = "registered_method name False params 2 (plain_impl cin wrap cout f)"
  let ?r = "f (wrap req) (ht_net t)"
  define fin where "fin = (case ?r of Panic msg \<Rightarrow> Panics (PanicError msg) | Ret ((resp, err), _) \<Rightarrow> Returns (map_option PlainErr err))"
  define outs where "outs = (case ?r of Ret ((resp, None), _) \<Rightarrow> [marshal cout resp] | _ \<Rightarrow> [])"
  have st: "\<not> m_Stream ?m" by (simp add: registered_method_def)
  have run: "run_method ?m client_header (Some (marshal cin req)) (ht_net t) = (outs, fin, method_world ?r (ht_net t))"
    using unmarshal_marshal [OF assms(2), of req]
    by (auto simp: run_method_def Invoke_def decode_input_def registered_method_def plain_impl_def outs_def fin_def
        method_world_def split: go.splits prod.splits option.splits)
  have reach: "reaches e (client_request Version2 (ht_id t) path (marshal cin req)) ?m"
    using assms(4-6) by (simp add: reaches_def client_request_def valid_id_def)
  have "fin_in_range fin"
    by (simp add: fin_def fin_in_range_def end_error_def code_in_range_def ErrorInternal_def ErrorApplication_def
        empty_error_def split: go.splits prod.splits option.splits)
  then have runs: "server_runs e c Version2 path (marshal cin req) t False outs fin
      (t\<lparr>ht_id := ht_id t + 1, ht_net := method_world ?r (ht_net t)\<rparr>)"
    using assms(1) reach run st unfolding server_runs_def by blast
  show ?thesis
    unfolding Call_raw [OF http.call_result [OF runs], where unm = "unmarshal cout"]
    using unmarshal_marshal [OF assms(3)]
    by (simp add: method_reply_def fin_def outs_def end_error_def split: go.splits prod.splits option.splits)
qed

subsection \<open>The driver and its analyzers\<close>

text \<open>A reply as the driver sees it: the error, or the message, which stays empty without a result.\<close>

definition driver_reply :: "('r \<Rightarrow> 'b) \<Rightarrow> 'r \<Rightarrow> client_error + 'r option \<Rightarrow> string + 'b" where
  "driver_reply get zero r = (case r of
     Inl err \<Rightarrow> Inl (client_error_text err)
   | Inr None \<Rightarrow> Inr (get zero)
   | Inr (Some v) \<Rightarrow> Inr (get v))"

text \<open>The calls of \<open>callGetAnalyzerInfo\<close> and \<open>callAnalyze\<close> to an address, through a network in some state.\<close>

definition calls_over :: "'v driver_env \<Rightarrow> string \<Rightarrow> 'w network \<Rightarrow> 'w httpTransport \<Rightarrow> bool" where
  "calls_over env a nw t \<longleftrightarrow>
     (\<exists>r. fst (Call (http_transport nw) (unmarshal GetCategoryResponse_codec) ''/AnalyzerService/GetCategory''
            (Inr (marshal (empty_codec ''GetCategoryRequest'') ())) t) = Ret r
        \<and> de_categories env a = driver_reply gcr_category (jc_zero GetCategoryResponse_codec) r)
     \<and> (\<exists>r. fst (Call (http_transport nw) (unmarshal GetStageResponse_codec) ''/AnalyzerService/GetStage''
            (Inr (marshal (empty_codec ''GetStageRequest'') ())) t) = Ret r
        \<and> de_stage env a = driver_reply gsr_stage (jc_zero GetStageResponse_codec) r)
     \<and> (\<forall>req. \<exists>r. fst (Call (http_transport nw) (unmarshal AnalyzeResponse_codec) ''/AnalyzerService/Analyze''
            (Inr (marshal AnalyzeRequest_codec req)) t) = Ret r
        \<and> de_analyze env a req = driver_reply (\<lambda>x. x) (jc_zero AnalyzeResponse_codec) r)"

text \<open>What comes back from \<open>Analyze\<close>: the response, or the error the handler returned or panicked with.\<close>

definition pack_rpc :: "'w os \<Rightarrow> 'w analyzerService \<Rightarrow> 'w \<Rightarrow> AnalyzeRequest \<Rightarrow> string + AnalyzeResponse" where
  "pack_rpc os s w req =
     (case Dispatcher.Analyze os s req w of
        Panic msg \<Rightarrow> Inl msg
      | Ret ((resp, Some err), _) \<Rightarrow> Inl err
      | Ret ((resp, None), _) \<Rightarrow> Inr resp)"

lemma codec_ok_empty: "codec_ok (empty_codec tname)"
  unfolding empty_codec_def by (rule codec_ok_struct) (simp_all add: names_distinct_def)

lemma analyzer_paths:
  "parseServiceMethod ''/AnalyzerService/Analyze'' = Inr (''AnalyzerService'', ''Analyze'')"
  "parseServiceMethod ''/AnalyzerService/GetCategory'' = Inr (''AnalyzerService'', ''GetCategory'')"
  "parseServiceMethod ''/AnalyzerService/GetStage'' = Inr (''AnalyzerService'', ''GetStage'')"
  by code_simp+

lemma driver_method_reply:
  "driver_reply get zero (method_reply r) = (case r of
     Panic msg \<Rightarrow> Inl msg | Ret ((resp, Some err), _) \<Rightarrow> Inl err | Ret ((resp, None), _) \<Rightarrow> Inr (get resp))"
  by (simp add: driver_reply_def method_reply_def Error_Error_def split: go.splits prod.splits option.splits)

text \<open>Over RPC the driver gets exactly what the handlers of the service return.\<close>

lemma calls_over_service:
  assumes "codecs_ok c"
  shows "calls_over env a (server_network (analyzer_endpoint os s) text_of c) t \<longleftrightarrow>
    de_categories env a = Inr (Dispatcher.GetCategory s) \<and> de_stage env a = Inr (GetStage s)
    \<and> de_analyze env a = pack_rpc os s (ht_net t)"
proof -
  let ?nw = "server_network (analyzer_endpoint os s) text_of c"
  note call = Call_method [OF assms, where text_of = text_of]
  have sv: "''AnalyzerService'' \<noteq> serverInfoService" by (simp add: serverInfoService_def)
  note A = analyzer_endpoint_methods [of os s]
  have cat: "fst (Call (http_transport ?nw) (unmarshal GetCategoryResponse_codec) ''/AnalyzerService/GetCategory''
      (Inr (marshal (empty_codec ''GetCategoryRequest'') ())) t)
    = Ret (method_reply (Ret ((\<lparr>gcr_category = Dispatcher.GetCategory s\<rparr>, None), ht_net t)))"
    by (simp add: call [OF codec_ok_empty codec_ok_GetCategoryResponse analyzer_paths(2) sv A(2) [unfolded GetCategory_impl_def]])
  have stage: "fst (Call (http_transport ?nw) (unmarshal GetStageResponse_codec) ''/AnalyzerService/GetStage''
      (Inr (marshal (empty_codec ''GetStageRequest'') ())) t)
    = Ret (method_reply (Ret ((\<lparr>gsr_stage = GetStage s\<rparr>, None), ht_net t)))"
    by (simp add: call [OF codec_ok_empty codec_ok_GetStageResponse analyzer_paths(3) sv A(3) [unfolded GetStage_impl_def]])
  have an: "fst (Call (http_transport ?nw) (unmarshal AnalyzeResponse_codec) ''/AnalyzerService/Analyze''
      (Inr (marshal AnalyzeRequest_codec req)) t)
    = Ret (method_reply (Dispatcher.Analyze os s req (ht_net t)))" for req
    by (simp add: call [OF codec_ok_AnalyzeRequest codec_ok_AnalyzeResponse analyzer_paths(1) sv A(1) [unfolded Analyze_impl_def]])
  have "(de_analyze env a = pack_rpc os s (ht_net t)) \<longleftrightarrow> (\<forall>req. de_analyze env a req = pack_rpc os s (ht_net t) req)"
    by auto
  then show ?thesis
    unfolding calls_over_def cat stage an by (simp add: driver_method_reply pack_rpc_def)
qed

text \<open>So a call of the driver is the handler's answer, or a failure that names the address.\<close>

definition call_failure :: "string \<Rightarrow> string \<Rightarrow> AnalyzeResponse" where
  "call_failure a err = \<lparr>ar_note = [], ar_failure = [\<lparr>f_category = None,
     f_message = Some (''Error from analyzer '' @ a @ '': '' @ err)\<rparr>]\<rparr>"

text \<open>C8: the driver and a pack of analyzers together: over RPC the driver learns the categories and the
  stage of the pack, and its call of \<open>Analyze\<close> is answered with the response of the handler on the
  very request, or with a failure that names the address and the error the handler returned or
  panicked with.\<close>

theorem driver_sees_pack:
  assumes "codecs_ok c"
    and "calls_over env a (server_network (analyzer_endpoint os s) text_of c) t"
  shows "callGetAnalyzerInfo env a = Ret \<lparr>si_analyzer = a,
      si_categories = New (map an_Category (as_analyzers s)), si_stage = as_stage s\<rparr>
    \<and> callAnalyze env a req = (case Dispatcher.Analyze os s req (ht_net t) of
        Panic msg \<Rightarrow> call_failure a msg
      | Ret ((resp, Some err), _) \<Rightarrow> call_failure a err
      | Ret ((resp, None), _) \<Rightarrow> resp)"
  using assms(2) unfolding calls_over_service [OF assms(1)]
  by (auto simp: callGetAnalyzerInfo_def Dispatcher.GetCategory_def GetStage_def callAnalyze_def pack_rpc_def
      call_failure_def split: go.splits prod.splits option.splits)

text \<open>A pack whose one analyzer panics.\<close>

definition bad_pack :: "string analyzerService" where
  "bad_pack = CreateAnalyzerService
     [\<lparr>an_Category = ''Bad'', an_Analyze = (\<lambda>ctx w. Panic ''index out of range'')\<rparr>] Stage_PRE_BUILD"

definition bad_env :: "string driver_env" where
  "bad_env = (demo_env ''manual'' [''Bad''])\<lparr>de_categories := (\<lambda>a. Inr [''Bad'']),
     de_stage := (\<lambda>a. Inr (Some Stage_PRE_BUILD)), de_analyze := (\<lambda>a. pack_rpc plain_os bad_pack ''/'')\<rparr>"

theorem driver_sees_pack_witness:
  "callGetAnalyzerInfo bad_env ''localhost:10005'' = Ret \<lparr>si_analyzer = ''localhost:10005'',
      si_categories = New [''Bad''], si_stage = Stage_PRE_BUILD\<rparr>
   \<and> callAnalyze bad_env ''localhost:10005'' (a_request [''Bad'']) = call_failure ''localhost:10005'' ''index out of range''"
proof -
  let ?t = "NewHTTPClient ''localhost:10005'' ''/''"
  have t: "ht_net ?t = ''/''" by (simp add: NewHTTPClient_def)
  have "calls_over bad_env ''localhost:10005''
      (server_network (analyzer_endpoint plain_os bad_pack) (\<lambda>r. []) plain_codecs) ?t"
    unfolding calls_over_service [OF codecs_ok_plain]
    by (simp add: bad_env_def bad_pack_def Dispatcher.GetCategory_def GetStage_def CreateAnalyzerService_def t)
  moreover have "Dispatcher.Analyze plain_os bad_pack (a_request [''Bad'']) ''/'' = Panic ''index out of range''"
    by code_simp
  ultimately show ?thesis
    using driver_sees_pack [OF codecs_ok_plain, where req = "a_request [''Bad'']" and s = bad_pack and os = plain_os] t
    by (fastforce simp: bad_pack_def CreateAnalyzerService_def)
qed

subsection \<open>The shipshape service\<close>

text \<open>
  \<open>main\<close> of \<open>shipshape.go\<close> with \<open>start_service\<close>: the driver is the handler.  Its calls change the world and the
  default categories, which all copies of the driver share; so both are the world of the endpoint.  A
  panic of one of the driver's own goroutines takes the process down, and no call returns then; the
  theorems are about runs that return.
\<close>

definition driver_Run :: "'w driver_env \<Rightarrow> rpc_input \<Rightarrow> 'w \<times> ShipshapeDriver
    \<Rightarrow> ((ShipshapeResponse list \<times> string option) \<times> 'w \<times> ShipshapeDriver) go" where
  "driver_Run env i st = (case i of
     Run_in req \<Rightarrow> go_bind (Driver.Run env (snd st) req (fst st)) (\<lambda>(res, sd, w).
       Ret (([\<lparr>sresp_analyze_response = rr_ars res\<rparr>], rr_err res), (w, sd)))
   | _ \<Rightarrow> Panic ''not a request'')"

definition driver_GetCategory :: "'w driver_env \<Rightarrow> rpc_input \<Rightarrow> 'w \<times> ShipshapeDriver
    \<Rightarrow> ((GetCategoryResponse \<times> string option) \<times> 'w \<times> ShipshapeDriver) go" where
  "driver_GetCategory env i st =
     go_bind (Driver.GetCategory env (snd st)) (\<lambda>cs. Ret ((\<lparr>gcr_category = cs\<rparr>, None), st))"

definition shipshape_handler :: "'w driver_env \<Rightarrow> (rpc_input, 'w \<times> ShipshapeDriver) Service.handler" where
  "shipshape_handler env =
     (let recv = TPtr (TStruct ''ShipshapeDriver'' [''AnalyzerLocations'', ''serviceMap'', ''defaultCategories''])
      in \<lparr>h_type_name = ''ShipshapeDriver'',
          h_methods =
            [\<lparr>rm_Name = ''GetCategory'', rm_In = [recv, TContext, message ''GetCategoryRequest'' []],
              rm_Out = [message ''GetCategoryResponse'' [''Category''], TError],
              rm_impl = plain_impl (empty_codec ''GetCategoryRequest'') (\<lambda>_. Nothing_in) GetCategoryResponse_codec
                (driver_GetCategory env)\<rparr>,
             \<lparr>rm_Name = ''Run'', rm_In = [recv, TContext,
                message ''ShipshapeRequest'' [''ShipshapeContext'', ''TriggeredCategory'', ''Event'', ''Stage''],
                TChan True (message ''ShipshapeResponse'' [''AnalyzeResponse''])],
              rm_Out = [TError],
              rm_impl = stream_impl ShipshapeRequest_codec Run_in ShipshapeResponse_codec (driver_Run env)\<rparr>],
          h_text = ''ShipshapeDriver''\<rparr>)"

definition shipshape_endpoint :: "'w driver_env \<Rightarrow> (rpc_input, 'w \<times> ShipshapeDriver) Endpoint" where
  "shipshape_endpoint env =
     [snd (Register \<lparr>s_Name = ''ShipshapeService'', s_Methods = []\<rparr> (shipshape_handler env))]"

lemma shipshape_endpoint_methods:
  "Resolve (shipshape_endpoint env) ''ShipshapeService'' ''GetCategory''
     = Inr (registered_method ''GetCategory'' False (sort [''XXX_unrecognized'']) 2
         (plain_impl (empty_codec ''GetCategoryRequest'') (\<lambda>_. Nothing_in) GetCategoryResponse_codec (driver_GetCategory env)))"
  "Resolve (shipshape_endpoint env) ''ShipshapeService'' ''Run''
     = Inr (registered_method ''Run'' True
         (sort [''ShipshapeContext'', ''TriggeredCategory'', ''Event'', ''Stage'', ''XXX_unrecognized'']) 1
         (stream_impl ShipshapeRequest_codec Run_in ShipshapeResponse_codec (driver_Run env)))"
  "fst (Register \<lparr>s_Name = ''ShipshapeService'', s_Methods = []\<rparr> (shipshape_handler env)) = None"
  by (simp_all add: shipshape_endpoint_def shipshape_handler_def Register_def checkInterface_def checkMethod_def
      IsExported_def message_def duplicate_name_def Resolve_def Service_Method_def registered_method_def Let_def
      numeral_2_eq_2 numeral_3_eq_3 numeral_eq_Suc del: sort_key_simps)

subsection \<open>The command line client and the service\<close>

text \<open>The client library with a service at the other end of its transport.\<close>

definition client_over ::
  "('n httpTransport) cli_env \<Rightarrow> 'n network \<Rightarrow> bool" where
  "client_over cenv nw \<longleftrightarrow> ce_transport cenv = http_transport nw
     \<and> ce_request cenv = (\<lambda>req. Inr (marshal ShipshapeRequest_codec req))
     \<and> ce_response cenv = unmarshal ShipshapeResponse_codec"

lemma shipshape_paths:
  "parseServiceMethod ''/ShipshapeService/Run'' = Inr (''ShipshapeService'', ''Run'')"
  "parseServiceMethod ''/ShipshapeService/GetCategory'' = Inr (''ShipshapeService'', ''GetCategory'')"
  by code_simp+

text \<open>A run that returns, over RPC: its one response, and then the end of the stream or its error.\<close>

lemma Stream_Run:
  assumes "codecs_ok c"
    and "Driver.Run env sd req w = Ret (res, sd', w')" "ht_net t = (w, sd)"
  shows "\<exists>rq. rq_version rq = Version2Streaming
    \<and> Stream (http_transport (server_network (shipshape_endpoint env) text_of c)) ''/ShipshapeService/Run''
        (Inr (marshal ShipshapeRequest_codec req)) t
      = (\<lparr>rd_dec = Ret (map (\<lambda>r. Value (encode_response (stamp rq r)))
            [result_response (marshal ShipshapeResponse_codec \<lparr>sresp_analyze_response = rr_ars res\<rparr>),
             case rr_err res of None \<Rightarrow> success_response
             | Some err \<Rightarrow> error_response \<lparr>e_code = ErrorApplication, e_message = err, e_data = None\<rparr>]), rd_err = None\<rparr>,
         t\<lparr>ht_id := ht_id t + 1, ht_net := (w', sd')\<rparr>)"
proof -
  let ?j = "marshal ShipshapeRequest_codec req" and ?out = "marshal ShipshapeResponse_codec \<lparr>sresp_analyze_response = rr_ars res\<rparr>"
  let ?rq = "client_request Version2Streaming (ht_id t) ''/ShipshapeService/Run'' ?j"
  let ?fin = "Returns (map_option PlainErr (rr_err res))"
  obtain m where m: "Resolve (shipshape_endpoint env) ''ShipshapeService'' ''Run'' = Inr m" "m_Stream m"
    "run_method m client_header (Some ?j) (w, sd) = ([?out], ?fin, (w', sd'))"
  proof (rule that [OF shipshape_endpoint_methods(2)])
    show "run_method (registered_method ''Run'' True
         (sort [''ShipshapeContext'', ''TriggeredCategory'', ''Event'', ''Stage'', ''XXX_unrecognized'']) 1
         (stream_impl ShipshapeRequest_codec Run_in ShipshapeResponse_codec (driver_Run env))) client_header (Some ?j) (w, sd)
       = ([?out], ?fin, (w', sd'))"
      using unmarshal_marshal [OF codec_ok_ShipshapeRequest, of req] assms(2)
      by (simp add: run_method_def Invoke_def decode_input_def registered_method_def stream_impl_def driver_Run_def)
  qed (simp add: registered_method_def)
  have reach: "reaches (shipshape_endpoint env) ?rq m"
    using m(1) shipshape_paths(1) by (simp add: reaches_def client_request_def valid_id_def serverInfoService_def)
  have v: "rq_version ?rq = Version2Streaming" by (simp add: client_request_def)
  have "method_answer Version2Streaming True [?out] ?fin = [result_response ?out,
      case rr_err res of None \<Rightarrow> success_response
      | Some err \<Rightarrow> error_response \<lparr>e_code = ErrorApplication, e_message = err, e_data = None\<rparr>]"
    by (cases "rr_err res") (simp_all add: method_answer_def end_error_def)
  then show ?thesis
    using SendRequest_server [OF assms(1) reach, of "[?out]" ?fin "(w', sd')" text_of] m(2,3) assms(3) v
    by (intro exI [of _ ?rq]) (simp add: Stream_def)
qed

text \<open>The client's handler sees the responses of the run, once, and the client then reports the error of the
  run, or the number of notes.\<close>

definition client_result ::
  "(string option \<times> 's) go \<Rightarrow> run_result \<Rightarrow> ((nat \<times> string option) \<times> 's) go" where
  "client_result outcome res = go_bind outcome (\<lambda>(err, s). Ret (case err of
     Some e \<Rightarrow> ((0, Some (''could not parse results: '' @ e)), s)
   | None \<Rightarrow> (case rr_err res of
       Some e \<Rightarrow> ((0, Some (''received an error from calling run: '' @ e)), s)
     | None \<Rightarrow> ((numNotes \<lparr>sresp_analyze_response = rr_ars res\<rparr>, None), s))))"

lemma analyze_Run:
  assumes "codecs_ok c"
    and "client_over cenv (server_network (shipshape_endpoint env) text_of c)"
    and "Driver.Run env sd req w = Ret (res, sd', w')" "ht_net t = (w, sd)"
  shows "analyze cenv req dir (Some h) s t
    = go_bind (client_result (h \<lparr>sresp_analyze_response = rr_ars res\<rparr> dir s) res)
        (\<lambda>r. Ret (r, t\<lparr>ht_id := ht_id t + 1, ht_net := (w', sd')\<rparr>))"
proof -
  let ?msg = "\<lparr>sresp_analyze_response = rr_ars res\<rparr>"
  let ?h = "\<lambda>msg dir s. go_bind (deref (Some h)) (\<lambda>h. h msg dir s)"
  let ?unm = "unmarshal ShipshapeResponse_codec"
  obtain rq where rq: "rq_version rq = Version2Streaming"
    "Stream (http_transport (server_network (shipshape_endpoint env) text_of c)) ''/ShipshapeService/Run''
        (Inr (marshal ShipshapeRequest_codec req)) t
      = (\<lparr>rd_dec = Ret (map (\<lambda>r. Value (encode_response (stamp rq r)))
            [result_response (marshal ShipshapeResponse_codec ?msg),
             case rr_err res of None \<Rightarrow> success_response
             | Some err \<Rightarrow> error_response \<lparr>e_code = ErrorApplication, e_message = err, e_data = None\<rparr>]), rd_err = None\<rparr>,
         t\<lparr>ht_id := ht_id t + 1, ht_net := (w', sd')\<rparr>)"
    using Stream_Run [OF assms(1,3,4), of text_of] by blast
  have end_loop: "analyze_loop ?unm ?h dir n \<lparr>rd_dec = Ret [Value (encode_response (stamp rq
        (case rr_err res of None \<Rightarrow> success_response
         | Some err \<Rightarrow> error_response \<lparr>e_code = ErrorApplication, e_message = err, e_data = None\<rparr>)))], rd_err = None\<rparr> s1
    = Ret (case rr_err res of None \<Rightarrow> ((n, None), s1)
         | Some err \<Rightarrow> ((0, Some (''received an error from calling run: '' @ err)), s1))" for n s1
    by (subst analyze_loop.simps, cases "rr_err res")
      (simp_all add: NextResult_stamped [OF rq(1)] code_in_range_def ErrorApplication_def Error_Error_def)
  have "analyze_loop ?unm ?h dir 0 \<lparr>rd_dec = Ret (map (\<lambda>r. Value (encode_response (stamp rq r)))
            [result_response (marshal ShipshapeResponse_codec ?msg),
             case rr_err res of None \<Rightarrow> success_response
             | Some err \<Rightarrow> error_response \<lparr>e_code = ErrorApplication, e_message = err, e_data = None\<rparr>]), rd_err = None\<rparr> s
      = client_result (h ?msg dir s) res"
    using NextResult_decoded [OF rq(1), of ?unm "marshal ShipshapeResponse_codec ?msg" ?msg]
      unmarshal_marshal [OF codec_ok_ShipshapeResponse, of ?msg] end_loop
    by (subst analyze_loop.simps) (cases "h ?msg dir s"; auto simp: client_result_def split: option.splits)
  then show ?thesis
    using assms(2) rq(2) by (simp add: analyze_def client_over_def)
qed

lemma analyze_panics_iff:
  assumes "codecs_ok c"
    and "client_over cenv (server_network (shipshape_endpoint env) text_of c)"
    and "Driver.Run env sd req w = Ret (res, sd', w')" "ht_net t = (w, sd)"
  shows "panics (analyze cenv req dir (Some h) s t) \<longleftrightarrow> panics (h \<lparr>sresp_analyze_response = rr_ars res\<rparr> dir s)"
  unfolding analyze_Run [OF assms]
  by (cases "h \<lparr>sresp_analyze_response = rr_ars res\<rparr> dir s") (auto simp: client_result_def panics_def split: option.splits)

text \<open>A client whose service is at the other end of a network, and that does nothing else.\<close>

definition idle_os :: "'w os" where
  "idle_os = \<lparr>Getwd = (\<lambda>w. Inr ''/''), Chdir = (\<lambda>d w. (None, w)), TempDir = (\<lambda>d p w. (Inl ''full'', w)),
     Exec = (\<lambda>argv w. (\<lparr>xr_stdout = [], xr_stderr = [], xr_err = None\<rparr>, w)),
     CombinedOutput = (\<lambda>argv w. (([], None), w)), RemoveFile = (\<lambda>f w. (None, w)),
     ReadDir = (\<lambda>d w. Inr []), ReadFile = (\<lambda>f w. NotExist f)\<rparr>"

definition remote_cli :: "'n network \<Rightarrow> 'n httpTransport cli_env" where
  "remote_cli nw = \<lparr>ce_os = idle_os, ce_docker = docker_plain, ce_stat = (\<lambda>f w. Inr True), ce_home = (\<lambda>w. ''/root''),
     ce_yaml = (\<lambda>t. Inl ''not read''), ce_config = (\<lambda>xs. xs), ce_finish = (\<lambda>xs. xs),
     ce_clock = \<lparr>Now = (\<lambda>w. 0), Sleep = (\<lambda>d w. w), Ping = (\<lambda>w. (None, w))\<rparr>,
     ce_transport = http_transport nw, ce_request = (\<lambda>req. Inr (marshal ShipshapeRequest_codec req)),
     ce_response = unmarshal ShipshapeResponse_codec\<rparr>"

lemma client_over_remote_cli: "client_over (remote_cli nw) nw"
  by (simp add: client_over_def remote_cli_def)

subsection \<open>Properties\<close>

text \<open>C7: the client and the driver together: when the service's run of the request returns, the client's
  response handler is called once, with the very responses of the run, and the client returns
  the number of their notes, or the error of the run or of the handler; the service goes on with
  the driver the run left.\<close>

theorem client_sees_run:
  assumes "codecs_ok c"
    and "client_over cenv (server_network (shipshape_endpoint env) text_of c)"
    and "Driver.Run env sd req w = Ret (res, sd', w')" "ht_net t = (w, sd)"
  shows "analyze cenv req dir (Some h) s t =
    (case h \<lparr>sresp_analyze_response = rr_ars res\<rparr> dir s of
       Panic m \<Rightarrow> Panic m
     | Ret (err, s1) \<Rightarrow> Ret (((case err of
           Some e \<Rightarrow> (0, Some (''could not parse results: '' @ e))
         | None \<Rightarrow> (case rr_err res of
             Some e \<Rightarrow> (0, Some (''received an error from calling run: '' @ e))
           | None \<Rightarrow> (sum_list (map (\<lambda>ar. length (ar_note ar)) (rr_ars res)), None))), s1),
         t\<lparr>ht_id := ht_id t + 1, ht_net := (w', sd')\<rparr>))"
proof -
  have "numNotes \<lparr>sresp_analyze_response = rr_ars res\<rparr> = sum_list (map (\<lambda>ar. length (ar_note ar)) (rr_ars res))"
    by (simp add: numNotes_all all_notes_def length_concat comp_def)
  then show ?thesis
    unfolding analyze_Run [OF assms]
    by (cases "h \<lparr>sresp_analyze_response = rr_ars res\<rparr> dir s") (auto simp: client_result_def split: option.splits)
qed

theorem client_sees_run_witness:
  "\<exists>res sd' w' t'. Driver.Run (demo_env ''manual'' [''go vet'']) demo_driver (demo_request [''go vet''] ''manual'') ''/home'' = Ret (res, sd', w')
    \<and> analyze (remote_cli (server_network (shipshape_endpoint (demo_env ''manual'' [''go vet''])) (\<lambda>r. []) plain_codecs))
        (demo_request [''go vet''] ''manual'') ''.'' (Some collect_response) blank_state
        (NewHTTPClient ''localhost:10007'' (''/home'', demo_driver))
      = Ret (((1, None), blank_state\<lparr>ms_all := rr_ars res\<rparr>), t')"
proof -
  let ?env = "demo_env ''manual'' [''go vet'']" and ?req = "demo_request [''go vet''] ''manual''"
  let ?t = "NewHTTPClient ''localhost:10007'' (''/home'', demo_driver)"
  have "case Driver.Run ?env demo_driver ?req ''/home'' of
      Ret (res, _, _) \<Rightarrow> rr_err res = None \<and> sum_list (map (\<lambda>ar. length (ar_note ar)) (rr_ars res)) = 1 | Panic _ \<Rightarrow> False"
    by code_simp
  then obtain res sd' w' where r: "Driver.Run ?env demo_driver ?req ''/home'' = Ret (res, sd', w')"
    "rr_err res = None" "sum_list (map (\<lambda>ar. length (ar_note ar)) (rr_ars res)) = 1"
    by (auto split: go.splits)
  have "ht_net ?t = (''/home'', demo_driver)" by (simp add: NewHTTPClient_def)
  from client_sees_run [OF codecs_ok_plain client_over_remote_cli r(1) this, of "\<lambda>r. []" "''.''" collect_response blank_state]
  show ?thesis using r by (simp add: collect_response_def blank_state_def)
qed

end
