(* ===== verification/Serving.thy ===== *)
theory Serving
  imports Stack
begin

text \<open>
  The services over a series of requests.  Whatever is sent to an endpoint, well-formed or not, only
  a registered method touches the state behind it; so what every method keeps, every request keeps.
  The requests are answered one after another here; \<open>Overlap\<close> is about runs at the same time.
\<close>

subsection \<open>What a request can change\<close>

definition keeps :: "('w \<Rightarrow> bool) \<Rightarrow> ('i, 'w) Method \<Rightarrow> bool" where
  "keeps P m \<longleftrightarrow> (\<forall>ctx i w. P w \<longrightarrow> P (snd (m_call m ctx i w)) \<and> P (snd (m_callStream m ctx i w)))"

lemma Invoke_keeps:
  assumes "keeps P m" "P w"
  shows "P (snd (snd (Invoke (Some m) ctx inp out s w)))"
proof (cases "decode_input m inp")
  case (Inr i)
  have "P (snd (m_call m ctx i w))" "P (snd (m_callStream m ctx i w))"
    using assms by (simp_all add: keeps_def)
  then show ?thesis
    using Inr by (auto simp: Invoke_def split: prod.splits handler_end.splits option.splits)
qed (use assms(2) in \<open>simp add: Invoke_def\<close>)

lemma snd_handled [simp]: "snd (snd (handled r w)) = w"
  by (simp add: handled_def split: prod.split)

lemma answer_v2_keeps:
  assumes "keeps P m" "P w"
  shows "P (snd (snd (answer_v2 req m ctx wr w)))"
  using Invoke_keeps [OF assms, of ctx "rq_params req" "\<lambda>result results. results @ [result]" "[]"]
  by (auto simp: answer_v2_def split: prod.splits handler_end.splits option.splits)

lemma answer_streaming_keeps:
  assumes "keeps P m" "P w"
  shows "P (snd (snd (answer_streaming req m ctx wr w)))"
  using Invoke_keeps [OF assms, of ctx "rq_params req" "stream_out req" "(None, wr)"]
  by (auto simp: answer_streaming_def split: prod.splits handler_end.splits option.splits)

lemma Resolve_registered:
  "Resolve e svc name = Inr m \<Longrightarrow> \<exists>s \<in> set e. m \<in> set (s_Methods s)"
  by (auto simp: Resolve_def split: option.splits dest!: first_such_SomeD Service_Method_SomeD)

lemma Register_methods:
  assumes "m \<in> set (s_Methods (snd (Register s h)))"
  shows "m \<in> set (s_Methods s)
    \<or> (\<exists>rm \<in> set (h_methods h). m_call m = m_call (rm_impl rm) \<and> m_callStream m = m_callStream (rm_impl rm))"
proof -
  have ok: "m_call m = m_call (rm_impl rm) \<and> m_callStream m = m_callStream (rm_impl rm)"
    if "checkMethod rm = Inr m" for rm
    using that by (auto simp: checkMethod_def Let_def split: if_splits)
  have "m \<in> set (s_Methods s) \<or> m \<in> set (snd (checkInterface h))"
    using assms by (auto simp: Register_def Let_def split: prod.splits if_splits option.splits)
  then show ?thesis using ok by (fastforce simp: checkInterface_def split: sum.splits)
qed

text \<open>The contract of an endpoint: each of its methods keeps \<open>P\<close>.\<close>

locale kept_by =
  fixes e :: "('i, 'w) Endpoint" and P :: "'w \<Rightarrow> bool"
  assumes methods_keep: "s \<in> set e \<Longrightarrow> m \<in> set (s_Methods s) \<Longrightarrow> keeps P m"
begin

lemma answer_keeps:
  assumes "P w"
  shows "P (snd (snd (answer e text_of ctx req wr w)))"
proof (cases "CheckID text_of (rq_id req) \<noteq> None
    \<or> rq_version req \<noteq> Version2 \<and> rq_version req \<noteq> Version2Streaming")
  case False
  show ?thesis
  proof (cases "parseServiceMethod (rq_method req)")
    case (Inr sm)
    obtain svc name where sm: "sm = (svc, name)" by fastforce
    show ?thesis
    proof (cases "svc = serverInfoService")
      case True
      then show ?thesis using False Inr sm assms by (simp add: answer_def Let_def)
    next
      case other: False
      show ?thesis
      proof (cases "Resolve e svc name")
        case r: (Inr m)
        from Resolve_registered [OF r] have "keeps P m" using methods_keep by blast
        with assms have "P (snd (snd (answer_v2 rq m ctx wr w)))" "P (snd (snd (answer_streaming rq m ctx wr w)))" for rq
          by (auto intro: answer_v2_keeps answer_streaming_keeps)
        then show ?thesis using False Inr sm other r by (auto simp: answer_def Let_def)
      qed (use False Inr sm other assms in \<open>simp add: answer_def\<close>)
    qed
  qed (use False assms in \<open>simp add: answer_def\<close>)
qed (use assms in \<open>auto simp: answer_def split: option.split\<close>)

lemma handleRequest_keeps:
  assumes "P w"
  shows "P (snd (snd (handleRequest e text_of ctx item en w)))"
proof -
  obtain req derr where d: "(case item of Value j \<Rightarrow> decode_request j | Garbage err \<Rightarrow> (empty_request, Some err)) = (req, derr)"
    by fastforce
  show ?thesis
  proof (cases derr)
    case None
    then show ?thesis
      using d answer_keeps [OF assms, of text_of ctx req "newResponseWriter en"]
      by (cases "answer e text_of ctx req (newResponseWriter en) w") (simp add: handleRequest_def Let_def)
  qed (use d assms in \<open>simp add: handleRequest_def Let_def split: prod.split option.split\<close>)
qed

lemma ServePipes_keeps: "P w \<Longrightarrow> P (snd (snd (ServePipes e text_of ctx items en w)))"
proof (induction items arbitrary: en w)
  case (Cons item items)
  then show ?case
    using handleRequest_keeps [OF Cons.prems, of text_of ctx item en]
    by (auto split: prod.split request_end.split option.split)
qed simp

lemma ServeHTTP_keeps: "P w \<Longrightarrow> P (snd (snd (ServeHTTP e text_of meth header body fails w)))"
  using handleRequest_keeps [of w text_of header "hd body"]
  by (auto simp: ServeHTTP_def Let_def split: prod.split list.split) (metis snd_conv)

end

text \<open>One HTTP request, whatever it holds, and the state it leaves.\<close>

definition requested :: "('i, 'w) Endpoint \<Rightarrow> 'w \<Rightarrow> 'w \<Rightarrow> bool" where
  "requested e w w' \<longleftrightarrow> (\<exists>text_of meth header body fails.
     w' = snd (snd (ServeHTTP e text_of meth header body fails w)))"

context kept_by
begin

lemma requests_keep:
  assumes "(requested e)\<^sup>*\<^sup>* w w'" "P w"
  shows "P w'"
  using assms by (induction rule: rtranclp_induct) (auto simp: requested_def intro: ServeHTTP_keeps)

end

subsection \<open>The analyzer service\<close>

lemma keeps_plain_impl:
  assumes "\<And>i w r w1. P w \<Longrightarrow> f i w = Ret (r, w1) \<Longrightarrow> P w1"
  shows "keeps P (plain_impl cin wrap cout f)"
  using assms by (force simp: keeps_def plain_impl_def split: go.split prod.split)

lemma keeps_stream_impl:
  assumes "\<And>i w r w1. P w \<Longrightarrow> f i w = Ret (r, w1) \<Longrightarrow> P w1"
  shows "keeps P (stream_impl cin wrap cout f)"
  using assms by (force simp: keeps_def stream_impl_def split: go.split prod.split)

lemma keeps_registered:
  assumes "m \<in> set (s_Methods (snd (Register \<lparr>s_Name = name, s_Methods = []\<rparr> h)))"
    and "\<And>rm. rm \<in> set (h_methods h) \<Longrightarrow> keeps P (rm_impl rm)"
  shows "keeps P m"
  using Register_methods [OF assms(1)] assms(2) by (auto simp: keeps_def)

definition at_home :: "'w os \<Rightarrow> string \<Rightarrow> 'w \<Rightarrow> bool" where
  "at_home os d w \<longleftrightarrow> (returns_home os \<longrightarrow> Getwd os w = Inr d)"

lemma Analyze_at_home:
  assumes "at_home os d w" "Dispatcher.Analyze os s inp w = Ret (r, w1)"
  shows "at_home os d w1"
  unfolding at_home_def
proof
  assume os: "returns_home os"
  then have d: "Getwd os w = Inr d" using assms(1) by (simp add: at_home_def)
  obtain ctx root where r: "areq_context inp = Some ctx" "ctx_repo_root ctx = Some root"
    using assms(2) by (auto simp: Dispatcher.Analyze_def go_bind_Ret_iff deref_def split: option.splits)
  obtain err w2 where c: "Chdir os root w = (err, w2)" by fastforce
  then have cd: "ChangeDir os root w = ((d, Some d, err), w2)" using d by (simp add: ChangeDir_def)
  show "Getwd os w1 = Inr d"
  proof (cases err)
    case None
    then obtain w3 where "w1 = snd (restore_dir os (Some d) w3)"
      using assms(2) r cd by (auto simp: Dispatcher.Analyze_def go_bind_Ret_iff)
    then show ?thesis using restore_dir_home [OF os d cd] by simp
  next
    case (Some e)
    then have "w1 = w2" using assms(2) r cd by (simp add: Dispatcher.Analyze_def)
    then show ?thesis using os d c Some unfolding returns_home_def by (metis fst_conv option.simps(3) snd_conv)
  qed
qed

lemma Analyze_keeps: "keeps (at_home os d) (Analyze_impl os s)"
  unfolding Analyze_impl_def
proof (rule keeps_plain_impl)
  fix i w r w1
  assume "at_home os d w" "(case i of Analyze_in req \<Rightarrow> Dispatcher.Analyze os s req w | _ \<Rightarrow> Panic ''not a request'') = Ret (r, w1)"
  then show "at_home os d w1" by (cases i) (auto intro: Analyze_at_home)
qed

interpretation analyzers: kept_by "analyzer_endpoint os s" "at_home os d" for os s d
proof unfold_locales
  fix svc and m :: "(rpc_input, 'a) Method"
  assume "svc \<in> set (analyzer_endpoint os s)" "m \<in> set (s_Methods svc)"
  then have m: "m \<in> set (s_Methods (snd (Register \<lparr>s_Name = ''AnalyzerService'', s_Methods = []\<rparr> (analyzer_handler os s))))"
    by (simp add: analyzer_endpoint_def)
  show "keeps (at_home os d) m"
    by (rule keeps_registered [OF m])
      (auto simp: analyzer_handler_def Let_def GetCategory_impl_def GetStage_impl_def Analyze_keeps intro!: keeps_plain_impl)
qed

lemma analyzers_at_home:
  assumes "(requested (analyzer_endpoint os s))\<^sup>*\<^sup>* w w'" "returns_home os" "Getwd os w = Inr d"
  shows "Getwd os w' = Inr d"
  using analyzers.requests_keep [OF assms(1), of d] assms(2,3) by (simp add: at_home_def)

subsection \<open>The shipshape service\<close>

definition service_ok :: "'w driver_env \<Rightarrow> ShipshapeDriver \<Rightarrow> string \<Rightarrow> 'w \<times> ShipshapeDriver \<Rightarrow> bool" where
  "service_ok env sd0 d st \<longleftrightarrow> at_home (de_os env) d (fst st)
     \<and> (driver_orders env \<longrightarrow> driver_ok sd0 (snd st))"

lemma driver_Run_ok:
  assumes "service_ok env sd0 d st" "driver_Run env i st = Ret (r, st1)"
  shows "service_ok env sd0 d st1"
proof -
  obtain req res sd w where run: "Driver.Run env (snd st) req (fst st) = Ret (res, sd, w)" and st1: "st1 = (w, sd)"
    using assms(2) by (cases i) (auto simp: driver_Run_def go_bind_Ret_iff)
  have "driver_ok sd0 sd" if "driver_orders env"
  proof (rule driver_ok_trans)
    show start: "driver_ok sd0 (snd st)" using assms(1) that by (simp add: service_ok_def)
    show "driver_ok (snd st) sd" using Run_driver_ok [OF run that] start by (simp add: driver_ok_def)
  qed
  moreover have "at_home (de_os env) d w"
    using assms(1) Run_home [OF _ _ run] by (simp add: service_ok_def at_home_def)
  ultimately show ?thesis using st1 by (simp add: service_ok_def)
qed

interpretation service: kept_by "shipshape_endpoint env" "service_ok env sd0 d" for env sd0 d
proof unfold_locales
  fix svc and m :: "(rpc_input, 'a \<times> ShipshapeDriver) Method"
  assume "svc \<in> set (shipshape_endpoint env)" "m \<in> set (s_Methods svc)"
  then have m: "m \<in> set (s_Methods (snd (Register \<lparr>s_Name = ''ShipshapeService'', s_Methods = []\<rparr> (shipshape_handler env))))"
    by (simp add: shipshape_endpoint_def)
  show "keeps (service_ok env sd0 d) m"
    by (rule keeps_registered [OF m])
      (auto simp: shipshape_handler_def Let_def driver_GetCategory_def go_bind_Ret_iff
        intro!: keeps_plain_impl keeps_stream_impl dest: driver_Run_ok)
qed

subsection \<open>Properties\<close>

text \<open>C19: whatever is sent to the service over HTTP, request after request, its driver stays well-formed:
  its analyzers and its (empty) service map stay, its default categories stay a set and only ever
  get fewer, starting from the six the program has; and between requests the process is in the
  directory it was started in.\<close>

theorem service_invariant:
  assumes "(requested (shipshape_endpoint env))\<^sup>*\<^sup>* (w0, service_driver analyzers) (w, sd)"
    and "driver_orders env" "returns_home (de_os env)" "Getwd (de_os env) w0 = Inr d"
  shows "wf_set (defaultCategories sd) \<and> AnalyzerLocations sd = map (\<lambda>addr. TrimPrefix addr ''http://'') (Split analyzers '','')
    \<and> serviceMap sd = []
    \<and> {c. Set_Contains (defaultCategories sd) c} \<subseteq> {''CheckstyleGoogle'', ''ErrorProne'', ''CodeAlert'', ''JSHint'', ''PyLint'', ''go vet''}
    \<and> Getwd (de_os env) w = Inr d"
proof -
  have "service_ok env (service_driver analyzers) d (w0, service_driver analyzers)"
    using assms(4) driver_ok_start by (simp add: service_ok_def at_home_def)
  from service.requests_keep [OF assms(1) this] assms(2,3)
  have ok: "driver_ok (service_driver analyzers) sd" "Getwd (de_os env) w = Inr d"
    by (simp_all add: service_ok_def at_home_def)
  show ?thesis
    using driver_ok_service [OF ok(1)] ok(2) by (elim conjE) (intro conjI)
qed

theorem service_invariant_witness:
  "\<exists>w sd. (w, sd) = snd (snd (ServeHTTP (shipshape_endpoint (demo_env ''IDE'' [''go vet''])) (\<lambda>r. []) ''POST'' []
        [Value (encode_request (client_request Version2Streaming 0 ''/ShipshapeService/Run''
           (marshal ShipshapeRequest_codec (demo_request [] ''manual''))))] (\<lambda>n. None)
        (''/home'', service_driver ''localhost:10005'')))
     \<and> {c. Set_Contains (defaultCategories sd) c} \<subseteq> {''CheckstyleGoogle'', ''ErrorProne'', ''CodeAlert'', ''JSHint'', ''PyLint'', ''go vet''}
     \<and> Getwd (de_os (demo_env ''IDE'' [''go vet''])) w = Inr ''/home''"
proof -
  let ?env = "demo_env ''IDE'' [''go vet'']"
  obtain w sd where r: "snd (snd (ServeHTTP (shipshape_endpoint ?env) (\<lambda>r. []) ''POST'' []
        [Value (encode_request (client_request Version2Streaming 0 ''/ShipshapeService/Run''
           (marshal ShipshapeRequest_codec (demo_request [] ''manual''))))] (\<lambda>n. None)
        (''/home'', service_driver ''localhost:10005''))) = (w, sd)" by (rule prod.exhaust)
  then have "requested (shipshape_endpoint ?env) (''/home'', service_driver ''localhost:10005'') (w, sd)"
    unfolding requested_def by metis
  note s = r_into_rtranclp [of "requested (shipshape_endpoint ?env)", OF this]
  have h: "returns_home (de_os ?env)" "Getwd (de_os ?env) ''/home'' = Inr ''/home''"
    using returns_home_plain_os by (simp_all add: returns_home_def demo_env_def plain_os_def)
  from service_invariant [OF s driver_orders_demo h] r [symmetric] show ?thesis by blast
qed

end
