(* ===== verification/Overlap.thy ===== *)
theory Overlap
  imports Driver Steps
begin

text \<open>
  Runs of the service at the same time.  Go's HTTP server answers every request in a goroutine of its
  own, so two calls of \<open>ShipshapeDriver.Run\<close> can overlap, but the working directory that
  \<open>file.ChangeDir\<close> changes is that of the whole process.  A run is three steps here, as far as it has to
  do with that directory: it enters the root of its repository, loads the configuration, whose name is
  relative, and goes back to where \<open>ChangeDir\<close> found the process.
\<close>

subsection \<open>The step relation\<close>

text \<open>What the deferred call goes back to is the \<open>restore\<close> of \<open>ChangeDir\<close>.\<close>

datatype visit =
    Waiting
  | Refused string
  | Entered "string option"
  | Loaded "string option" "string + config option"
  | Left "string + config option"

fun inside :: "visit \<Rightarrow> bool" where
  "inside (Entered restore) \<longleftrightarrow> True"
| "inside (Loaded restore cfg) \<longleftrightarrow> True"
| "inside _ \<longleftrightarrow> False"

text \<open>A request is a root and an event.  With \<open>apart\<close> a run only enters when no other is inside, as a
  lock around \<open>Run\<close> would have it; the program has no such lock.\<close>

inductive visit_step ::
  "bool \<Rightarrow> 'w driver_env \<Rightarrow> (string \<times> string) list \<Rightarrow> visit list \<times> 'w \<Rightarrow> visit list \<times> 'w \<Rightarrow> bool"
  for apart env reqs where
  enter: "i < length vs \<Longrightarrow> vs ! i = Waiting \<Longrightarrow> apart \<longrightarrow> (\<forall>v \<in> set vs. \<not> inside v) \<Longrightarrow>
    ChangeDir (de_os env) (fst (reqs ! i)) w = ((org, restore, None), w1) \<Longrightarrow>
    visit_step apart env reqs (vs, w) (vs[i := Entered restore], w1)"
| refuse: "i < length vs \<Longrightarrow> vs ! i = Waiting \<Longrightarrow> apart \<longrightarrow> (\<forall>v \<in> set vs. \<not> inside v) \<Longrightarrow>
    ChangeDir (de_os env) (fst (reqs ! i)) w = ((org, restore, Some err), w1) \<Longrightarrow>
    visit_step apart env reqs (vs, w) (vs[i := Refused err], w1)"
| load: "i < length vs \<Longrightarrow> vs ! i = Entered restore \<Longrightarrow>
    visit_step apart env reqs (vs, w) (vs[i := Loaded restore (config_in env (snd (reqs ! i)) w)], w)"
| leave: "i < length vs \<Longrightarrow> vs ! i = Loaded restore cfg \<Longrightarrow>
    visit_step apart env reqs (vs, w) (vs[i := Left cfg], snd (restore_dir (de_os env) restore w))"

definition visits_start :: "(string \<times> string) list \<Rightarrow> 'w \<Rightarrow> visit list \<times> 'w" where
  "visits_start reqs w = (replicate (length reqs) Waiting, w)"

subsection \<open>One at a time\<close>

text \<open>The world right after entering the root of the request from home.\<close>

definition entered_at :: "'w driver_env \<Rightarrow> string \<Rightarrow> string \<Rightarrow> 'w \<Rightarrow> bool" where
  "entered_at env home root w \<longleftrightarrow>
     (\<exists>w0. Getwd (de_os env) w0 = Inr home \<and> Chdir (de_os env) root w0 = (None, w))"

definition own_config :: "'w driver_env \<Rightarrow> string \<Rightarrow> string \<times> string \<Rightarrow> string + config option \<Rightarrow> bool" where
  "own_config env home req cfg \<longleftrightarrow> (\<exists>w. entered_at env home (fst req) w \<and> cfg = config_in env (snd req) w)"

fun visit_ok :: "'w driver_env \<Rightarrow> string \<Rightarrow> 'w \<Rightarrow> string \<times> string \<Rightarrow> visit \<Rightarrow> bool" where
  "visit_ok env home w req (Entered restore) \<longleftrightarrow> restore = Some home \<and> entered_at env home (fst req) w"
| "visit_ok env home w req (Loaded restore cfg) \<longleftrightarrow> restore = Some home \<and> own_config env home req cfg"
| "visit_ok env home w req (Left cfg) \<longleftrightarrow> own_config env home req cfg"
| "visit_ok env home w req _ \<longleftrightarrow> True"

fun visits_ok :: "'w driver_env \<Rightarrow> string \<Rightarrow> (string \<times> string) list \<Rightarrow> visit list \<times> 'w \<Rightarrow> bool" where
  "visits_ok env home reqs (vs, w) \<longleftrightarrow> length vs = length reqs
     \<and> (\<forall>i < length vs. visit_ok env home w (reqs ! i) (vs ! i))
     \<and> (\<forall>i < length vs. \<forall>j < length vs. inside (vs ! i) \<longrightarrow> inside (vs ! j) \<longrightarrow> i = j)
     \<and> ((\<forall>v \<in> set vs. \<not> inside v) \<longrightarrow> Getwd (de_os env) w = Inr home)"

lemma visit_ok_outside: "\<not> inside v \<Longrightarrow> visit_ok env home w req v = visit_ok env home w' req v"
  by (cases v) auto

lemma ChangeDir_home:
  "Getwd os w = Inr d \<Longrightarrow> ChangeDir os root w = ((d, Some d, fst (Chdir os root w)), snd (Chdir os root w))"
  by (simp add: ChangeDir_def split: prod.split)

lemma none_inside: "(\<forall>v \<in> set vs. \<not> inside v) \<longleftrightarrow> (\<forall>i < length vs. \<not> inside (vs ! i))"
  by (auto simp: all_set_conv_all_nth)

lemma visits_ok_step:
  assumes "visit_step True env reqs s t" "visits_ok env home reqs s" "returns_home (de_os env)"
  shows "visits_ok env home reqs t"
  using assms(1,2)
proof cases
  case (enter i vs w org restore w1)
  then have out: "\<not> inside (vs ! j)" if "j < length vs" for j using that by (simp add: none_inside)
  have home: "Getwd (de_os env) w = Inr home" using assms(2) enter by simp
  then have r: "restore = Some home" "Chdir (de_os env) (fst (reqs ! i)) w = (None, w1)"
    using enter(6) by (auto simp: ChangeDir_home prod_eq_iff)
  have "visit_ok env home w1 (reqs ! j) (vs[i := Entered restore] ! j)" if "j < length vs" for j
    using assms(2) enter(1,3) that r home out [OF that] visit_ok_outside [OF out [OF that], of env home w1 _ w]
    by (auto simp: nth_list_update entered_at_def)
  then show ?thesis using assms(2) enter out by (auto simp: none_inside nth_list_update)
next
  case (refuse i vs w org restore err w1)
  then have out: "\<not> inside (vs ! j)" if "j < length vs" for j using that by (simp add: none_inside)
  have home: "Getwd (de_os env) w = Inr home" using assms(2) refuse by simp
  then have "fst (Chdir (de_os env) (fst (reqs ! i)) w) = Some err" "snd (Chdir (de_os env) (fst (reqs ! i)) w) = w1"
    using refuse(6) by (simp_all add: ChangeDir_home)
  then have "Getwd (de_os env) w1 = Inr home" using assms(3) home unfolding returns_home_def by (metis option.simps(3))
  moreover have "visit_ok env home w1 (reqs ! j) (vs[i := Refused err] ! j)" if "j < length vs" for j
    using assms(2) refuse(1,3) that visit_ok_outside [OF out [OF that], of env home w1 _ w]
    by (auto simp: nth_list_update)
  ultimately show ?thesis using assms(2) refuse out by (auto simp: none_inside nth_list_update)
next
  case (load i vs restore w)
  have "visit_ok env home w (reqs ! i) (vs ! i)" using assms(2) load(1,3) by simp
  then have "restore = Some home" "own_config env home (reqs ! i) (config_in env (snd (reqs ! i)) w)"
    using load(4) by (auto simp: own_config_def)
  moreover have "inside (vs ! i)" using load(4) by simp
  ultimately show ?thesis using assms(2) load by (auto simp: none_inside nth_list_update)
next
  case (leave i vs restore cfg w)
  have i: "restore = Some home" "own_config env home (reqs ! i) cfg"
    using assms(2) leave by fastforce+
  have out: "\<not> inside (vs ! j)" if "j < length vs" "j \<noteq> i" for j
    using assms(2) leave that by fastforce
  obtain w0 where "Getwd (de_os env) w0 = Inr home" using i(2) by (auto simp: own_config_def entered_at_def)
  then have home: "Getwd (de_os env) (snd (restore_dir (de_os env) restore w)) = Inr home"
    using assms(3) i(1) unfolding returns_home_def by (simp add: restore_dir_def)
  have ok: "visit_ok env home w2 (reqs ! j) (vs[i := Left cfg] ! j)" if "j < length vs" for j w2
    using assms(2) leave(1) that i(2) out [OF that] visit_ok_outside [of "vs ! j" env home w2 _ w]
    by (cases "j = i") (auto simp: nth_list_update)
  have none: "\<not> inside (vs[i := Left cfg] ! j)" if "j < length vs" for j
    using out that by (cases "j = i") auto
  have "length vs = length reqs" using assms(2) leave(1) by simp
  then show ?thesis using home ok none leave(2) by (simp add: none_inside)
qed

text \<open>Every schedule ends.\<close>

fun visit_left :: "visit \<Rightarrow> nat" where
  "visit_left Waiting = 3"
| "visit_left (Entered restore) = 2"
| "visit_left (Loaded restore cfg) = 1"
| "visit_left _ = 0"

definition visits_left :: "visit list \<times> 'w \<Rightarrow> nat" where
  "visits_left st = sum_list (map visit_left (fst st))"

lemma visits_left_step: "visit_step apart env reqs s t \<Longrightarrow> visits_left t < visits_left s"
  by (cases rule: visit_step.cases, assumption) (simp_all add: visits_left_def sum_update_less)

definition visits_inv :: "'w driver_env \<Rightarrow> string \<Rightarrow> (string \<times> string) list \<Rightarrow> 'w \<Rightarrow> visit list \<times> 'w \<Rightarrow> bool" where
  "visits_inv env home reqs w0 st \<longleftrightarrow>
     (returns_home (de_os env) \<and> Getwd (de_os env) w0 = Inr home \<longrightarrow> visits_ok env home reqs st)"

interpretation visits: step_system "visit_step True env reqs" "visits_start reqs w0" "visits_inv env home reqs w0" visits_left
  for env reqs w0 home
proof unfold_locales
  show "visits_inv env home reqs w0 (visits_start reqs w0)"
    by (simp add: visits_inv_def visits_start_def)
qed (auto simp: visits_inv_def dest: visits_ok_step intro: visits_left_step)

lemma visits_stuck:
  assumes "stuck (visit_step True env reqs) (vs, w)" "visits_ok env home reqs (vs, w)" "v \<in> set vs"
  shows "(\<exists>cfg. v = Left cfg) \<or> (\<exists>err. v = Refused err)"
proof -
  have free: "\<not> inside v" if v: "v \<in> set vs" for v
  proof -
    obtain i where i: "i < length vs" "vs ! i = v" using v by (auto simp: in_set_conv_nth)
    show ?thesis
    proof (cases v)
      case (Entered restore)
      then show ?thesis using i assms(1) visit_step.load [OF i(1), of restore True env reqs w] by (simp add: stuck_def)
    next
      case (Loaded restore cfg)
      then show ?thesis using i assms(1) visit_step.leave [OF i(1), of restore cfg True env reqs w] by (simp add: stuck_def)
    qed simp_all
  qed
  have "v \<noteq> Waiting"
  proof
    assume "v = Waiting"
    then obtain i where i: "i < length vs" "vs ! i = Waiting" using assms(3) by (auto simp: in_set_conv_nth)
    obtain org restore err w1 where "ChangeDir (de_os env) (fst (reqs ! i)) w = ((org, restore, err), w1)"
      by (metis surj_pair)
    then show False
      using assms(1) i free visit_step.enter [of i vs True env reqs w] visit_step.refuse [of i vs True env reqs w]
      unfolding stuck_def by (cases err) blast+
  qed
  then show ?thesis using free [OF assms(3)] by (cases v) auto
qed

subsection \<open>Properties\<close>

text \<open>Runs that do not overlap, in whatever order they come: each loads the configuration of its own
  repository, entered from home, at most one is inside at any time, the process is home whenever none
  is, every schedule can be finished, and a finished one has let every run through or refused it.\<close>

theorem runs_apart:
  assumes "(visit_step True env reqs)\<^sup>*\<^sup>* (visits_start reqs w0) (vs, w)"
    and "returns_home (de_os env)" "Getwd (de_os env) w0 = Inr home"
  shows "length vs = length reqs
    \<and> (\<forall>i < length reqs. \<forall>cfg. vs ! i = Left cfg \<longrightarrow> own_config env home (reqs ! i) cfg)
    \<and> (\<forall>i < length reqs. \<forall>j < length reqs. inside (vs ! i) \<longrightarrow> inside (vs ! j) \<longrightarrow> i = j)
    \<and> ((\<forall>v \<in> set vs. \<not> inside v) \<longrightarrow> Getwd (de_os env) w = Inr home)
    \<and> (\<exists>st. (visit_step True env reqs)\<^sup>*\<^sup>* (vs, w) st \<and> stuck (visit_step True env reqs) st)
    \<and> (stuck (visit_step True env reqs) (vs, w) \<longrightarrow>
        (\<forall>v \<in> set vs. (\<exists>cfg. v = Left cfg) \<or> (\<exists>err. v = Refused err)))"
proof -
  have inv: "visits_inv env home reqs w0 (vs, w)" by (rule visits.reachable_inv [OF assms(1)])
  then have ok: "visits_ok env home reqs (vs, w)" using assms(2,3) by (simp add: visits_inv_def)
  have "own_config env home (reqs ! i) cfg" if "i < length reqs" "vs ! i = Left cfg" for i cfg
    using ok that by fastforce
  then show ?thesis using ok visits.ends [OF inv] visits_stuck [OF _ ok] by simp
qed

text \<open>Two repositories with configurations of their own: each ignores the directory it was read in.\<close>

definition twin_env :: "string driver_env" where
  "twin_env = (demo_env ''manual'' [''go vet''])
     \<lparr>de_os := plain_os\<lparr>ReadFile := (\<lambda>f w. FileContent w)\<rparr>,
      de_yaml := (\<lambda>c. Inr \<lparr>sc_global = Some \<lparr>gc_images = [], gc_ignore = [c]\<rparr>,
                          sc_events = [\<lparr>ec_event = Some ''manual'', ec_categories = [''go vet'']\<rparr>]\<rparr>)\<rparr>"

definition twins :: "(string \<times> string) list" where
  "twins = [(''/one'', ''manual''), (''/two'', ''manual'')]"

lemma twin_env_laws:
  "returns_home (de_os twin_env)" "Getwd (de_os twin_env) w = Inr w" "Chdir (de_os twin_env) d w = (None, d)"
  by (simp_all add: twin_env_def returns_home_def plain_os_def)

theorem runs_apart_witness:
  "\<exists>st. (visit_step True twin_env twins)\<^sup>*\<^sup>* ([Entered (Some ''/home''), Waiting], ''/one'') st
     \<and> stuck (visit_step True twin_env twins) st"
proof -
  have "visit_step True twin_env twins (visits_start twins ''/home'') ([Waiting, Waiting][0 := Entered (Some ''/home'')], ''/one'')"
    unfolding visits_start_def twins_def
    by (simp del: list_update.simps, rule visit_step.enter) (simp_all add: ChangeDir_def twin_env_laws)
  then have "(visit_step True twin_env twins)\<^sup>*\<^sup>* (visits_start twins ''/home'') ([Entered (Some ''/home''), Waiting], ''/one'')"
    by auto
  from runs_apart [OF this twin_env_laws(1,2)] show ?thesis by (elim conjE)
qed

text \<open>C22: runs that overlap: when a second request enters its repository before the first has loaded its
  configuration, the first runs with the configuration of the second's repository; and when the first
  leaves before the second, the process ends up in the first's repository and not at home.\<close>

theorem runs_overlap:
  assumes "Getwd (de_os env) w = Inr home" "Chdir (de_os env) root1 w = (None, w1)"
    and "Getwd (de_os env) w1 = Inr d1" "Chdir (de_os env) root2 w1 = (None, w2)" "returns_home (de_os env)"
  shows "\<exists>cfg2 w'. (visit_step False env [(root1, event1), (root2, event2)])\<^sup>*\<^sup>*
        (visits_start [(root1, event1), (root2, event2)] w) ([Left (config_in env event1 w2), Left cfg2], w')
    \<and> Getwd (de_os env) w' = Inr d1"
proof -
  let ?reqs = "[(root1, event1), (root2, event2)]"
  let ?step = "visit_step False env ?reqs" and ?c1 = "config_in env event1 w2"
  define w3 where "w3 = snd (restore_dir (de_os env) (Some home) w2)"
  define c2 where "c2 = config_in env event2 w3"
  define w4 where "w4 = snd (restore_dir (de_os env) (Some d1) w3)"
  have "?step ([Waiting, Waiting], w) ([Entered (Some home), Waiting], w1)"
    using visit_step.enter [of 0 "[Waiting, Waiting]" False env ?reqs w home "Some home" w1] assms(1,2)
    by (simp add: ChangeDir_def)
  moreover have "?step ([Entered (Some home), Waiting], w1) ([Entered (Some home), Entered (Some d1)], w2)"
    using visit_step.enter [of 1 "[Entered (Some home), Waiting]" False env ?reqs w1 d1 "Some d1" w2] assms(3,4)
    by (simp add: ChangeDir_def)
  moreover have "?step ([Entered (Some home), Entered (Some d1)], w2) ([Loaded (Some home) ?c1, Entered (Some d1)], w2)"
    using visit_step.load [of 0 "[Entered (Some home), Entered (Some d1)]" "Some home" False env ?reqs w2] by simp
  moreover have "?step ([Loaded (Some home) ?c1, Entered (Some d1)], w2) ([Left ?c1, Entered (Some d1)], w3)"
    using visit_step.leave [of 0 "[Loaded (Some home) ?c1, Entered (Some d1)]" "Some home" ?c1 False env ?reqs w2]
    by (simp add: w3_def)
  moreover have "?step ([Left ?c1, Entered (Some d1)], w3) ([Left ?c1, Loaded (Some d1) c2], w3)"
    using visit_step.load [of 1 "[Left ?c1, Entered (Some d1)]" "Some d1" False env ?reqs w3] by (simp add: c2_def)
  moreover have "?step ([Left ?c1, Loaded (Some d1) c2], w3) ([Left ?c1, Left c2], w4)"
    using visit_step.leave [of 1 "[Left ?c1, Loaded (Some d1) c2]" "Some d1" c2 False env ?reqs w3] by (simp add: w4_def)
  ultimately have "?step\<^sup>*\<^sup>* (visits_start ?reqs w) ([Left ?c1, Left c2], w4)"
    by (simp add: visits_start_def numeral_2_eq_2 converse_rtranclp_into_rtranclp)
  moreover have "Getwd (de_os env) w4 = Inr d1"
    using assms(3,5) unfolding returns_home_def w4_def by (simp add: restore_dir_def)
  ultimately show ?thesis by blast
qed

theorem runs_overlap_witness:
  "\<exists>cfg2 w'. (visit_step False twin_env twins)\<^sup>*\<^sup>* (visits_start twins ''/home'')
       ([Left (config_in twin_env ''manual'' ''/two''), Left cfg2], w')
     \<and> config_in twin_env ''manual'' ''/two'' \<noteq> config_in twin_env ''manual'' ''/one''
     \<and> Getwd (de_os twin_env) w' = Inr ''/one''"
proof -
  have "config_in twin_env ''manual'' ''/two'' \<noteq> config_in twin_env ''manual'' ''/one''"
    by code_simp
  then show ?thesis
    using runs_overlap [where env = twin_env and w = "''/home''" and home = "''/home''" and ?root1.0 = "''/one''"
        and ?w1.0 = "''/one''" and ?d1.0 = "''/one''" and ?root2.0 = "''/two''" and ?w2.0 = "''/two''"
        and ?event1.0 = "''manual''" and ?event2.0 = "''manual''", OF twin_env_laws(2,3,2,3,1)]
    by (auto simp: twins_def)
qed

end
