(* ===== verification/StreamCalls.thy ===== *)
theory StreamCalls
  imports Endpoint Steps
begin

text \<open>
  The streaming half of \<open>Method.Invoke\<close> in \<open>shipshape/util/rpc/server/service.go\<close> as it runs: a goroutine
  receives the outputs from an unbuffered channel and writes them, while the handler sends
  them.  A handler that returns has its channel closed, and \<open>Invoke\<close> waits for the goroutine; a handler that
  panics unwinds through \<open>Invoke\<close>, which then does neither, and \<open>handleRequest\<close> of \<open>endpoint.go\<close> writes
  the error while the goroutine may still be at work.  Nothing guards the writer they share, so the steps
  here are those of \<open>write\<close> and \<open>pError\<close>: looking whether the answer is finished, encoding a
  response, and marking the answer as finished.

  Encoding one response is one step; that two encoders at work at once could mix the bytes of their responses
  is not modelled, nor that over HTTP the response is closed once the request was answered, so that what is written
  later is lost.
\<close>

subsection \<open>Writing a response in two steps\<close>

definition wr_check :: "Request \<Rightarrow> responseWriter \<Rightarrow> string option" where
  "wr_check req w =
     (if wr_results w > 0 \<and> rq_version req \<noteq> Version2Streaming
      then Some ''attempt to write multiple results in non-streaming protocol''
      else if wr_finished w then Some ''attempt to write result after stream is complete''
      else None)"

definition wr_encode :: "Request \<Rightarrow> Response \<Rightarrow> responseWriter \<Rightarrow> string option \<times> responseWriter" where
  "wr_encode req resp w =
     (case sink_encode (encode_response (stamp req resp)) (wr_en w) of
        (Some err, en) \<Rightarrow> (Some (''error encoding response: '' @ err), w\<lparr>wr_en := en\<rparr>)
      | (None, en) \<Rightarrow> (None, w\<lparr>wr_en := en, wr_results := wr_results w + 1\<rparr>))"

lemma wr_write_parts:
  "wr_write req resp w = (case wr_check req w of Some e \<Rightarrow> (Some e, w) | None \<Rightarrow> wr_encode req resp w)"
  by (simp add: wr_write_def wr_check_def wr_encode_def stamp_def Let_def)

lemma stream_out_parts:
  "stream_out req v (oe, wr) = (if oe \<noteq> None then (oe, wr)
     else case wr_check req wr of Some e \<Rightarrow> (Some e, wr) | None \<Rightarrow> wr_encode req (result_response v) wr)"
  by (simp add: stream_out_def wr_Result_def wr_write_parts result_response_def split: option.split)

subsection \<open>The step relation\<close>

text \<open>
  The handler and what comes after it: sending, waiting for the goroutine, the three steps of writing the
  error of a panic, answered; or the process has died.  The goroutine: receiving, holding an output, about to encode it, over.
  They share the error of the last result written and the writer.
\<close>

datatype caller = Calling "json list" | Waiting | Failing | Erring | Marking | Answered | Dead

datatype passer = Receiving | Passing json | Encoding json | Over

type_synonym call_state = "caller \<times> passer \<times> string option \<times> responseWriter"

text \<open>The rest of a streaming answer: the error of a panic, or of a response that could not be written, or the
  end of the stream.\<close>

definition finish_streaming :: "Request \<Rightarrow> handler_end \<Rightarrow> string option \<times> responseWriter \<Rightarrow> string option \<times> responseWriter" where
  "finish_streaming req fin s = (case s of (outErr, wr1) \<Rightarrow>
     (case fin of
        Panics p \<Rightarrow> recover_panic req p wr1
      | Unencodable _ \<Rightarrow> (outErr, wr1)
      | Returns err \<Rightarrow>
          (case outErr of
             Some oe \<Rightarrow> recover_panic req (PanicError oe) wr1
           | None \<Rightarrow> (case err of
                 Some e \<Rightarrow> write_handler_error req e wr1
               | None \<Rightarrow> wr_Success req wr1))))"

definition stream_rest :: "Request \<Rightarrow> handler_end \<Rightarrow> string option \<times> responseWriter \<Rightarrow> string option \<times> responseWriter" where
  "stream_rest req fin s = (fst s, snd (finish_streaming req fin s))"

text \<open>What the goroutine does with an output: after an error it drops it, otherwise it writes it.\<close>

inductive pass_step ::
  "Request \<Rightarrow> passer \<times> string option \<times> responseWriter \<Rightarrow> passer \<times> string option \<times> responseWriter \<Rightarrow> bool"
  for req where
  skip: "oe \<noteq> None \<Longrightarrow> pass_step req (Passing v, oe, wr) (Receiving, oe, wr)"
| refuse: "wr_check req wr = Some e \<Longrightarrow> pass_step req (Passing v, None, wr) (Receiving, Some e, wr)"
| check: "wr_check req wr = None \<Longrightarrow> pass_step req (Passing v, None, wr) (Encoding v, None, wr)"
| encode: "wr_encode req (result_response v) wr = (err, wr1) \<Longrightarrow> pass_step req (Encoding v, oe, wr) (Receiving, err, wr1)"

inductive stream_step :: "Request \<Rightarrow> handler_end \<Rightarrow> call_state \<Rightarrow> call_state \<Rightarrow> bool"
  for req fin where
  handoff: "stream_step req fin (Calling (v # vs), Receiving, s) (Calling vs, Passing v, s)"
| pass: "pass_step req (p, s) (p', s') \<Longrightarrow> stream_step req fin (c, p, s) (c, p', s')"
| close: "fin = Returns err \<Longrightarrow> stream_step req fin (Calling [], p, s) (Waiting, p, s)"
| over: "stream_step req fin (Waiting, Receiving, s) (Waiting, Over, s)"
| wait: "stream_step req fin (Waiting, Over, s) (Answered, Over, stream_rest req fin s)"
| unwind: "fin = Panics v \<Longrightarrow> stream_step req fin (Calling [], p, s) (Failing, p, s)"
| fail_refused: "wr_check req wr = Some e
    \<Longrightarrow> stream_step req fin (Failing, p, oe, wr) (Answered, p, oe, wr)"
| fail_check: "wr_check req wr = None
    \<Longrightarrow> stream_step req fin (Failing, p, oe, wr) (Erring, p, oe, wr)"
| fail_encode: "wr_encode req (error_response (end_error fin)) wr = (err, wr1)
    \<Longrightarrow> stream_step req fin (Erring, p, oe, wr) (if err = None then Marking else Answered, p, oe, wr1)"
| mark: "stream_step req fin (Marking, p, oe, wr) (Answered, p, oe, wr\<lparr>wr_finished := True\<rparr>)"
| die: "fin = Unencodable err \<Longrightarrow> stream_step req fin (Calling [], Receiving, s) (Dead, Receiving, s)"

inductive_cases pass_stepE: "pass_step req s t"
inductive_cases stream_stepE: "stream_step req fin s t"

definition call_start :: "json list \<Rightarrow> string option \<times> responseWriter \<Rightarrow> call_state" where
  "call_start outs s0 = (Calling outs, Receiving, s0)"

text \<open>The three steps of the caller are \<open>pError\<close>, when nothing comes between them.\<close>

lemma recover_parts:
  "recover_panic req p wr = (case wr_check req wr of
     Some e \<Rightarrow> (Some e, wr)
   | None \<Rightarrow> (case wr_encode req (error_response (end_error (Panics p))) wr of
       (Some e, wr1) \<Rightarrow> (Some e, wr1)
     | (None, wr1) \<Rightarrow> (None, wr1\<lparr>wr_finished := True\<rparr>)))"
  by (cases p) (auto simp: recover_panic_def wr_Error_def wr_pError_def wr_write_parts error_response_def end_error_def
      split: option.splits prod.splits)

lemma answer_streaming_finish:
  assumes "decode_input m (rq_params req) = Inr v" "m_Stream m" "m_callStream m ctx v w = ((outs, fin), w1)" "encodable fin"
  shows "answer_streaming req m ctx wr w
    = handled (finish_streaming req fin (fold (stream_out req) outs (None, wr))) w1"
  using assms
  by (cases "fold (stream_out req) outs (None, wr)")
    (auto simp: answer_streaming_def Invoke_def finish_streaming_def split: handler_end.splits option.splits)

subsection \<open>Invariant and weight\<close>

fun pending :: "passer \<Rightarrow> json list" where
  "pending (Passing v) = [v]"
| "pending (Encoding v) = [v]"
| "pending _ = []"

text \<open>The shared state while the handler is not done with: the outputs passed on, one after another.\<close>

definition passed :: "Request \<Rightarrow> json list \<Rightarrow> string option \<times> responseWriter \<Rightarrow> json list \<Rightarrow> passer
     \<Rightarrow> string option \<times> responseWriter \<Rightarrow> bool" where
  "passed req outs s0 left p s \<longleftrightarrow> p \<noteq> Over
     \<and> (\<exists>sent. outs = sent @ pending p @ left \<and> s = fold (stream_out req) sent s0)
     \<and> (\<forall>v. p = Encoding v \<longrightarrow> fst s = None \<and> wr_check req (snd s) = None)"

fun call_inv :: "Request \<Rightarrow> handler_end \<Rightarrow> json list \<Rightarrow> string option \<times> responseWriter \<Rightarrow> call_state \<Rightarrow> bool" where
  "call_inv req fin outs s0 (Calling vs, p, s) \<longleftrightarrow> passed req outs s0 vs p s"
| "call_inv req fin outs s0 (Waiting, p, s) \<longleftrightarrow> (\<exists>err. fin = Returns err)
     \<and> (passed req outs s0 [] p s \<or> p = Over \<and> s = fold (stream_out req) outs s0)"
| "call_inv req fin outs s0 (Answered, p, s) \<longleftrightarrow> (\<forall>err. fin = Returns err \<longrightarrow>
     p = Over \<and> s = stream_rest req fin (fold (stream_out req) outs s0)) \<and> encodable fin"
| "call_inv req fin outs s0 (Dead, p, s) \<longleftrightarrow> \<not> encodable fin \<and> p = Receiving \<and> s = fold (stream_out req) outs s0"
| "call_inv req fin outs s0 (c, p, s) \<longleftrightarrow> (\<exists>pv. fin = Panics pv) \<and> p \<noteq> Over"

fun caller_left :: "handler_end \<Rightarrow> caller \<Rightarrow> nat" where
  "caller_left fin (Calling vs) = 3 * length vs + (case fin of Panics _ \<Rightarrow> 4 | _ \<Rightarrow> 2)"
| "caller_left fin Failing = 3"
| "caller_left fin Erring = 2"
| "caller_left fin Marking = 1"
| "caller_left fin Waiting = 1"
| "caller_left fin Answered = 0"
| "caller_left fin Dead = 0"

fun passer_left :: "passer \<Rightarrow> nat" where
  "passer_left (Passing v) = 3"
| "passer_left (Encoding v) = 2"
| "passer_left Receiving = 1"
| "passer_left Over = 0"

definition call_left :: "handler_end \<Rightarrow> call_state \<Rightarrow> nat" where
  "call_left fin t = caller_left fin (fst t) + passer_left (fst (snd t))"

lemma pass_left: "pass_step req (p, s) (p', s') \<Longrightarrow> passer_left p' < passer_left p"
  by (erule pass_stepE) auto

lemma call_left_step:
  assumes "stream_step req fin s t"
  shows "call_left fin t < call_left fin s"
  using assms by cases (auto simp: call_left_def pass_left split: handler_end.splits)

lemma passed_out:
  assumes "passed req outs s0 left p s" "pending p = [v]"
  shows "passed req outs s0 left Receiving (stream_out req v s)"
proof -
  obtain sent where sent: "outs = sent @ [v] @ left" "s = fold (stream_out req) sent s0"
    using assms by (auto simp: passed_def)
  then have "outs = (sent @ [v]) @ left" "stream_out req v s = fold (stream_out req) (sent @ [v]) s0" by simp_all
  then show ?thesis unfolding passed_def by (intro conjI exI [of _ "sent @ [v]"]) simp_all
qed

lemma passed_step:
  assumes "pass_step req (p, s) (p', s')" "passed req outs s0 left p s"
  shows "passed req outs s0 left p' s'"
  using assms(1)
proof cases
  case (skip oe v wr)
  then show ?thesis using passed_out [OF assms(2), of v] by (simp add: stream_out_parts)
next
  case (refuse wr e v)
  then show ?thesis using passed_out [OF assms(2), of v] by (simp add: stream_out_parts)
next
  case (check wr v)
  then show ?thesis using assms(2) by (auto simp: passed_def)
next
  case (encode v wr err wr1 oe)
  then have "oe = None" "wr_check req wr = None" using assms(2) by (simp_all add: passed_def)
  with encode show ?thesis using passed_out [OF assms(2), of v] by (simp add: stream_out_parts)
qed

text \<open>The goroutine gets from an output to the next, and that is what passing it on means.\<close>

lemma pass_moves: "pending p \<noteq> [] \<Longrightarrow> \<exists>p' s'. pass_step req (p, s) (p', s')"
proof (cases p)
  case (Passing v)
  obtain oe wr where s: "s = (oe, wr)" by fastforce
  show ?thesis
    unfolding Passing s using skip refuse check by (cases oe; cases "wr_check req wr") blast+
next
  case (Encoding v)
  obtain oe wr where s: "s = (oe, wr)" by fastforce
  show ?thesis unfolding Encoding s using encode by (metis prod.exhaust)
qed simp_all

lemma pass_out: "(stream_step req fin)\<^sup>*\<^sup>* (c, Passing v, s) (c, Receiving, stream_out req v s)"
proof -
  obtain oe wr where s: "s = (oe, wr)" by fastforce
  obtain err wr1 where e: "wr_encode req (result_response v) wr = (err, wr1)" by fastforce
  show ?thesis
  proof (cases "oe = None \<and> wr_check req wr = None")
    case True
    then show ?thesis
      using pass [where fin = fin and c = c, OF check [of req wr v]] pass [where fin = fin and c = c, OF encode [OF e, of None]]
      by (simp add: s stream_out_parts e)
  next
    case False
    then show ?thesis
      using pass [where fin = fin and c = c, OF skip [of oe req v wr]]
        pass [where fin = fin and c = c, OF refuse [of req wr _ v]]
      by (cases oe; cases "wr_check req wr") (auto simp: s stream_out_parts)
  qed
qed

lemma call_inv_step:
  assumes "call_inv req fin outs s0 s" "stream_step req fin s t"
  shows "call_inv req fin outs s0 t"
  using assms(2,1)
proof cases
  case (pass p s p' s' c)
  have "p \<noteq> Over \<and> p' \<noteq> Over" using pass(3) by (auto elim: pass_stepE)
  then show ?thesis
    using pass assms(1) passed_step [OF pass(3)] by (cases c) (auto elim: pass_stepE)
next
  case (handoff v vs s)
  then show ?thesis using assms(1) by (simp add: passed_def)
next
  case (close err p s)
  then show ?thesis using assms(1) by simp
next
  case (over s)
  then show ?thesis using assms(1) by (simp add: passed_def)
next
  case (unwind v p s)
  then show ?thesis using assms(1) by (simp add: passed_def)
next
  case (die err s)
  then show ?thesis using assms(1) by (simp add: passed_def)
next
  case (wait s)
  then show ?thesis using assms(1) by (auto simp: passed_def)
qed (use assms(1) in auto)

interpretation call: step_system "stream_step req fin" "call_start outs s0" "call_inv req fin outs s0" "call_left fin"
  for req fin outs s0
proof unfold_locales
  show "call_inv req fin outs s0 (call_start outs s0)" by (simp add: call_start_def passed_def)
qed (auto elim: call_inv_step call_left_step)

subsection \<open>Complete runs\<close>

text \<open>A run only stops once the request was answered, or the process is dead, and the goroutine has nothing to write.\<close>

lemma call_stuck:
  assumes "call_inv req fin outs s0 (c, p, s)" "stuck (stream_step req fin) (c, p, s)"
  shows "(c = Answered \<or> c = Dead) \<and> pending p = []"
proof -
  have stay: "\<not> stream_step req fin (c, p, s) t" for t using assms(2) unfolding stuck_def by blast
  have none: "pending p = []" using stay pass pass_moves by metis
  obtain oe wr where s: "s = (oe, wr)" by fastforce
  show ?thesis
  proof (cases c)
    case (Calling vs)
    then have p: "p = Receiving" using none assms(1) by (cases p) (auto simp: passed_def)
    show ?thesis
    proof (cases vs)
      case Nil
      then show ?thesis using stay close unwind die unfolding Calling p by (metis handler_end.exhaust)
    next
      case (Cons v us)
      then show ?thesis using stay handoff unfolding Calling p by blast
    qed
  next
    case Waiting
    have "p \<noteq> Receiving" using stay over unfolding Waiting by blast
    moreover have "p \<noteq> Over" using stay wait unfolding Waiting by blast
    ultimately show ?thesis using none by (cases p) auto
  next
    case Failing
    then show ?thesis
      using stay fail_refused [of req wr _ fin p oe] fail_check [of req wr fin p oe] unfolding s
      by (cases "wr_check req wr") auto
  next
    case Erring
    then show ?thesis using stay fail_encode unfolding s by (metis prod.exhaust)
  next
    case Marking
    then show ?thesis using stay mark unfolding s by blast
  qed (use none in simp_all)
qed

lemma stuck_answered: "pending p = [] \<Longrightarrow> stuck (stream_step req fin) (Answered, p, s)"
  by (cases p) (auto simp: stuck_def elim!: stream_stepE pass_stepE)

text \<open>Each output may be passed on before the next is sent.\<close>

lemma call_sends:
  "(stream_step req fin)\<^sup>*\<^sup>* (Calling (vs @ us), Receiving, s) (Calling us, Receiving, fold (stream_out req) vs s)"
proof (induction vs arbitrary: s)
  case (Cons v vs)
  have "(stream_step req fin)\<^sup>*\<^sup>* (Calling (v # vs @ us), Receiving, s) (Calling (vs @ us), Receiving, stream_out req v s)"
    using handoff pass_out by (rule converse_rtranclp_into_rtranclp)
  then show ?case using Cons.IH [of "stream_out req v s"] by simp
qed simp

text \<open>When the handler returns, every schedule ends with what passing on the outputs in order gives.\<close>

lemma call_returns:
  assumes "fin = Returns err" "(stream_step req fin)\<^sup>*\<^sup>* (call_start outs s0) t" "stuck (stream_step req fin) t"
  shows "t = (Answered, Over, stream_rest req fin (fold (stream_out req) outs s0))"
proof -
  have "call_inv req fin outs s0 t" by (rule call.reachable_inv [OF assms(2)])
  then show ?thesis
    using call_stuck [of req fin outs s0 "fst t" "fst (snd t)" "snd (snd t)"] assms(1,3) by (cases t) auto
qed

text \<open>When it hands out what cannot be encoded, every schedule ends with the process, and before that all outputs were passed on.\<close>

lemma call_dies:
  assumes "fin = Unencodable err" "(stream_step req fin)\<^sup>*\<^sup>* (call_start outs s0) t" "stuck (stream_step req fin) t"
  shows "t = (Dead, Receiving, fold (stream_out req) outs s0)"
proof -
  have "call_inv req fin outs s0 t" by (rule call.reachable_inv [OF assms(2)])
  then show ?thesis
    using call_stuck [of req fin outs s0 "fst t" "fst (snd t)" "snd (snd t)"] assms(1,3) by (cases t) auto
qed

subsection \<open>After a panic\<close>

lemma wr_check_open: "open_answer req base rs wr \<Longrightarrow> rq_version req = Version2Streaming \<Longrightarrow> wr_check req wr = None"
  by (simp add: open_answer_def wr_check_def)

lemma wr_encode_wrote:
  assumes "wrote base rs wr" "wr_encode req r wr = (err, wr1)"
  shows "err = None \<and> wrote base (rs @ [stamp req r]) wr1 \<and> wr_finished wr1 = wr_finished wr"
  using assms by (auto simp: wr_encode_def wrote_def sink_encode_def reliable_def)

text \<open>The answers on the wire: the results and the error; the same without the last result, which came when the answer was
  finished; or the last result behind the error, when the goroutine looked before the answer was finished and wrote after it.\<close>

definition panic_answers :: "json list \<Rightarrow> Error \<Rightarrow> Response list set" where
  "panic_answers outs e =
     {map result_response outs @ [error_response e],
      map result_response (butlast outs) @ [error_response e],
      map result_response (butlast outs) @ [error_response e]
        @ map result_response (drop (length outs - 1) outs)}"

lemma panic_answers_snoc:
  "panic_answers (sent @ [v]) e =
     {map result_response (sent @ [v]) @ [error_response e], map result_response sent @ [error_response e],
      map result_response sent @ [error_response e, result_response v]}"
  by (simp add: panic_answers_def)

text \<open>The state before the error is written, and after it.\<close>

definition before_error :: "Request \<Rightarrow> json list \<Rightarrow> sink \<Rightarrow> json list \<Rightarrow> passer \<Rightarrow> string option \<Rightarrow> responseWriter \<Rightarrow> bool" where
  "before_error req outs en left p oe wr \<longleftrightarrow> p \<noteq> Over \<and> oe = None
     \<and> (\<exists>sent. outs = sent @ pending p @ left
          \<and> open_answer req en (map (\<lambda>j. stamp req (result_response j)) sent) wr)"

definition after_error :: "Request \<Rightarrow> Error \<Rightarrow> json list \<Rightarrow> sink \<Rightarrow> passer \<Rightarrow> responseWriter \<Rightarrow> bool" where
  "after_error req e outs en p wr \<longleftrightarrow>
     (\<exists>sent. p \<noteq> Over \<and> outs = sent @ pending p
        \<and> wrote en (map (stamp req) (map result_response sent @ [error_response e])) wr)
     \<or> (p = Receiving \<and> (\<exists>rs \<in> panic_answers outs e. wrote en (map (stamp req) rs) wr))"

fun panic_inv :: "Request \<Rightarrow> handler_end \<Rightarrow> json list \<Rightarrow> sink \<Rightarrow> call_state \<Rightarrow> bool" where
  "panic_inv req fin outs en (Calling vs, p, oe, wr) \<longleftrightarrow> before_error req outs en vs p oe wr"
| "panic_inv req fin outs en (Failing, p, oe, wr) \<longleftrightarrow> before_error req outs en [] p oe wr"
| "panic_inv req fin outs en (Erring, p, oe, wr) \<longleftrightarrow> before_error req outs en [] p oe wr"
| "panic_inv req fin outs en (Marking, p, oe, wr) \<longleftrightarrow> after_error req (end_error fin) outs en p wr"
| "panic_inv req fin outs en (Answered, p, oe, wr) \<longleftrightarrow> after_error req (end_error fin) outs en p wr"
| "panic_inv req fin outs en (_, p, oe, wr) \<longleftrightarrow> False"

lemma open_write:
  assumes "open_answer req en (map (\<lambda>j. stamp req (result_response j)) sent) wr" "rq_version req = Version2Streaming"
    "wr_encode req (result_response v) wr = (err, wr1)"
  shows "err = None \<and> open_answer req en (map (\<lambda>j. stamp req (result_response j)) (sent @ [v])) wr1"
proof -
  have "wrote en (map (\<lambda>j. stamp req (result_response j)) sent) wr" using assms(1) by (simp add: open_answer_def)
  from wr_encode_wrote [OF this assms(3)] show ?thesis
    using assms(1,2) by (auto simp: open_answer_def result_response_def)
qed

lemma before_error_pass:
  assumes "rq_version req = Version2Streaming" "before_error req outs en left p oe wr" "pass_step req (p, oe, wr) (p', oe', wr')"
  shows "before_error req outs en left p' oe' wr'"
  using assms(3)
proof cases
  case (encode v)
  then obtain sent where "outs = (sent @ [v]) @ left" "open_answer req en (map (\<lambda>j. stamp req (result_response j)) sent) wr"
    using assms(2) by (auto simp: before_error_def)
  with open_write [OF this(2) assms(1)] encode show ?thesis
    by (auto simp: before_error_def intro!: exI [of _ "sent @ [v]"])
next
  case (refuse e v)
  then show ?thesis using assms(1,2) wr_check_open by (fastforce simp: before_error_def)
qed (use assms(2) in \<open>auto simp: before_error_def\<close>)

lemma after_error_pass:
  assumes "after_error req e outs en p wr" "pass_step req (p, oe, wr) (p', oe', wr')"
  shows "after_error req e outs en p' wr'"
proof -
  have "p \<noteq> Receiving" using assms(2) by (auto elim: pass_stepE)
  then obtain sent where sent: "outs = sent @ pending p"
    "wrote en (map (stamp req) (map result_response sent @ [error_response e])) wr"
    using assms(1) by (auto simp: after_error_def)
  note gone = panic_answers_snoc [of sent _ e]
  show ?thesis
    using assms(2)
  proof cases
    case (encode v)
    from wr_encode_wrote [OF sent(2) encode(3)] have
      "wrote en (map (stamp req) (map result_response sent @ [error_response e, result_response v])) wr'" by simp
    then show ?thesis using sent(1) encode by (simp add: after_error_def gone)
  qed (use sent in \<open>auto simp: after_error_def gone\<close>)
qed

lemma panic_inv_step:
  assumes "rq_version req = Version2Streaming" "fin = Panics pv"
    "panic_inv req fin outs en s" "stream_step req fin s t"
  shows "panic_inv req fin outs en t"
  using assms(4,3)
proof cases
  case (pass p s p' s' c)
  obtain oe wr where s: "s = (oe, wr)" by fastforce
  obtain oe' wr' where s': "s' = (oe', wr')" by fastforce
  show ?thesis
    using assms(3) before_error_pass [OF assms(1) _ pass(3) [unfolded s s']] after_error_pass [OF _ pass(3) [unfolded s s']]
    unfolding pass(1,2) s s' by (cases c) simp_all
next
  case (handoff v vs s)
  then show ?thesis using assms(3) by (cases s) (simp add: before_error_def)
next
  case (unwind v p s)
  then show ?thesis using assms(3) by (cases s) simp
next
  case (fail_refused wr e p oe)
  then show ?thesis using assms(1,3) wr_check_open by (fastforce simp: before_error_def)
next
  case (fail_encode wr err wr1 p oe)
  then obtain sent where sent: "p \<noteq> Over" "outs = sent @ pending p"
    "open_answer req en (map (\<lambda>j. stamp req (result_response j)) sent) wr"
    using assms(3) by (auto simp: before_error_def)
  then have "wrote en (map (stamp req) (map result_response sent)) wr" by (simp add: open_answer_def comp_def)
  from wr_encode_wrote [OF this fail_encode(3)] have "err = None"
    "wrote en (map (stamp req) (map result_response sent @ [error_response (end_error fin)])) wr1" by simp_all
  then show ?thesis using fail_encode sent(1,2) by (auto simp: after_error_def)
next
  case (mark p oe wr)
  then show ?thesis using assms(3) by (auto simp: after_error_def)
qed (use assms(2,3) in auto)

text \<open>Over a working connection, after a panic.\<close>

interpretation panicking: step_system "stream_step req (Panics pv)" "call_start outs (None, newResponseWriter en)"
    "\<lambda>s. reliable en \<and> rq_version req = Version2Streaming \<longrightarrow> panic_inv req (Panics pv) outs en s" "call_left (Panics pv)"
  for req pv outs en
proof unfold_locales
  show "reliable en \<and> rq_version req = Version2Streaming
      \<longrightarrow> panic_inv req (Panics pv) outs en (call_start outs (None, newResponseWriter en))"
    by (auto simp: call_start_def before_error_def open_answer_new)
qed (blast intro: panic_inv_step, blast intro: call_left_step)

lemma panic_ends:
  assumes "reliable en" "rq_version req = Version2Streaming"
    and "(stream_step req (Panics pv))\<^sup>*\<^sup>* (call_start outs (None, newResponseWriter en)) t" "stuck (stream_step req (Panics pv)) t"
  shows "\<exists>oe wr. t = (Answered, Receiving, oe, wr)
    \<and> (\<exists>rs \<in> panic_answers outs (end_error (Panics pv)). wrote en (map (stamp req) rs) wr)"
proof -
  obtain c p oe wr where t: "t = (c, p, oe, wr)" by (metis prod.exhaust)
  have "call_inv req (Panics pv) outs (None, newResponseWriter en) t" by (rule call.reachable_inv [OF assms(3)])
  then have c: "(c = Answered \<or> c = Dead) \<and> pending p = []"
    using call_stuck [of req "Panics pv" outs _ c p "(oe, wr)"] assms(4) unfolding t by blast
  have "panic_inv req (Panics pv) outs en t"
    using panicking.reachable_inv [OF assms(3)] assms(1,2) by blast
  then have "c = Answered" "after_error req (end_error (Panics pv)) outs en p wr" using c unfolding t by auto
  then show ?thesis
    using c unfolding t by (cases p) (auto simp: after_error_def panic_answers_def)
qed

text \<open>All three answers can come about.\<close>

lemma error_written:
  assumes "open_answer req en (map (\<lambda>j. stamp req (result_response j)) sent) wr" "rq_version req = Version2Streaming"
  obtains wr2 where "(stream_step req (Panics pv))\<^sup>*\<^sup>* (Calling [], p, None, wr) (Marking, p, None, wr2)"
    "wrote en (map (stamp req) (map result_response sent @ [error_response (end_error (Panics pv))])) wr2" "\<not> wr_finished wr2"
proof -
  let ?step = "stream_step req (Panics pv)"
  obtain err wr2 where e: "wr_encode req (error_response (end_error (Panics pv))) wr = (err, wr2)" by fastforce
  have "wrote en (map (stamp req) (map result_response sent)) wr" "\<not> wr_finished wr"
    using assms(1) by (simp_all add: open_answer_def comp_def)
  with wr_encode_wrote [OF _ e] have w: "err = None" "\<not> wr_finished wr2"
    "wrote en (map (stamp req) (map result_response sent @ [error_response (end_error (Panics pv))])) wr2" by auto
  have "?step (Calling [], p, None, wr) (Failing, p, None, wr)" by (rule unwind) (rule refl)
  moreover have "?step (Failing, p, None, wr) (Erring, p, None, wr)" by (rule fail_check) (rule wr_check_open [OF assms])
  moreover have "?step (Erring, p, None, wr) (Marking, p, None, wr2)" using fail_encode [OF e] w(1) by simp
  ultimately have "?step\<^sup>*\<^sup>* (Calling [], p, None, wr) (Marking, p, None, wr2)"
    by (meson converse_rtranclp_into_rtranclp rtranclp.rtrancl_refl)
  then show ?thesis using w(2,3) that by blast
qed

lemma sends_open:
  assumes "reliable en" "rq_version req = Version2Streaming"
  obtains wr where "(stream_step req fin)\<^sup>*\<^sup>* (call_start (sent @ us) (None, newResponseWriter en)) (Calling us, Receiving, None, wr)"
    "open_answer req en (map (\<lambda>j. stamp req (result_response j)) sent) wr"
proof -
  obtain wr where "fold (stream_out req) sent (None, newResponseWriter en) = (None, wr)"
    "open_answer req en (map (\<lambda>j. stamp req (result_response j)) sent) wr"
    using stream_out_open [OF open_answer_new [OF assms(1)] assms(2), of sent] by (auto simp: result_response_def)
  then show ?thesis
    using call_sends [of req fin sent us "(None, newResponseWriter en)"] that by (simp add: call_start_def)
qed

lemma panic_in_order:
  assumes "reliable en" "rq_version req = Version2Streaming"
  shows "\<exists>wr. (stream_step req (Panics pv))\<^sup>*\<^sup>* (call_start outs (None, newResponseWriter en)) (Answered, Receiving, None, wr)
    \<and> wrote en (map (stamp req) (map result_response outs @ [error_response (end_error (Panics pv))])) wr"
proof -
  obtain wr1 where wr1: "(stream_step req (Panics pv))\<^sup>*\<^sup>* (call_start outs (None, newResponseWriter en)) (Calling [], Receiving, None, wr1)"
    "open_answer req en (map (\<lambda>j. stamp req (result_response j)) outs) wr1"
    by (rule sends_open [OF assms, of "Panics pv" outs "[]"]) simp
  obtain wr2 where "(stream_step req (Panics pv))\<^sup>*\<^sup>* (Calling [], Receiving, None, wr1) (Marking, Receiving, None, wr2)"
    "wrote en (map (stamp req) (map result_response outs @ [error_response (end_error (Panics pv))])) wr2"
    by (rule error_written [OF wr1(2) assms(2)])
  then show ?thesis
    using wr1(1) mark [of req "Panics pv" Receiving None wr2]
    by (intro exI [of _ "wr2\<lparr>wr_finished := True\<rparr>"]) (auto intro: rtranclp.rtrancl_into_rtrancl)
qed

lemma panic_overtakes:
  fixes pv
  assumes "reliable en" "rq_version req = Version2Streaming"
  defines "e \<equiv> error_response (end_error (Panics pv))"
  shows "\<exists>oe wr. (stream_step req (Panics pv))\<^sup>*\<^sup>* (call_start (sent @ [v]) (None, newResponseWriter en)) (Answered, Receiving, oe, wr)
      \<and> wrote en (map (stamp req) (map result_response sent @ [e])) wr"
    and "\<exists>oe wr. (stream_step req (Panics pv))\<^sup>*\<^sup>* (call_start (sent @ [v]) (None, newResponseWriter en)) (Answered, Receiving, oe, wr)
      \<and> wrote en (map (stamp req) (map result_response sent @ [e, result_response v])) wr"
proof -
  let ?step = "stream_step req (Panics pv)" and ?start = "call_start (sent @ [v]) (None, newResponseWriter en)"
  obtain wr1 where wr1: "?step\<^sup>*\<^sup>* ?start (Calling [v], Receiving, None, wr1)"
    "open_answer req en (map (\<lambda>j. stamp req (result_response j)) sent) wr1"
    by (rule sends_open [OF assms(1,2), of "Panics pv" sent "[v]"])
  obtain wr2 where wr2: "?step\<^sup>*\<^sup>* (Calling [], Passing v, None, wr1) (Marking, Passing v, None, wr2)"
    "wrote en (map (stamp req) (map result_response sent @ [e])) wr2" "\<not> wr_finished wr2"
    unfolding e_def by (rule error_written [OF wr1(2) assms(2)])
  have start: "?step\<^sup>*\<^sup>* ?start (Marking, Passing v, None, wr2)"
    using wr1(1) handoff [of req "Panics pv" v "[]" "(None, wr1)"] wr2(1)
    by (meson rtranclp.rtrancl_into_rtrancl rtranclp_trans)
  have late: "wr_check req (wr2\<lparr>wr_finished := True\<rparr>) = Some ''attempt to write result after stream is complete''"
    and soon: "wr_check req wr2 = None"
    using assms(2) wr2(3) by (simp_all add: wr_check_def)
  have "?step (Marking, Passing v, None, wr2) (Answered, Passing v, None, wr2\<lparr>wr_finished := True\<rparr>)" by (rule mark)
  moreover note pass [where fin = "Panics pv" and c = Answered, OF refuse [OF late, of v]]
  ultimately have "?step\<^sup>*\<^sup>* ?start (Answered, Receiving, Some ''attempt to write result after stream is complete'', wr2\<lparr>wr_finished := True\<rparr>)"
    using start by (meson rtranclp.rtrancl_into_rtrancl)
  then show "\<exists>oe wr. ?step\<^sup>*\<^sup>* ?start (Answered, Receiving, oe, wr)
      \<and> wrote en (map (stamp req) (map result_response sent @ [e])) wr"
    using wr2(2) wrote_finished by blast
  obtain err wr3 where e3: "wr_encode req (result_response v) wr2 = (err, wr3)" by fastforce
  have w3: "wrote en (map (stamp req) (map result_response sent @ [e, result_response v])) wr3"
    using wr_encode_wrote [OF wr2(2) e3] by simp
  note pass [where fin = "Panics pv" and c = Marking, OF check [OF soon, of v]]
  moreover note pass [where fin = "Panics pv" and c = Marking, OF encode [OF e3, of None]]
  moreover have "?step (Marking, Receiving, err, wr3) (Answered, Receiving, err, wr3\<lparr>wr_finished := True\<rparr>)" by (rule mark)
  ultimately have "?step\<^sup>*\<^sup>* ?start (Answered, Receiving, err, wr3\<lparr>wr_finished := True\<rparr>)"
    using start by (meson rtranclp.rtrancl_into_rtrancl)
  then show "\<exists>oe wr. ?step\<^sup>*\<^sup>* ?start (Answered, Receiving, oe, wr)
      \<and> wrote en (map (stamp req) (map result_response sent @ [e, result_response v])) wr"
    using w3 wrote_finished by blast
qed

lemma panic_reaches:
  assumes "reliable en" "rq_version req = Version2Streaming" "rs \<in> panic_answers outs (end_error (Panics pv))"
  shows "\<exists>oe wr. (stream_step req (Panics pv))\<^sup>*\<^sup>* (call_start outs (None, newResponseWriter en)) (Answered, Receiving, oe, wr)
    \<and> wrote en (map (stamp req) rs) wr"
proof (cases outs rule: rev_cases)
  case Nil
  then show ?thesis using panic_in_order [OF assms(1,2), of pv "[]"] assms(3) by (auto simp: panic_answers_def)
next
  case (snoc sent v)
  from assms(3) consider
      "rs = map result_response (sent @ [v]) @ [error_response (end_error (Panics pv))]"
    | "rs = map result_response sent @ [error_response (end_error (Panics pv))]"
    | "rs = map result_response sent @ [error_response (end_error (Panics pv)), result_response v]"
    unfolding snoc panic_answers_snoc by blast
  then show ?thesis
  proof cases
    case 1
    then show ?thesis using panic_in_order [OF assms(1,2), of pv "sent @ [v]"] unfolding snoc by blast
  next
    case 2
    then show ?thesis using panic_overtakes(1) [OF assms(1,2), of pv sent v] unfolding snoc by blast
  next
    case 3
    then show ?thesis using panic_overtakes(2) [OF assms(1,2), of pv sent v] unfolding snoc by blast
  qed
qed

subsection \<open>Properties\<close>

text \<open>C30: the goroutine that passes on the outputs of a streaming method makes no difference when the method returns:
  from every state it reaches the call goes on to an end, after at most three steps an output and three more,
  and every schedule ends with the goroutine over and the request answered as the sequential reading answers it.\<close>

theorem stream_call_returns:
  assumes "decode_input m (rq_params req) = Inr v" "m_Stream m"
    and "m_callStream m ctx v w = ((outs, Returns err), w1)"
    and "(stream_step req (Returns err) ^^ n) (call_start outs (None, wr)) t"
  shows "n \<le> 3 * length outs + 3
    \<and> (\<exists>u. (stream_step req (Returns err))\<^sup>*\<^sup>* t u \<and> stuck (stream_step req (Returns err)) u)
    \<and> (stuck (stream_step req (Returns err)) t \<longrightarrow> (\<exists>outErr wr1 r. t = (Answered, Over, outErr, wr1)
         \<and> answer_streaming req m ctx wr w = handled (r, wr1) w1))"
proof (intro conjI impI)
  let ?step = "stream_step req (Returns err)"
  have reach: "?step\<^sup>*\<^sup>* (call_start outs (None, wr)) t" using assms(4) by (rule relpowp_imp_rtranclp)
  have "n + call_left (Returns err) t \<le> call_left (Returns err) (call_start outs (None, wr))"
    by (rule call.run_length, rule call.inv_start) (rule assms(4))
  then show "n \<le> 3 * length outs + 3" by (simp add: call_left_def call_start_def)
  show "\<exists>u. ?step\<^sup>*\<^sup>* t u \<and> stuck ?step u"
    using reach by (rule call.reachable_ends)
  assume "stuck ?step t"
  with reach have t: "t = (Answered, Over, stream_rest req (Returns err) (fold (stream_out req) outs (None, wr)))"
    by (intro call_returns [OF refl])
  then show "\<exists>outErr wr1 r. t = (Answered, Over, outErr, wr1) \<and> answer_streaming req m ctx wr w = handled (r, wr1) w1"
    using answer_streaming_finish [OF assms(1-3) encodable_simps(1), of wr]
    by (cases "finish_streaming req (Returns err) (fold (stream_out req) outs (None, wr))") (force simp: stream_rest_def)
qed

text \<open>C31: when a streaming method panics, what the client gets depends on the schedule, and there are just three answers: all
  results and then the error; the same without the last result, which is dropped when the answer is
  already finished; or the last result behind the error, when the goroutine looks before the answer is finished and
  writes after the error.  Every schedule comes to an end, after at most three steps an output and five more, and the goroutine never
  ends: nobody closes the channel it waits on.  (One response is written in one step; were two written at once, their bytes might
  mix.)\<close>

theorem stream_call_panics:
  assumes "reliable en" "rq_version req = Version2Streaming"
  shows "((\<exists>t. (stream_step req (Panics p))\<^sup>*\<^sup>* (call_start outs (None, newResponseWriter en)) t
        \<and> stuck (stream_step req (Panics p)) t \<and> fst t = caller \<and> fst (snd t) = goroutine
        \<and> sk_sent (wr_en (snd (snd (snd t)))) = js)
      \<longleftrightarrow> caller = Answered \<and> goroutine = Receiving \<and> (\<exists>rs \<in> panic_answers outs (end_error (Panics p)).
            js = sk_sent en @ map (\<lambda>r. encode_response (stamp req r)) rs))
    \<and> (\<forall>n t. (stream_step req (Panics p) ^^ n) (call_start outs (None, newResponseWriter en)) t
        \<longrightarrow> n \<le> 3 * length outs + 5 \<and> (\<exists>u. (stream_step req (Panics p))\<^sup>*\<^sup>* t u \<and> stuck (stream_step req (Panics p)) u))"
proof -
  let ?start = "call_start outs (None, newResponseWriter en)"
  have sent: "sk_sent (wr_en wr) = sk_sent en @ map (\<lambda>r. encode_response (stamp req r)) rs"
    if "wrote en (map (stamp req) rs) wr" for rs wr
    using that by (simp add: wrote_def comp_def)
  have ends: "caller = Answered \<and> goroutine = Receiving \<and> (\<exists>rs \<in> panic_answers outs (end_error (Panics p)).
      js = sk_sent en @ map (\<lambda>r. encode_response (stamp req r)) rs)"
    if t: "(stream_step req (Panics p))\<^sup>*\<^sup>* ?start t" "stuck (stream_step req (Panics p)) t" "fst t = caller"
      "fst (snd t) = goroutine" "sk_sent (wr_en (snd (snd (snd t)))) = js" for t
    using panic_ends [OF assms t(1,2)] t(3-5) sent by fastforce
  have reaches: "\<exists>t. (stream_step req (Panics p))\<^sup>*\<^sup>* ?start t \<and> stuck (stream_step req (Panics p)) t
      \<and> fst t = Answered \<and> fst (snd t) = Receiving
      \<and> sk_sent (wr_en (snd (snd (snd t)))) = sk_sent en @ map (\<lambda>r. encode_response (stamp req r)) rs"
    if rs: "rs \<in> panic_answers outs (end_error (Panics p))" for rs
  proof -
    obtain oe wr where "(stream_step req (Panics p))\<^sup>*\<^sup>* ?start (Answered, Receiving, oe, wr)" "wrote en (map (stamp req) rs) wr"
      using panic_reaches [OF assms rs] by blast
    then show ?thesis using sent stuck_answered [of Receiving] by (intro exI [of _ "(Answered, Receiving, oe, wr)"]) simp
  qed
  have short: "n \<le> 3 * length outs + 5 \<and> (\<exists>u. (stream_step req (Panics p))\<^sup>*\<^sup>* t u \<and> stuck (stream_step req (Panics p)) u)"
    if run: "(stream_step req (Panics p) ^^ n) ?start t" for n t
  proof -
    have "n + call_left (Panics p) t \<le> call_left (Panics p) ?start"
      by (rule call.run_length, rule call.inv_start) (rule run)
    then show ?thesis
      using call.reachable_ends [OF relpowp_imp_rtranclp [OF run]] by (simp add: call_left_def call_start_def)
  qed
  show ?thesis using ends reaches short by blast
qed

text \<open>The last result behind the error.\<close>

theorem stream_call_panics_witness:
  "\<exists>t. (stream_step (echo_request Version2Streaming JNull) (Panics (PanicOther ''boom'')))\<^sup>*\<^sup>*
        (call_start [JInt 5, JInt 7] (None, newResponseWriter a_sink)) t
    \<and> stuck (stream_step (echo_request Version2Streaming JNull) (Panics (PanicOther ''boom''))) t
    \<and> fst t = Answered \<and> fst (snd t) = Receiving
    \<and> sk_sent (wr_en (snd (snd (snd t)))) = map (\<lambda>r. encode_response (stamp (echo_request Version2Streaming JNull) r))
        [result_response (JInt 5), error_response \<lparr>e_code = ErrorInternal, e_message = ''boom'', e_data = None\<rparr>,
         result_response (JInt 7)]"
proof -
  have "rq_version (echo_request Version2Streaming JNull) = Version2Streaming" by (simp add: echo_request_def)
  from stream_call_panics [OF reliable_a_sink this, of "PanicOther ''boom''" "[JInt 5, JInt 7]" Answered Receiving]
  show ?thesis by (simp add: a_sink_def end_error_def panic_answers_def)
qed

theorem stream_call_returns_witness:
  "\<exists>t outErr wr1 r. (stream_step (echo_request Version2Streaming (JInt 5)) (Returns None))\<^sup>*\<^sup>*
        (call_start [JInt 5, JInt 5] (None, newResponseWriter a_sink)) t
    \<and> t = (Answered, Over, outErr, wr1)
    \<and> answer_streaming (echo_request Version2Streaming (JInt 5)) (echo_impl True) [] (newResponseWriter a_sink) ()
      = handled (r, wr1) ()"
proof -
  let ?req = "echo_request Version2Streaming (JInt 5)"
  have m: "decode_input (echo_impl True) (rq_params ?req) = Inr (JInt 5)" "m_Stream (echo_impl True)"
    "m_callStream (echo_impl True) [] (JInt 5) () = (([JInt 5, JInt 5], Returns None), ())"
    by (simp_all add: echo_impl_def echo_request_def decode_input_def)
  note returns = stream_call_returns [OF m, where wr = "newResponseWriter a_sink"]
  obtain t where "(stream_step ?req (Returns None))\<^sup>*\<^sup>* (call_start [JInt 5, JInt 5] (None, newResponseWriter a_sink)) t"
    "stuck (stream_step ?req (Returns None)) t"
    using returns [of 0 "call_start [JInt 5, JInt 5] (None, newResponseWriter a_sink)"] by auto
  moreover from this obtain n where "(stream_step ?req (Returns None) ^^ n) (call_start [JInt 5, JInt 5] (None, newResponseWriter a_sink)) t"
    using rtranclp_imp_relpowp by metis
  ultimately show ?thesis using returns by blast
qed

text \<open>An output that cannot be encoded: whatever the schedule, all outputs before it are written, and then the process dies.
  (Had the handler returned or panicked meanwhile, its answer might have come first; what a handler does after that
  output is not in its outputs.)\<close>

theorem stream_call_dies:
  assumes "reliable en" "rq_version req = Version2Streaming"
    and "(stream_step req (Unencodable err))\<^sup>*\<^sup>* (call_start outs (None, newResponseWriter en)) t" "stuck (stream_step req (Unencodable err)) t"
  shows "fst t = Dead \<and> sk_sent (wr_en (snd (snd (snd t))))
    = sk_sent en @ map (\<lambda>j. encode_response (stamp req (result_response j))) outs"
proof -
  obtain wr where "fold (stream_out req) outs (None, newResponseWriter en) = (None, wr)"
    "open_answer req en (map (\<lambda>j. stamp req (result_response j)) outs) wr"
    using stream_out_open [OF open_answer_new [OF assms(1)] assms(2), of outs] by (auto simp: result_response_def)
  then show ?thesis
    using call_dies [OF refl assms(3,4)] by (simp add: open_answer_def wrote_def comp_def)
qed

theorem stream_call_dies_witness:
  "\<exists>t. (stream_step (echo_request Version2Streaming JNull) (Unencodable ''unsupported value''))\<^sup>*\<^sup>*
        (call_start [JInt 5] (None, newResponseWriter a_sink)) t
    \<and> fst t = Dead \<and> length (sk_sent (wr_en (snd (snd (snd t))))) = 1"
proof -
  have v: "rq_version (echo_request Version2Streaming JNull) = Version2Streaming" by (simp add: echo_request_def)
  obtain t where t: "(stream_step (echo_request Version2Streaming JNull) (Unencodable ''unsupported value''))\<^sup>*\<^sup>*
        (call_start [JInt 5] (None, newResponseWriter a_sink)) t"
    "stuck (stream_step (echo_request Version2Streaming JNull) (Unencodable ''unsupported value'')) t"
    using call.reachable_ends [OF rtranclp.rtrancl_refl] by metis
  from stream_call_dies [OF reliable_a_sink v t] t(1) show ?thesis by (intro exI [of _ t]) (simp add: a_sink_def)
qed

end
