(* ===== verification/WholeRun.thy ===== *)
theory WholeRun
  imports Stack
begin

text \<open>
  The program as a whole: the command line client (\<open>shipshape/cli\<close>), the RPC library under it and the
  service with its driver (\<open>shipshape/service\<close>), from the flags to the file the client leaves.
\<close>

subsection \<open>A run whose responses are collected\<close>

text \<open>One analysis whose responses are collected for a file.\<close>

lemma collecting_run:
  assumes "codecs_ok c" "client_over cenv (server_network (shipshape_endpoint env) text_of c)"
    and "startServices cenv (main_options ord jf fl dir) t = Ret (st, t1)" "st_err st = None" "ht_net t1 = (w, sd)"
    and "fl_json_output fl \<noteq> []" "fl_build fl = []"
    and "Driver.Run env sd (run_request fl dir (st_paths st)) w = Ret (res, sd', w')"
  shows "\<exists>t'. Cli.Run cenv (main_options ord jf fl dir) blank_state t = Ret ((case rr_err res of
      Some err \<Rightarrow> ((0, Some (''error making service call: received an error from calling run: '' @ err)),
          blank_state\<lparr>ms_all := rr_ars res\<rparr>)
    | None \<Rightarrow> (case write_responses jf (fl_json_output fl) (blank_state\<lparr>ms_all := rr_ars res\<rparr>) of (err, s) \<Rightarrow>
          ((numNotes \<lparr>sresp_analyze_response = rr_ars res\<rparr>, err), s))), t')"
proof -
  obtain x where x: "st_options st = (main_options ord jf fl dir)\<lparr>ThirdPartyAnalyzers := x\<rparr>"
    using startServices_options [OF assms(3)] by blast
  have o: "HandleResponse (st_options st) = Some collect_response" "Build (st_options st) = []"
    "ResponsesDone (st_options st) = Some (write_responses jf (fl_json_output fl))"
    using assms(6,7) by (simp_all add: x main_options_def)
  note req = main_request [OF x]
  have b: "blank_state\<lparr>ms_all := ms_all blank_state @ rr_ars res\<rparr> = blank_state\<lparr>ms_all := rr_ars res\<rparr>"
    by (simp add: blank_state_def)
  let ?t2 = "t1\<lparr>ht_id := ht_id t1 + 1, ht_net := (w', sd')\<rparr>"
  have analysis: "analyze cenv (run_request fl dir (st_paths st)) (pa_origDir (st_paths st)) (Some collect_response) blank_state t1
      = Ret ((case rr_err res of
          Some err \<Rightarrow> ((0, Some (''received an error from calling run: '' @ err)), blank_state\<lparr>ms_all := rr_ars res\<rparr>)
        | None \<Rightarrow> ((numNotes \<lparr>sresp_analyze_response = rr_ars res\<rparr>, None), blank_state\<lparr>ms_all := rr_ars res\<rparr>)), ?t2)"
    unfolding analyze_Run [OF assms(1,2,8,5)]
    by (simp add: client_result_def collect_response_def b split: option.split)
  have "Cli.Run cenv (main_options ord jf fl dir) blank_state t
      = go_bind (run_analyses cenv (st_options st) (st_paths st) blank_state t1) (\<lambda>(r, w2). Ret (r, cleanup cenv st w2))"
    by (simp add: Cli.Run_def assms(3,4))
  then show ?thesis
    unfolding run_analyses_def req Let_def
    by (cases "rr_err res"; cases "write_responses jf (fl_json_output fl) (blank_state\<lparr>ms_all := rr_ars res\<rparr>)")
      (simp_all add: o analysis call_error_def responses_done_def)
qed

subsection \<open>Properties\<close>

text \<open>C1: from the command line to the file, with the service at the other end of its network: the client asked for
  JSON sends the request of its flags to the service it started or found, and when the driver's run of that very request
  returns without an error, it leaves a file with one JSON value, which reads back as exactly the responses of
  the run, and exits with 1 when they have a note and 0 when not; when the run returns an error, it prints
  the error, leaves no file and exits with 2.\<close>

theorem json_file_of_run:
  assumes "codecs_ok c" "client_over cenv (server_network (shipshape_endpoint env) text_of c)"
    and "fl_args fl = dir # others" "fl_json_output fl \<noteq> []" "fl_build fl = []"
    and "\<not> fl_show_categories fl" "\<not> fl_hot_start fl" "\<And>f b. jf f b = None"
    and "startServices cenv (main_options ord jf fl dir) t = Ret (st, t1)" "st_err st = None" "ht_net t1 = (w, sd)"
    and "Driver.Run env sd (run_request fl dir (st_paths st)) w = Ret (res, sd', w')"
  shows "\<exists>code s t'. cli_main cenv decode ord jf fl t = Ret ((code, s), t') \<and> (case rr_err res of
      Some err \<Rightarrow> code = 2 \<and> ms_file s = None
        \<and> ms_stdout s = ''Error: error making service call: received an error from calling run: '' @ err @ [CHR_nl]
    | None \<Rightarrow> code = (if \<forall>ar \<in> set (rr_ars res). ar_note ar = [] then 0 else 1)
        \<and> (\<exists>text j. ms_file s = Some (fl_json_output fl, text) \<and> decoded (text, None) = [Value j]
             \<and> unmarshal ShipshapeResponse_codec j = Inr \<lparr>sresp_analyze_response = rr_ars res\<rparr>))"
proof -
  have none: "numNotes \<lparr>sresp_analyze_response = rr_ars res\<rparr> = 0 \<longleftrightarrow> (\<forall>ar \<in> set (rr_ars res). ar_note ar = [])"
    by (simp add: numNotes_all all_notes_def)
  have main: "cli_main cenv decode ord jf fl t
      = go_bind (Cli.Run cenv (main_options ord jf fl dir) blank_state t) (\<lambda>((r, s1), w1). Ret (exit_code r s1, w1))"
    using assms(3,6,7) by (simp add: cli_main_def)
  obtain t' where run: "Cli.Run cenv (main_options ord jf fl dir) blank_state t = Ret ((case rr_err res of
      Some err \<Rightarrow> ((0, Some (''error making service call: received an error from calling run: '' @ err)),
          blank_state\<lparr>ms_all := rr_ars res\<rparr>)
    | None \<Rightarrow> (case write_responses jf (fl_json_output fl) (blank_state\<lparr>ms_all := rr_ars res\<rparr>) of (err, s) \<Rightarrow>
          ((numNotes \<lparr>sresp_analyze_response = rr_ars res\<rparr>, err), s))), t')"
    using collecting_run [OF assms(1,2,9,10,11,4,5,12)] by blast
  show ?thesis
  proof (cases "rr_err res")
    case None
    then show ?thesis
      using none responses_text_read [of "rr_ars res"]
      by (auto simp: main run write_responses_def assms(8) exit_code_def returnFindings_def returnNoFindings_def)
  next
    case (Some err)
    have "ms_file blank_state = None" "ms_stdout blank_state = []" by (simp_all add: blank_state_def)
    with Some show ?thesis
      by (simp add: main run exit_code_def returnError_def print_to_def)
  qed
qed

text \<open>A service with one analyzer, and a client on a machine where all can be started.\<close>

definition vet_flags :: flags where
  "vet_flags = demo_flags\<lparr>fl_categories := ''go vet''\<rparr>"

definition vet_env :: "string driver_env" where
  "vet_env = demo_env ''manual'' [''go vet'']"

definition vet_paths :: Paths where
  "vet_paths = \<lparr>pa_isDir = True, pa_relativeRoot = [], pa_absRoot = ''/src'', pa_origDir = ''/src''\<rparr>"

lemma vet_run:
  "case Driver.Run vet_env demo_driver (run_request vet_flags ''/src'' vet_paths) ''/home'' of
     Ret (res, _, _) \<Rightarrow> rr_err res = None \<and> \<not> (\<forall>ar \<in> set (rr_ars res). ar_note ar = []) | Panic _ \<Rightarrow> False"
  by code_simp

theorem json_file_of_run_witness:
  "\<exists>s t' res text j. cli_main (remote_cli (server_network (shipshape_endpoint vet_env) (\<lambda>r. []) plain_codecs))
        (\<lambda>j. Inl ''not read'') rev (\<lambda>f b. None) vet_flags (NewHTTPClient ''localhost:10007'' (''/home'', demo_driver))
      = Ret ((1, s), t')
    \<and> ms_file s = Some (''out.json'', text) \<and> decoded (text, None) = [Value j]
    \<and> unmarshal ShipshapeResponse_codec j = Inr \<lparr>sresp_analyze_response = res\<rparr>"
proof -
  let ?cenv = "remote_cli (server_network (shipshape_endpoint vet_env) (\<lambda>r. []) plain_codecs)"
  let ?t = "NewHTTPClient ''localhost:10007'' (''/home'', demo_driver)"
  let ?opts = "main_options rev (\<lambda>f b. None) vet_flags ''/src''"
  have dir: "IsAbs ''/src''" "Clean ''/src'' = ''/src''" by code_simp+
  have "quiet_machine ?cenv" by (simp add: quiet_machine_def remote_cli_def idle_os_def)
  from quiet_started [OF this _ dir, of vet_flags rev "\<lambda>f b. None" ?t]
  have st: "startServices ?cenv ?opts ?t = Ret (services_up vet_paths ?opts (Inr []), ?t)"
    by (simp add: vet_flags_def demo_flags_def vet_paths_def)
  have up: "st_err (services_up vet_paths ?opts (Inr [])) = None" "st_paths (services_up vet_paths ?opts (Inr [])) = vet_paths"
    by (simp_all add: services_up_def vet_paths_def)
  obtain res sd' w' where r: "Driver.Run vet_env demo_driver (run_request vet_flags ''/src'' vet_paths) ''/home'' = Ret (res, sd', w')"
    "rr_err res = None" "\<not> (\<forall>ar \<in> set (rr_ars res). ar_note ar = [])"
    using vet_run by (auto split: go.splits)
  have fl: "fl_args vet_flags = [''/src'']" "fl_json_output vet_flags = ''out.json''" "fl_json_output vet_flags \<noteq> []" "fl_build vet_flags = []"
    "\<not> fl_show_categories vet_flags" "\<not> fl_hot_start vet_flags"
    by (simp_all add: vet_flags_def demo_flags_def)
  have net: "ht_net ?t = (''/home'', demo_driver)" by (simp add: NewHTTPClient_def)
  from json_file_of_run [OF codecs_ok_plain client_over_remote_cli fl(1,3-6) _ st up(1) net, unfolded up(2), OF _ r(1)] r(2,3) fl(2)
  show ?thesis by (simp; blast)
qed

end
