(* ===== verification/Spec2Isabelle.thy ===== *)
theory Spec2Isabelle
  imports CliMain Startup TestUtil AndroidLint Tools Streams Buffer ServiceMain Fanout
    ClientBodies HealthChecks TestClient Testmain Serving Overlap StreamCalls WholeRun
begin

text \<open>
  \<^bold>\<open>Shipshape.\<close>  Shipshape runs static analyzers on a source repository.  A command line client
  (\<open>shipshape/cli\<close>) starts Docker containers: the service, and one per third-party analyzer.  It then
  sends the service a request over JSON-RPC.  The service (\<open>shipshape/service/driver.go\<close>) reads the
  configuration of the repository, asks every analyzer what it offers, sends each the wanted
  categories and the files to analyze, and streams the filtered responses back.  Analyzers are
  processes that serve a pack of analyzers (\<open>shipshape/api\<close>): the Go container has six of them
  (\<open>shipshape/analyzers\<close>), the Android container one.  This development models the Go half of the
  system, from the bytes on the wire to the exit code of the client.

  \<^bold>\<open>Conventions.\<close>  An operation of Go that can panic has a result in \<open>go\<close> (\<open>Ret\<close> or \<open>Panic\<close>,
  \<open>Prelude\<close>); an error that is returned is an option or the left side of a sum.  Everything outside
  the program is a parameter: the operating system is the record \<open>os\<close> of functions on an unspecified
  world \<open>'w\<close> (\<open>Osys\<close>), and the records \<open>driver_env\<close>, \<open>cli_env\<close>, \<open>network\<close>, \<open>transport\<close>,
  \<open>clock\<close>, \<open>disk_env\<close> and \<open>lint_env\<close> hold what else a component calls: RPCs to other processes,
  YAML and XML parsers, codecs, clocks.  The order in which Go ranges over a map is a function
  on lists that keeps the elements (\<open>range_order\<close>), so what is proved holds for every order.  What
  the program relies on is a named predicate (\<open>returns_home\<close>, \<open>codecs_ok\<close>,
  \<open>reliable\<close>, \<open>clock_ok\<close>, \<open>temp_laws\<close>, \<open>roots_are_dirs\<close>).

  \<^bold>\<open>The theories.\<close>
  \<^item> \<open>Prelude\<close>, \<open>GoStrings\<close>, \<open>Paths\<close>, \<open>Osys\<close>: panics, maps, strings, numbers, file paths and
    the operating system, as the program uses Go's library; path cleaning is idempotent, splitting
    inverts joining, decimal numbers are read back.
  \<^item> \<open>StrSet\<close> (\<open>util/strings/strings.go\<close>): the string sets, with an interface that the driver's
    set computations rest on.
  \<^item> \<open>Messages\<close>, \<open>MessageJson\<close> (\<open>proto/*.pb.go\<close>): the messages as records, where \<open>None\<close> is an absent
    optional field, and their JSON, which is read back as it was written.
  \<^item> \<open>JsonText\<close>, \<open>JsonRaw\<close>: the text of JSON, as \<open>encoding/json\<close> writes it and as the scanner of its decoder
    reads it off a stream, byte by byte.  What was written is read back, as values and as texts, and a text
    that is cut off gives the first values and then at most an error.
  \<^item> \<open>Config\<close> (\<open>service/config.go\<close>), \<open>FileUtil\<close> (\<open>util/file\<close>), \<open>Walk\<close> and \<open>Driver\<close>
    (\<open>service/driver.go\<close>): a run of a request.  The driver's state is \<open>ShipshapeDriver\<close>; \<open>Run\<close>
    returns the responses, the error, the calls it made, the driver and the world it leaves.  Shown:
    which analyzers are called with what, which failures and notes are sent back, when a run
    panics, that it returns to its directory, and what it does to the default categories.
  \<^item> \<open>Steps\<close>, \<open>Fanout\<close>: the two fan-outs of the driver as goroutines and channels, a step relation
    \<open>fan_step\<close> with an invariant and a weight, in which the goroutines share the unguarded cache of
    clients.  Every schedule ends in what the sequential definitions of \<open>Driver\<close> compute, with no goroutine left, or crashes as
    those panic, or is stopped for a race on the cache.  A race takes an address without a client, so the second
    fan-out of a run, which calls analyzers the first has asked, has none.
  \<^item> \<open>HealthChecks\<close> (\<open>WaitForAnalyzers\<close> and \<open>getHTTPClient\<close> of \<open>service/driver.go\<close>): the goroutines
    that wait for the analyzers and share two unguarded maps.  Every schedule ends, with the result of
    the sequential reading or with the process stopped for a race, and both can happen.
  \<^item> \<open>ServiceMain\<close> (\<open>service/shipshape.go\<close>): the program around the driver, and the driver over a
    series of requests.
  \<^item> \<open>Analyzers\<close> (\<open>shipshape/analyzers\<close>), \<open>Dispatcher\<close> (\<open>api/dispatcher.go\<close>,
    \<open>service/go_dispatcher.go\<close>), \<open>AndroidLint\<close> (\<open>androidlint_analyzer\<close>): each analyzer keeps
    the contract \<open>analyzer_contract\<close> of returning and of tagging its notes, a pack of such
    analyzers keeps it together, and the output of the tools is read back into notes.
  \<^item> \<open>Protocol\<close>, \<open>Service\<close>, \<open>HttpEncoding\<close>, \<open>Endpoint\<close>, \<open>Client\<close>, \<open>ClientBodies\<close> (\<open>util/rpc\<close>,
    \<open>util/httpencoding\<close>): the RPC library.  The server answers every request completely and with
    exactly what the method makes of it, or ends, which takes an output of a stream that cannot be encoded; a call or a stream through client, network and server
    gives the results of the method, a stream that breaks off is not taken for a finished one, and
    \<open>WriteStream\<close> copies the bytes a stream is decoded from.  The network between client and server
    carries texts: each side decodes what the other encoded.
  \<^item> \<open>StreamCalls\<close> (\<open>Method.Invoke\<close> of \<open>util/rpc/server/service.go\<close>): the goroutine that passes on the outputs of
    a streaming method, under every schedule, down to the check and the encoding of each response.  When the method
    returns, all end in the answer of \<open>Endpoint\<close>; when it panics, \<open>Endpoint\<close> has one of the three answers there
    can be, and in the others the last result is lost, or comes behind the error.
  \<^item> \<open>Delimited\<close>, \<open>Streams\<close>, \<open>Buffer\<close> (\<open>util/delimited\<close>, \<open>util/rpc/stream\<close>,
    \<open>util/rpc/buffer\<close>): record streams, delimited or of JSON on lines, are read back as written; the buffer refines a queue of bytes.
  \<^item> \<open>Docker\<close> (\<open>util/docker/docker.go\<close>), \<open>Cli\<close> and \<open>CliMain\<close> (\<open>cli/shipshape_lib.go\<close>,
    \<open>cli/shipshape.go\<close>): the client.  Shown: what its Docker commands are and how it reads their
    output, that it points the service at the right directory, what it prints or writes and how
    it exits.
  \<^item> \<open>Startup\<close>: the goroutines that start the analyzers, under every schedule: what they list was
    started, they end, the sequential model is one of their schedules, and an update can be lost.
  \<^item> \<open>TestUtil\<close>, \<open>TestClient\<close>, \<open>Testmain\<close>, \<open>Tools\<close>: the comparison of notes in tests, the test client
    (\<open>shipshape/test\<close>), the generator of test programs (\<open>tools/go\<close>), and four small programs.
  \<^item> \<open>Stack\<close>: the parts put together.  The Go programs register their services, with the methods of
    \<open>Dispatcher\<close> and \<open>Driver\<close>, and the driver and the client call them through \<open>Client\<close>, \<open>Endpoint\<close>
    and \<open>MessageJson\<close>.  What each end sees is what the handler at the other end did.
  \<^item> \<open>Serving\<close>, \<open>Overlap\<close>: the services over many requests.  Whatever is sent to an endpoint, one
    request after another, keeps what its methods keep: the driver stays well-formed and the process in
    its directory.  Runs at the same time share that directory, and can mix up their configurations.
  \<^item> \<open>WholeRun\<close>: the client and the service as one program, from the flags to the file the client leaves.
  \<^item> This theory: over RPC, the driver with Go dispatchers behind it, and the client that prints what
    the driver sends.

  \<^bold>\<open>Interfaces.\<close>  The locales are the contracts between components: \<open>string_set\<close>, \<open>analyzer_contract\<close>
  and \<open>analyzer_pack\<close>, \<open>rpc_transport\<close>, \<open>framing\<close>, \<open>byte_queue\<close>, \<open>kept_by\<close> (what the methods of an
  endpoint keep) and \<open>step_system\<close>; each is interpreted on
  the model's own definitions in the theory that provides them.

  \<^bold>\<open>Loops.\<close>  A loop over a list is a recursive function.  The client's loop over a response stream ends
  because the stream gets shorter; reading a whole stream with \<open>drain\<close> takes one unit of fuel per
  response and one for the end, and the theorems give it that.  \<open>WaitUntilReady\<close> and \<open>getProject\<close> need
  not end and are partial functions, with theorems that say when they do.  A schedule of the
  fan-outs has at most seven steps per goroutine and one, one of \<open>Startup\<close> at most six, one of
  \<open>HealthChecks\<close> at most eight steps per address and one, one of \<open>Overlap\<close> at most three per run,
  and one of \<open>StreamCalls\<close> at most three per output and three, or five when the method panics.

  \<^bold>\<open>Integers.\<close>  Fields of messages and lengths of records are words of their width.  Ports and numbers of
  notes are not bounded.

  \<^bold>\<open>Not modelled.\<close>  Log output; flag parsing; TCP, TLS and HTTP themselves; strings of JSON that are not
  valid UTF-8; the mixing of the bytes of two responses that two goroutines write at once; nil elements in the lists of
  messages and configurations, which are lists of records here (\<open>validate_pointers\<close> and \<open>filter_pointers\<close> are two loops that meet them, over
  pointers); calls of the driver that panic in its client; the binary form of protocol buffers, which
  is third-party code; the
  generated getters, and the reporter messages, which no program uses; the arrays that two slices may
  share; in \<open>Stack\<close>, a panic of a goroutine of the driver, which ends the service, so that the theorems
  are about runs that return, and
  what a handler did to the world before it panicked, apart from its directory.  Reflection in the server is a description of the types of the
  methods.  The Jenkins
  plugin and the Java half of the system are left out: to the driver a Java container is another analyzer at an
  address.
\<close>

subsection \<open>The driver and the Go dispatcher\<close>

lemma go_pack_rpc_notes:
  assumes "callAnalyze env a req = resp" "de_analyze env a = pack_rpc os (go_dispatcher os) w" "n \<in> set (ar_note resp)"
  obtains ctx c where "areq_context req = Some ctx" "c \<in> set (areq_category req)" "c \<in> set go_categories"
    "own_notes c ctx [n]" "c = ''CodeAlert'' \<Longrightarrow> n_location n = None"
proof -
  obtain w' where "Dispatcher.Analyze os (go_dispatcher os) req w = Ret ((resp, None), w')"
    using assms by (auto simp: callAnalyze_def pack_rpc_def split: sum.splits go.splits option.splits prod.splits)
  from go_dispatcher_notes [OF this assms(3)] that show thesis by blast
qed

text \<open>C4: in a run whose calls go over RPC to Go dispatchers every note that is sent back has a wanted
  category that is one of the dispatcher's and is not \<open>CodeAlert\<close>, the source context of the
  request, and a path, if any, among the selected files: the notes of \<open>CodeAlert\<close>, which say no
  place, are all lost.\<close>

theorem go_run_notes:
  assumes "Driver.Run env sd inp w = Ret (res, sd', w')" "enters env inp w event stage ctx root w1"
    and "config_in env event w1 = Inr cfg"
    and "wanted sd (sreq_triggered_category inp) event cfg = Some W"
    and "driver_orders env" "wf_set (defaultCategories sd)"
    and "codecs_ok c"
    and "\<forall>a \<in> set (AnalyzerLocations sd).
      \<exists>t. calls_over env a (server_network (analyzer_endpoint os (go_dispatcher os)) text_of c) t"
    and "ar \<in> set (rr_ars res)" "n \<in> set (ar_note ar)"
  shows "\<exists>c loc. n_category n = Some c \<and> c \<in> W \<and> c \<in> set go_categories \<and> c \<noteq> ''CodeAlert''
    \<and> n_location n = Some loc \<and> loc_source_context loc = ctx_source_context ctx
    \<and> (\<forall>p. loc_path loc = Some p \<longrightarrow> p \<in> set (selected_files env ctx root cfg w1))"
proof -
  from assms(2) have st: "sreq_stage inp = Some stage" by (simp add: enters_def)
  let ?contxt = "ctx\<lparr>ctx_file_path := selected_files env ctx root cfg w1\<rparr>"
  obtain m ms desired where m: "getAllServiceInfo env sd = Ret m"
    and des: "{c. Set_Contains desired c} = W \<inter> offered env sd"
    and res: "let contxt = ?contxt; calls = planned_calls env sd m desired contxt stage
     in res = \<lparr>rr_ars = map (missing_failure sd) ms
                 @ map (\<lambda>(a, req). filterResults contxt (callAnalyze env a req)) calls,
               rr_err = None, rr_calls = calls\<rparr>"
    using run_inside_ran [OF Run_enters [OF assms(2,1)] st assms(5,6,3,4)] by metis
  have "ar_note (missing_failure sd c) = []" for c by (simp add: missing_failure_def generateFailure_def)
  with assms(9,10) res obtain a req where
    call: "(a, req) \<in> set (analyzer_calls env (sd\<lparr>serviceMap := m\<rparr>) desired ?contxt stage)"
    and n: "n \<in> set (ar_note (filterResults ?contxt (callAnalyze env a req)))"
    by (auto simp: Let_def planned_calls_def split: if_splits)
  have a: "a \<in> set (AnalyzerLocations sd)"
    using analyzer_calls_exact(1) [OF m assms(5), of a desired ?contxt stage] call by blast
  have req: "areq_context req = Some ?contxt" "set (areq_category req) = runnable env desired a"
    using analyzer_calls_exact(2) [OF m assms(5) call] by simp_all
  from n obtain loc where loc: "n \<in> set (ar_note (callAnalyze env a req))" "n_location n = Some loc"
    "\<forall>p. loc_path loc = Some p \<longrightarrow> p \<in> set (selected_files env ctx root cfg w1)"
    by (auto simp: filterResults_def Let_def strset_simps split: option.splits)
  obtain wa where "de_analyze env a = pack_rpc os (go_dispatcher os) wa"
    using assms(8) a calls_over_service [OF assms(7)] by blast
  from go_pack_rpc_notes [OF refl this loc(1)] obtain ctx' c where
    c: "areq_context req = Some ctx'" "c \<in> set (areq_category req)" "c \<in> set go_categories"
    "own_notes c ctx' [n]" "c = ''CodeAlert'' \<Longrightarrow> n_location n = None" by blast
  have "c \<in> W" using c(2) req(2) des by (auto simp: runnable_def)
  moreover have "c \<noteq> ''CodeAlert''" using c(5) loc(2) by auto
  ultimately show ?thesis using c(1,3,4) req(1) loc(2,3) by auto
qed

text \<open>A repository with one file, and a driver with one Go dispatcher.\<close>

definition go_os :: "string os" where
  "go_os = plain_os\<lparr>ReadFile := (\<lambda>f w. FileContent ''do not submit'')\<rparr>"

definition go_env :: "string driver_env" where
  "go_env = (demo_env ''manual'' [''PostMessage'', ''CodeAlert''])
     \<lparr>de_categories := (\<lambda>a. Inr go_categories), de_stage := (\<lambda>a. Inr (Some Stage_PRE_BUILD)),
      de_analyze := (\<lambda>a. pack_rpc go_os (go_dispatcher go_os) ''/'')\<rparr>"

definition go_driver :: ShipshapeDriver where
  "go_driver = NewDriver [''localhost:10005''] (New [])"

definition post_note :: Note where
  "post_note = empty_note\<lparr>n_category := Some ''PostMessage'',
     n_description := Some ''Shipshape analysis results are being produced from go dispatcher at stage PRE_BUILD'',
     n_location := Some empty_location, n_severity := Some OTHER\<rparr>"

lemma go_run:
  "case Driver.Run go_env go_driver (demo_request [''PostMessage'', ''CodeAlert''] ''manual'') ''/home''
     of Ret (res, sd', w') \<Rightarrow> rr_ars res = [\<lparr>ar_note = [post_note], ar_failure = []\<rparr>] | Panic _ \<Rightarrow> False"
  by code_simp

lemma go_demo:
  "enters go_env (demo_request cats event) ''/home'' event Stage_PRE_BUILD demo_context
     ''/shipshape-workspace'' ''/shipshape-workspace''"
  "config_in go_env ''manual'' w
     = Inr (Some \<lparr>images = [], ignore = [''vendor/''], categories = [''PostMessage'', ''CodeAlert'']\<rparr>)"
  "driver_orders go_env" "wf_set (defaultCategories go_driver)"
  by (simp_all add: enters_def go_env_def demo_env_def demo_request_def demo_context_def empty_context_def
      plain_os_def config_in_def loadConfig_def unmarshalConfigBytes_def validateConfig_def
      buildConfig_def new_config_def eventWithName_def GetEvent_def getNames_def defaultName_def
      driver_orders_def go_driver_def NewDriver_def)

lemma go_env_over:
  "calls_over go_env a (server_network (analyzer_endpoint go_os (go_dispatcher go_os)) (\<lambda>r. []) plain_codecs) (NewHTTPClient addr ''/'')"
  unfolding calls_over_service [OF codecs_ok_plain]
  by (simp add: go_env_def Dispatcher.GetCategory_def GetStage_def go_dispatcher_def CreateAnalyzerService_def
      go_analyzers_categories NewHTTPClient_def)

theorem go_run_notes_witness:
  "\<exists>c loc. n_category post_note = Some c \<and> c \<in> {''PostMessage'', ''CodeAlert''} \<and> c \<noteq> ''CodeAlert''
     \<and> n_location post_note = Some loc \<and> loc_source_context loc = ctx_source_context demo_context"
proof -
  let ?inp = "demo_request [''PostMessage'', ''CodeAlert''] ''manual''"
  obtain res sd' w' where r: "Driver.Run go_env go_driver ?inp ''/home'' = Ret (res, sd', w')"
    "rr_ars res = [\<lparr>ar_note = [post_note], ar_failure = []\<rparr>]"
    using go_run by (auto split: go.splits)
  have "wanted go_driver (sreq_triggered_category ?inp) ''manual'' cfg = Some {''PostMessage'', ''CodeAlert''}"
    for cfg by (simp add: wanted_def demo_request_def)
  from go_run_notes [OF r(1) go_demo(1,2) this go_demo(3,4) codecs_ok_plain, of go_os "\<lambda>r. []" _ post_note]
    go_env_over r(2)
  show ?thesis by fastforce
qed

subsection \<open>The driver and the command line client\<close>

definition bad_answer :: "string + AnalyzeResponse \<Rightarrow> ShipshapeContext \<Rightarrow> bool" where
  "bad_answer reply ctx = (case reply of
     Inl err \<Rightarrow> True
   | Inr resp \<Rightarrow> (\<exists>f \<in> set (ar_failure resp). f_category f = None \<or> f_message f = None)
       \<or> (\<exists>n \<in> set (ar_note (filterResults ctx resp)). n_description n = None))"

text \<open>C12: over RPC, a client that prints text panics in the analysis exactly when one of the calls the
  run of the service made failed, or was answered with a failure without category or message or
  with a note in scope that has no description.  In particular an analyzer that is down crashes
  the client that is to report it.\<close>

theorem failed_call_panics_client:
  assumes "Driver.Run env sd inp w = Ret (res, sd', w')" "driver_orders env" "wf_set (defaultCategories sd)"
    and "range_order ord" "codecs_ok c" "ht_net t = (w, sd)"
    and "client_over cenv (server_network (shipshape_endpoint env) text_of c)"
  shows "panics (analyze cenv inp d (Some (outputAsText ord)) s t) \<longleftrightarrow>
    (\<exists>(a, req) \<in> set (rr_calls res). bad_answer (de_analyze env a req) (the (areq_context req)))"
proof -
  obtain own where own: "\<forall>ar \<in> set own. \<exists>c m. ar = generateFailure c m"
    and ars: "rr_ars res = own @ map (\<lambda>(a, req). filterResults (the (areq_context req)) (callAnalyze env a req)) (rr_calls res)"
    using Run_responses [OF assms(1-3)] by blast
  let ?bad = "\<lambda>ar. (\<exists>f \<in> set (ar_failure ar). f_category f = None \<or> f_message f = None)
         \<or> (\<exists>n \<in> set (ar_note ar). n_location n = None \<or> n_category n = None \<or> n_description n = None)"
  have kept: "n_category n \<noteq> None \<and> n_location n \<noteq> None" if "n \<in> set (ar_note (filterResults ctx resp))" for n ctx resp
    using that by (auto simp: filterResults_def Let_def split: option.splits)
  have bad: "?bad (filterResults (the (areq_context req)) (callAnalyze env a req))
      \<longleftrightarrow> bad_answer (de_analyze env a req) (the (areq_context req))" for a req
    using kept [of _ "the (areq_context req)" "callAnalyze env a req"]
    by (auto simp: bad_answer_def callAnalyze_def filterResults_def Let_def split: sum.split)
  have "\<not> ?bad ar" if "ar \<in> set own" for ar
    using own that by (auto simp: generateFailure_def)
  then show ?thesis
    using bad unfolding analyze_panics_iff [OF assms(5,7,1,6)] outputAsText_panics_iff [OF assms(4)] ars
    by (fastforce simp: image_iff)
qed

text \<open>The analyzer of \<open>demo_env\<close> goes down between the two fan-outs.\<close>

definition down_env :: "string driver_env" where
  "down_env = (demo_env ''manual'' [''go vet''])\<lparr>de_analyze := (\<lambda>a req. Inl ''connection refused'')\<rparr>"

lemma down_run:
  "case Driver.Run down_env demo_driver (demo_request [''go vet''] ''manual'') ''/home''
     of Ret (res, sd', w') \<Rightarrow> map fst (rr_calls res) = [''localhost:10005''] | Panic _ \<Rightarrow> False"
  by code_simp

theorem failed_call_panics_client_witness:
  "panics (analyze (remote_cli (server_network (shipshape_endpoint down_env) (\<lambda>r. []) plain_codecs))
     (demo_request [''go vet''] ''manual'') ''.'' (Some (outputAsText rev)) blank_state
     (NewHTTPClient ''localhost:10007'' (''/home'', demo_driver)))"
proof -
  obtain res sd' w' req where r: "Driver.Run down_env demo_driver (demo_request [''go vet''] ''manual'') ''/home'' = Ret (res, sd', w')"
    and c: "rr_calls res = [(''localhost:10005'', req)]"
    using down_run by (auto split: go.splits)
  have o: "driver_orders down_env"
    using driver_orders_demo [of "''manual''" "[''go vet'']"] by (simp add: driver_orders_def down_env_def)
  have t: "ht_net (NewHTTPClient ''localhost:10007'' (''/home'', demo_driver)) = (''/home'', demo_driver)"
    by (simp add: NewHTTPClient_def)
  have "bad_answer (de_analyze down_env ''localhost:10005'' req) (the (areq_context req))"
    by (simp add: bad_answer_def down_env_def)
  then show ?thesis
    using failed_call_panics_client [OF r o wf_demo_driver range_order_rev codecs_ok_plain t
        client_over_remote_cli, where d = "''.''" and s = blank_state] c by fastforce
qed

end
